(* ===== verification/Prelude.thy ===== *)
theory Prelude
  imports Main "HOL-Library.Word" "HOL-Library.Signed_Division"
begin

unbundle bit_operations_syntax

text \<open>
  Shared vocabulary of the development: the machine types of the C++ code, the run-time
  faults its undefined behaviour and assertions are turned into, C integer division,
  C strings and the generic list facts that several components use.

  A C++ operation that can leave its defined behaviour (an index outside a vector, a
  division by zero, a signed overflow, a null pointer, a failed \<open>assert\<close>) returns a value
  of \<open>fault + 'a\<close>: \<open>Inl\<close> names what went wrong, \<open>Inr\<close> carries the result.  A C++ \<open>int\<close>
  is an \<open>int\<close>; where its 32-bit range matters the range is stated by a lemma.  Unsigned
  types whose wrap-around matters are words.
\<close>

section \<open>Machine types and faults\<close>

type_synonym u8 = "8 word"
type_synonym u16 = "16 word"
type_synonym u32 = "32 word"
type_synonym u64 = "64 word"

datatype fault =
    Div_By_Zero
  | Out_Of_Range
  | Null_Deref
  | Signed_Overflow
  | Assert_Failed
  | Spinning
  | No_Return
  | Bad_Shift
  | Process_Exit
  | Dangling

named_theorems wf_intros
  \<open>introduction rules for the well-formedness predicates of the components\<close>

named_theorems op_simps
  \<open>equations that evaluate the operations of the components\<close>

definition INT_MIN :: int where "INT_MIN = - (2 ^ 31)"
definition INT_MAX :: int where "INT_MAX = 2 ^ 31 - 1"

definition in_int_range :: "int \<Rightarrow> bool" where
  "in_int_range i \<longleftrightarrow> INT_MIN \<le> i \<and> i \<le> INT_MAX"

lemma in_int_range_iff: "in_int_range i \<longleftrightarrow> -2147483648 \<le> i \<and> i \<le> 2147483647"
  by (simp add: in_int_range_def INT_MIN_def INT_MAX_def)

text \<open>The conversion \<open>(int) x\<close> of an unsigned 64-bit value: the low 32 bits, signed.\<close>

definition int_of_u64 :: "u64 \<Rightarrow> int" where
  "int_of_u64 w = sint (ucast w :: u32)"

text \<open>C's \<open>/\<close> and \<open>%\<close> truncate towards zero, as \<open>sdiv\<close> and \<open>smod\<close> do.\<close>

lemma sdiv_nonneg [simp]:
  fixes a b :: int
  assumes "0 \<le> a" and "0 \<le> b"
  shows "a sdiv b = a div b"
  using assms
  by (cases "a = 0"; cases "b = 0") (auto simp: signed_divide_int_def)

lemma smod_nonneg [simp]:
  fixes a b :: int
  assumes "0 \<le> a" and "0 \<le> b"
  shows "a smod b = a mod b"
  using assms by (cases "a = 0") (auto simp: smod_int_alt_def)

lemma zdiv_le_self: "0 \<le> a \<Longrightarrow> 0 < b \<Longrightarrow> a div b \<le> (a :: int)"
  by (cases "a = 0") (auto simp: int_div_le_self)

section \<open>Sums as results\<close>

fun bind_run :: "fault + 'a \<Rightarrow> ('a \<Rightarrow> fault + 'b) \<Rightarrow> fault + 'b" where
  "bind_run (Inl e) f = Inl e"
| "bind_run (Inr x) f = f x"

lemma bind_run_Inr_iff:
  "bind_run r f = Inr y \<longleftrightarrow> (\<exists>x. r = Inr x \<and> f x = Inr y)"
  by (cases r) auto

text \<open>A run of an operation over a list of inputs, with the outputs of its steps.\<close>

fun run_with :: "('m \<Rightarrow> 'e \<Rightarrow> fault + 'o \<times> 'm) \<Rightarrow> 'm \<Rightarrow> 'e list \<Rightarrow> fault + 'o list \<times> 'm" where
  "run_with f m [] = Inr ([], m)"
| "run_with f m (e # es) =
     bind_run (f m e) (\<lambda>(out, m'). bind_run (run_with f m' es) (\<lambda>(outs, m''). Inr (out # outs, m'')))"

text \<open>\<open>P\<close> holds of the state and the input before every step of the run.\<close>

fun all_steps :: "('m \<Rightarrow> 'e \<Rightarrow> fault + 'o \<times> 'm) \<Rightarrow> ('m \<Rightarrow> 'e \<Rightarrow> bool) \<Rightarrow> 'm \<Rightarrow> 'e list \<Rightarrow> bool" where
  "all_steps f P m [] = True"
| "all_steps f P m (e # es) =
     (P m e \<and> (case f m e of Inl _ \<Rightarrow> False | Inr (_, m') \<Rightarrow> all_steps f P m' es))"

lemma run_with_length: "run_with f m es = Inr (outs, m') \<Longrightarrow> length outs = length es"
  by (induction es arbitrary: m outs) (auto simp: bind_run_Inr_iff)

lemma run_with_ConsE:
  assumes "run_with f m (e # es) = Inr (outs, m'')"
  obtains out m' outs' where "f m e = Inr (out, m')" "run_with f m' es = Inr (outs', m'')"
    "outs = out # outs'"
  using assms by (auto simp: bind_run_Inr_iff)

text \<open>
  If every permitted step succeeds and keeps an invariant, so does every run whose steps are
  permitted in the states the run leads to.
\<close>

lemma run_with_safe:
  assumes step: "\<And>m e. I m \<Longrightarrow> ok m e \<Longrightarrow> \<exists>out m'. f m e = Inr (out, m') \<and> I m'"
    and "I m"
    and "\<forall>k < length es. \<forall>outs m'. run_with f m (take k es) = Inr (outs, m') \<longrightarrow> ok m' (es ! k)"
  shows "\<exists>outs m'. run_with f m es = Inr (outs, m') \<and> I m'"
  using assms(2,3)
proof (induction es arbitrary: m)
  case Nil
  then show ?case by simp
next
  case (Cons x es)
  have "ok m x" using Cons.prems(2) by force
  then obtain out m1 where s: "f m x = Inr (out, m1)" "I m1" using step Cons.prems(1) by blast
  have "ok m' (es ! k)" if "k < length es" "run_with f m1 (take k es) = Inr (outs, m')" for k outs m'
    using Cons.prems(2) [rule_format, of "Suc k" "out # outs" m'] that s by simp
  then show ?case using Cons.IH [OF s(2)] s(1) by auto
qed

section \<open>Vectors indexed by an int\<close>

text \<open>\<open>v[i]\<close> on a \<open>std::vector\<close>, with the out-of-range access as a fault.\<close>

definition vec_at :: "'a list \<Rightarrow> int \<Rightarrow> fault + 'a" where
  "vec_at v i = (if 0 \<le> i \<and> nat i < length v then Inr (v ! nat i) else Inl Out_Of_Range)"

definition vec_set :: "'a list \<Rightarrow> int \<Rightarrow> 'a \<Rightarrow> fault + 'a list" where
  "vec_set v i x = (if 0 \<le> i \<and> nat i < length v then Inr (v[nat i := x]) else Inl Out_Of_Range)"

lemma vec_at_in [simp]: "0 \<le> i \<Longrightarrow> nat i < length v \<Longrightarrow> vec_at v i = Inr (v ! nat i)"
  by (simp add: vec_at_def)

lemma vec_set_in [simp]: "0 \<le> i \<Longrightarrow> nat i < length v \<Longrightarrow> vec_set v i x = Inr (v[nat i := x])"
  by (simp add: vec_set_def)

text \<open>\<open>resize\<close> of a vector: truncate or pad with the default element.\<close>

definition vec_resize :: "'a \<Rightarrow> 'a list \<Rightarrow> nat \<Rightarrow> 'a list" where
  "vec_resize d v n = take n v @ replicate (n - length v) d"

lemma length_vec_resize [simp]: "length (vec_resize d v n) = n"
  by (simp add: vec_resize_def)

lemma nth_vec_resize:
  "i < n \<Longrightarrow> vec_resize d v n ! i = (if i < length v then v ! i else d)"
  by (auto simp: vec_resize_def nth_append)

end
