(* ===== verification/Timer_Service.thy ===== *)
theory Timer_Service
  imports Prelude
begin

text \<open>
  The contract between a timer container and the event loop that ticks it
  (\<open>IOManager::idle\<close> calls \<open>TimerManager::tick\<close>): \<open>pending m t d\<close> says that timer \<open>t\<close> is
  due after \<open>d\<close> more ticks.  The laws are per tick; the lemmas are about whole runs.
\<close>

locale timer_service =
  fixes inv :: "'m \<Rightarrow> bool"
    and pending :: "'m \<Rightarrow> nat \<Rightarrow> int \<Rightarrow> bool"
    and cb_of :: "'m \<Rightarrow> nat \<Rightarrow> 'c"
    and effective :: "'m \<Rightarrow> 'e \<Rightarrow> bool"
    and tick :: "'m \<Rightarrow> 'e \<Rightarrow> fault + 'c list \<times> 'm"
  assumes tick_total: "inv m \<Longrightarrow> \<exists>cs m'. tick m e = Inr (cs, m')"
    and tick_inv: "inv m \<Longrightarrow> tick m e = Inr (cs, m') \<Longrightarrow> inv m'"
    and countdown: "inv m \<Longrightarrow> effective m e \<Longrightarrow> tick m e = Inr (cs, m') \<Longrightarrow>
                    0 < d \<Longrightarrow> pending m t d \<Longrightarrow> pending m' t (d - 1)"
    and due_fires: "inv m \<Longrightarrow> effective m e \<Longrightarrow> tick m e = Inr (cs, m') \<Longrightarrow>
                    pending m t 0 \<Longrightarrow> cb_of m t \<in> set cs"
    and fired_due: "inv m \<Longrightarrow> tick m e = Inr (cs, m') \<Longrightarrow> c \<in> set cs \<Longrightarrow>
                    \<exists>t. pending m t 0 \<and> cb_of m t = c"
    and pending_unique: "inv m \<Longrightarrow> pending m t d \<Longrightarrow> pending m t d' \<Longrightarrow> d = d'"
    and no_birth: "inv m \<Longrightarrow> tick m e = Inr (cs, m') \<Longrightarrow> pending m' t d \<Longrightarrow> \<exists>d'. pending m t d'"
    and cb_kept: "inv m \<Longrightarrow> tick m e = Inr (cs, m') \<Longrightarrow> pending m t d \<Longrightarrow> cb_of m' t = cb_of m t"
begin

lemma run_total: "inv m \<Longrightarrow> \<exists>outs m'. run_with tick m es = Inr (outs, m')"
proof (induction es arbitrary: m)
  case Nil
  then show ?case by simp
next
  case (Cons e es)
  then obtain cs m1 where "tick m e = Inr (cs, m1)" "inv m1"
    using tick_total tick_inv by metis
  then show ?case using Cons.IH [of m1] by auto
qed

lemma run_inv: "inv m \<Longrightarrow> run_with tick m es = Inr (outs, m') \<Longrightarrow> inv m'"
proof (induction es arbitrary: m outs)
  case Nil
  then show ?case by simp
next
  case (Cons e es)
  then show ?case by (auto simp: bind_run_Inr_iff dest: tick_inv)
qed

lemma fires_at:
  assumes "inv m" and "pending m t (int d)" and "d < length es"
    and "all_steps tick effective m es" and "run_with tick m es = Inr (outs, m')"
  shows "cb_of m t \<in> set (outs ! d)"
  using assms
proof (induction es arbitrary: m d outs)
  case Nil
  then show ?case by simp
next
  case (Cons e es)
  obtain cs m1 os where s: "tick m e = Inr (cs, m1)" "run_with tick m1 es = Inr (os, m')" "outs = cs # os"
    using Cons.prems(5) by (rule run_with_ConsE)
  have e: "effective m e" "all_steps tick effective m1 es" using Cons.prems(4) s by auto
  show ?case
  proof (cases d)
    case 0
    then show ?thesis using due_fires [OF Cons.prems(1) e(1) s(1)] Cons.prems(2) s(3) by simp
  next
    case (Suc k)
    have "pending m1 t (int k)"
      using countdown [OF Cons.prems(1) e(1) s(1) _ Cons.prems(2)] Suc by simp
    then have "cb_of m1 t \<in> set (os ! k)"
      using Cons.IH [OF tick_inv [OF Cons.prems(1) s(1)] _ _ e(2) s(2)] Cons.prems(3) Suc by simp
    then show ?thesis using cb_kept [OF Cons.prems(1) s(1) Cons.prems(2)] s(3) Suc by simp
  qed
qed

lemma silent_before:
  assumes "inv m" and "pending m t (int d)" and "j < d" and "j < length es"
    and "all_steps tick effective m es" and "run_with tick m es = Inr (outs, m')"
    and "\<forall>u d'. pending m u d' \<longrightarrow> cb_of m u = cb_of m t \<longrightarrow> u = t"
  shows "cb_of m t \<notin> set (outs ! j)"
  using assms
proof (induction es arbitrary: m d j outs)
  case Nil
  then show ?case by simp
next
  case (Cons e es)
  obtain cs m1 os where s: "tick m e = Inr (cs, m1)" "run_with tick m1 es = Inr (os, m')" "outs = cs # os"
    using Cons.prems(6) by (rule run_with_ConsE)
  have e: "effective m e" "all_steps tick effective m1 es" using Cons.prems(5) s by auto
  have p1: "pending m1 t (int d - 1)"
    using countdown [OF Cons.prems(1) e(1) s(1) _ Cons.prems(2)] Cons.prems(3) by simp
  show ?case
  proof (cases j)
    case 0
    have "cb_of m t \<notin> set cs"
      using fired_due [OF Cons.prems(1) s(1)] Cons.prems(2,3,7) pending_unique [OF Cons.prems(1)]
      by fastforce
    then show ?thesis using s(3) 0 by simp
  next
    case (Suc k)
    have uniq: "\<forall>u d'. pending m1 u d' \<longrightarrow> cb_of m1 u = cb_of m1 t \<longrightarrow> u = t"
      using no_birth [OF Cons.prems(1) s(1)] cb_kept [OF Cons.prems(1) s(1)] Cons.prems(2,7) by metis
    have "pending m1 t (int (d - 1))" using p1 Cons.prems(3) by (simp add: of_nat_diff)
    moreover have "k < d - 1" "k < length es" using Cons.prems(3,4) Suc by auto
    ultimately have "cb_of m1 t \<notin> set (os ! k)"
      using Cons.IH [OF tick_inv [OF Cons.prems(1) s(1)] _ _ _ e(2) s(2) uniq] by blast
    then show ?thesis using cb_kept [OF Cons.prems(1) s(1) Cons.prems(2)] s(3) Suc by simp
  qed
qed

lemma silent_forever:
  assumes "inv m" and "\<forall>u d. pending m u d \<longrightarrow> cb_of m u \<noteq> c"
    and "run_with tick m es = Inr (outs, m')" and "j < length outs"
  shows "c \<notin> set (outs ! j)"
  using assms
proof (induction es arbitrary: m j outs)
  case Nil
  then show ?case by simp
next
  case (Cons e es)
  obtain cs m1 os where s: "tick m e = Inr (cs, m1)" "run_with tick m1 es = Inr (os, m')" "outs = cs # os"
    using Cons.prems(3) by (rule run_with_ConsE)
  have none: "\<forall>u d. pending m1 u d \<longrightarrow> cb_of m1 u \<noteq> c"
    using no_birth [OF Cons.prems(1) s(1)] cb_kept [OF Cons.prems(1) s(1)] Cons.prems(2) by metis
  have "c \<notin> set cs" using fired_due [OF Cons.prems(1) s(1)] Cons.prems(2) by blast
  then show ?case
    using Cons.IH [OF tick_inv [OF Cons.prems(1) s(1)] none s(2)] Cons.prems(4) s(3)
    by (cases j) auto
qed

end

end
