(* ===== verification/Timer_Wheel.thy ===== *)
theory Timer_Wheel
  imports Timer_Service
begin

text \<open>
  The timing wheel of \<open>src/timer/timer.cpp\<close> and \<open>src/timer/timer.h\<close>.

  A \<open>Timer::ptr\<close> is an index into the store \<open>timers\<close> of the \<open>Timer\<close> objects, so that the
  sharing of one object by the wheel, by the list of recurring timers of a tick and by the
  caller of \<open>addTimer\<close> is visible: \<open>tick\<close> changes \<open>round\<close> through the shared pointer, and
  \<open>delTimer\<close> reads \<open>slot\<close> through the caller's one.  \<open>getCurTimeMS\<close> is the wall clock: its
  readings are arguments.  The mutex makes each operation one step.
\<close>

section \<open>State and operations\<close>

record 'cb timer =
  intervalTime :: int
  round_no :: int
  slot :: int
  callback :: 'cb
  recurring :: bool

record 'cb timer_mgr =
  mSlotNum :: int
  mTickTime :: int
  mCurSlot :: int
  mLastExpireTime :: u64
  mWheel :: "nat list list"
  timers :: "'cb timer list"

definition newTimerManager :: "int \<Rightarrow> int \<Rightarrow> u64 \<Rightarrow> 'cb timer_mgr" where
  "newTimerManager slotnum ticktime now =
     \<lparr>mSlotNum = slotnum, mTickTime = ticktime, mCurSlot = 0, mLastExpireTime = now,
      mWheel = replicate (nat slotnum) [], timers = []\<rparr>"

text \<open>
  The three lines \<open>ticks\<close>, \<open>round\<close>, \<open>slot\<close> that \<open>addTimer\<close> and \<open>tick\<close> share.
\<close>

definition place :: "'cb timer_mgr \<Rightarrow> int \<Rightarrow> fault + int \<times> int" where
  "place m timing =
     (if mTickTime m = 0 \<or> mSlotNum m = 0 then Inl Div_By_Zero
      else let ticks = timing sdiv mTickTime m;
               rnd = ticks sdiv mSlotNum m;
               sum = mCurSlot m + ticks smod mSlotNum m
           in if \<not> in_int_range ticks \<or> \<not> in_int_range rnd \<or> \<not> in_int_range sum then Inl Signed_Overflow
              else Inr (rnd, sum smod mSlotNum m))"

definition push_slot :: "nat list list \<Rightarrow> int \<Rightarrow> nat \<Rightarrow> fault + nat list list" where
  "push_slot w s t = bind_run (vec_at w s) (\<lambda>l. vec_set w s (l @ [t]))"

definition addTimer :: "'cb timer_mgr \<Rightarrow> int \<Rightarrow> 'cb \<Rightarrow> bool \<Rightarrow> fault + nat \<times> 'cb timer_mgr" where
  "addTimer m timing cb recurr =
     bind_run (place m timing) (\<lambda>(rnd, sl).
       let newTimer = length (timers m);
           tm = \<lparr>intervalTime = timing, round_no = rnd, slot = sl, callback = cb, recurring = recurr\<rparr>
       in bind_run (push_slot (mWheel m) sl newTimer) (\<lambda>w.
            Inr (newTimer, m\<lparr>mWheel := w, timers := timers m @ [tm]\<rparr>)))"

text \<open>\<open>std::list::remove\<close> erases every element equal to its argument.\<close>

definition delTimer :: "'cb timer_mgr \<Rightarrow> nat \<Rightarrow> fault + 'cb timer_mgr" where
  "delTimer m t =
     (if t < length (timers m)
      then let s = slot (timers m ! t)
           in bind_run (vec_at (mWheel m) s) (\<lambda>l.
                bind_run (vec_set (mWheel m) s (filter (\<lambda>u. u \<noteq> t) l)) (\<lambda>w.
                  Inr (m\<lparr>mWheel := w\<rparr>)))
      else Inl Null_Deref)"

text \<open>
  The first loop of \<open>tick\<close>.  When \<open>round\<close> is not zero it is decremented and the loop goes on
  with the same iterator, so the recursive call keeps the same list.
\<close>

function drain_slot ::
  "'cb timer list \<Rightarrow> nat list \<Rightarrow> 'cb list \<Rightarrow> nat list \<Rightarrow> fault + 'cb timer list \<times> 'cb list \<times> nat list" where
  "drain_slot ts [] cbs recurTimer = Inr (ts, cbs, recurTimer)"
| "drain_slot ts (t # l) cbs recurTimer =
     (if length ts \<le> t then Inl Null_Deref
      else let tmp = ts ! t
           in if round_no tmp \<noteq> 0
              then (if round_no tmp \<le> INT_MIN then Inl Signed_Overflow
                    else drain_slot (ts[t := tmp\<lparr>round_no := round_no tmp - 1\<rparr>]) (t # l) cbs recurTimer)
              else drain_slot ts l (cbs @ [callback tmp])
                     (if recurring tmp then recurTimer @ [t] else recurTimer))"
  by pat_completeness auto
termination
  by (relation "measures [\<lambda>(ts, l, cbs, r). length l,
                          \<lambda>(ts, l, cbs, r). case l of [] \<Rightarrow> 0
                              | t # _ \<Rightarrow> nat (round_no (ts ! t) - INT_MIN)]") auto

text \<open>The second loop: a recurring timer gets a new round and a new place, but keeps its \<open>slot\<close>.\<close>

fun rearm :: "'cb timer_mgr \<Rightarrow> nat list \<Rightarrow> fault + 'cb timer_mgr" where
  "rearm m [] = Inr m"
| "rearm m (t # rs) =
     (if length (timers m) \<le> t then Inl Null_Deref
      else bind_run (place m (intervalTime (timers m ! t))) (\<lambda>(rnd, sl).
             bind_run (push_slot (mWheel m) sl t) (\<lambda>w.
               rearm (m\<lparr>timers := (timers m)[t := (timers m ! t)\<lparr>round_no := rnd\<rparr>], mWheel := w\<rparr>) rs)))"

definition ticking :: "'cb timer_mgr \<Rightarrow> u64 \<Rightarrow> bool" where
  "ticking m now \<longleftrightarrow> mTickTime m \<le> int_of_u64 (now - mLastExpireTime m)"

definition tick :: "'cb timer_mgr \<Rightarrow> u64 \<Rightarrow> u64 \<Rightarrow> fault + 'cb list \<times> 'cb timer_mgr" where
  "tick m now1 now2 =
     (if ticking m now1
      then bind_run (vec_at (mWheel m) (mCurSlot m)) (\<lambda>l.
             bind_run (drain_slot (timers m) l [] []) (\<lambda>(ts, cbs, recurTimer).
               bind_run (vec_set (mWheel m) (mCurSlot m) []) (\<lambda>w.
                 bind_run (rearm (m\<lparr>timers := ts, mWheel := w\<rparr>) recurTimer) (\<lambda>m'.
                   if mSlotNum m' = 0 then Inl Div_By_Zero
                   else if INT_MAX \<le> mCurSlot m' then Inl Signed_Overflow
                   else Inr (cbs, m'\<lparr>mCurSlot := (mCurSlot m' + 1) smod mSlotNum m',
                                     mLastExpireTime := now2\<rparr>)))))
      else Inr ([], m))"

section \<open>Well-formedness\<close>

text \<open>
  An interval is a C \<open>int\<close> that is not negative.  The wheel has at most \<open>2 ^ 30\<close> slots, so that
  the sum of two slot numbers is an \<open>int\<close>.
\<close>

abbreviation timing_ok :: "int \<Rightarrow> bool" where
  "timing_ok i \<equiv> 0 \<le> i \<and> i \<le> INT_MAX"

definition slots_disjoint :: "nat list list \<Rightarrow> bool" where
  "slots_disjoint w \<longleftrightarrow>
     (\<forall>i < length w. distinct (w ! i)) \<and>
     (\<forall>i < length w. \<forall>j < length w. i \<noteq> j \<longrightarrow> set (w ! i) \<inter> set (w ! j) = {})"

definition wheel_wf :: "'cb timer_mgr \<Rightarrow> bool" where
  "wheel_wf m \<longleftrightarrow>
     0 < mSlotNum m \<and> mSlotNum m \<le> 2 ^ 30 \<and> 0 < mTickTime m \<and> length (mWheel m) = nat (mSlotNum m) \<and>
     0 \<le> mCurSlot m \<and> mCurSlot m < mSlotNum m \<and>
     (\<forall>l \<in> set (mWheel m). \<forall>t \<in> set l. t < length (timers m)) \<and>
     (\<forall>tm \<in> set (timers m). timing_ok (intervalTime tm) \<and> 0 \<le> round_no tm \<and>
                             0 \<le> slot tm \<and> slot tm < mSlotNum m) \<and>
     slots_disjoint (mWheel m)"

lemma slots_disjoint_same:
  "slots_disjoint w \<Longrightarrow> i < length w \<Longrightarrow> j < length w \<Longrightarrow> t \<in> set (w ! i) \<Longrightarrow> t \<in> set (w ! j) \<Longrightarrow> i = j"
  by (auto simp: slots_disjoint_def)

lemma slots_disjoint_shrink:
  assumes "slots_disjoint w"
  shows "slots_disjoint (w[s := filter P (w ! s)])"
proof -
  have "set (w[s := filter P (w ! s)] ! i) \<subseteq> set (w ! i)" if "i < length w" for i
    using that by (cases "i = s") auto
  moreover have "distinct (w[s := filter P (w ! s)] ! i)" if "i < length w" for i
    using that assms by (cases "i = s") (auto simp: slots_disjoint_def)
  ultimately show ?thesis using assms unfolding slots_disjoint_def length_list_update by blast
qed

lemma slot_known:
  "wheel_wf m \<Longrightarrow> i < length (mWheel m) \<Longrightarrow> u \<in> set (mWheel m ! i) \<Longrightarrow> u < length (timers m)"
  by (auto simp: wheel_wf_def dest: nth_mem)

lemma slot_index:
  "wheel_wf m \<Longrightarrow> t < length (timers m) \<Longrightarrow> nat (slot (timers m ! t)) < length (mWheel m)"
  by (auto simp: wheel_wf_def dest!: nth_mem)

text \<open>The slot a timer of the given interval is put into.\<close>

definition home :: "'cb timer_mgr \<Rightarrow> int \<Rightarrow> int" where
  "home m timing = (mCurSlot m + (timing div mTickTime m) mod mSlotNum m) mod mSlotNum m"

lemma home_range: "wheel_wf m \<Longrightarrow> 0 \<le> home m timing \<and> home m timing < mSlotNum m"
  by (simp add: wheel_wf_def home_def)

lemma home_index: "wheel_wf m \<Longrightarrow> nat (home m timing) < length (mWheel m)"
  using home_range [of m timing] by (auto simp: wheel_wf_def)

lemma place_result:
  assumes "0 < mSlotNum m" "mSlotNum m \<le> 2 ^ 30" "0 < mTickTime m" "0 \<le> mCurSlot m" "mCurSlot m < mSlotNum m"
    and "timing_ok timing"
  shows "place m timing = Inr (timing div mTickTime m div mSlotNum m, home m timing)"
proof -
  let ?k = "timing div mTickTime m"
  have k: "0 \<le> ?k" "?k \<le> timing"
    using assms by (simp_all add: pos_imp_zdiv_nonneg_iff zdiv_le_self)
  have r: "0 \<le> ?k div mSlotNum m" "?k div mSlotNum m \<le> ?k"
    using k assms by (simp_all add: pos_imp_zdiv_nonneg_iff zdiv_le_self)
  have n: "mSlotNum m \<le> 1073741824" using assms(2) by simp
  have s: "0 \<le> ?k mod mSlotNum m" "?k mod mSlotNum m < mSlotNum m" using assms by simp_all
  have "in_int_range (mCurSlot m + ?k mod mSlotNum m)"
    using s assms(4,5) n unfolding in_int_range_iff by linarith
  moreover have "in_int_range ?k" "in_int_range (?k div mSlotNum m)"
    using k r assms(6) by (simp_all add: in_int_range_def INT_MIN_def)
  ultimately show ?thesis
    using k s assms by (simp add: place_def home_def Let_def)
qed

lemma place_wf:
  assumes "wheel_wf m" and "timing_ok timing"
  shows "place m timing = Inr (timing div mTickTime m div mSlotNum m, home m timing)"
  using assms by (intro place_result) (simp_all add: wheel_wf_def)

text \<open>The fields \<open>tick\<close> never changes in a timer object.\<close>

abbreviation strip :: "'cb timer \<Rightarrow> 'cb timer" where
  "strip tm \<equiv> tm\<lparr>round_no := 0\<rparr>"

lemma strip_fields:
  assumes "map strip ts' = map strip ts" and "t < length ts"
  shows "callback (ts' ! t) = callback (ts ! t)" "recurring (ts' ! t) = recurring (ts ! t)"
    "slot (ts' ! t) = slot (ts ! t)" "intervalTime (ts' ! t) = intervalTime (ts ! t)"
proof -
  have "length ts' = length ts" using assms(1) map_eq_imp_length_eq by blast
  then have "strip (ts' ! t) = strip (ts ! t)" using assms by (metis nth_map)
  then show "callback (ts' ! t) = callback (ts ! t)" "recurring (ts' ! t) = recurring (ts ! t)"
    "slot (ts' ! t) = slot (ts ! t)" "intervalTime (ts' ! t) = intervalTime (ts ! t)"
    by (metis timer.select_convs timer.surjective timer.update_convs(2))+
qed

lemma strip_update: "t < length ts \<Longrightarrow> map strip (ts[t := (ts ! t)\<lparr>round_no := r\<rparr>]) = map strip ts"
  by (simp add: map_update list_update_same_conv)

section \<open>The two loops of a tick\<close>

lemma drain_slot_result:
  assumes "\<forall>t \<in> set l. t < length ts" and "\<forall>tm \<in> set ts. 0 \<le> round_no tm"
  shows "\<exists>ts'. drain_slot ts l cbs rec =
               Inr (ts', cbs @ map (\<lambda>t. callback (ts ! t)) l, rec @ filter (\<lambda>t. recurring (ts ! t)) l)
             \<and> map strip ts' = map strip ts \<and> (\<forall>tm \<in> set ts'. 0 \<le> round_no tm)"
  using assms
proof (induction ts l cbs rec rule: drain_slot.induct)
  case (1 ts cbs rec)
  then show ?case by simp
next
  case (2 ts t l cbs rec)
  let ?tm = "ts ! t"
  let ?ts = "ts[t := ?tm\<lparr>round_no := round_no ?tm - 1\<rparr>]"
  have t: "t < length ts" using "2.prems" by simp
  then have r: "0 \<le> round_no ?tm" using "2.prems" by simp
  show ?case
  proof (cases "round_no ?tm = 0")
    case True
    then show ?thesis using "2.IH"(2)[OF _ refl] t "2.prems" by auto
  next
    case False
    have pos: "\<forall>tm \<in> set ?ts. 0 \<le> round_no tm"
      using "2.prems"(2) False r by (auto dest!: set_update_subset_insert [THEN subsetD])
    have s: "map strip ?ts = map strip ts" using t by (rule strip_update)
    have f: "callback (?ts ! u) = callback (ts ! u)" "recurring (?ts ! u) = recurring (ts ! u)" 
      if "u \<in> set (t # l)" for u
      using strip_fields [OF s] that "2.prems"(1) by auto
    have "\<not> round_no ?tm \<le> INT_MIN" using r by (simp add: INT_MIN_def)
    then show ?thesis
      using "2.IH"(1)[OF _ refl False] t "2.prems"(1) pos s f False
      by (auto cong: map_cong filter_cong)
  qed
qed

text \<open>What \<open>rearm\<close> leaves alone, and where it puts the timers.\<close>

definition same_clock :: "'cb timer_mgr \<Rightarrow> 'cb timer_mgr \<Rightarrow> bool" where
  "same_clock m' m \<longleftrightarrow> mSlotNum m' = mSlotNum m \<and> mTickTime m' = mTickTime m \<and>
     mCurSlot m' = mCurSlot m \<and> mLastExpireTime m' = mLastExpireTime m"

definition rearmable :: "'cb timer_mgr \<Rightarrow> bool" where
  "rearmable m \<longleftrightarrow>
     0 < mSlotNum m \<and> mSlotNum m \<le> 2 ^ 30 \<and> 0 < mTickTime m \<and> length (mWheel m) = nat (mSlotNum m) \<and>
     0 \<le> mCurSlot m \<and> mCurSlot m < mSlotNum m \<and>
     (\<forall>tm \<in> set (timers m). timing_ok (intervalTime tm) \<and> 0 \<le> round_no tm)"

lemma rearm_result:
  assumes "rearmable m" and "\<forall>t \<in> set rs. t < length (timers m)"
  shows "\<exists>m'. rearm m rs = Inr m' \<and> same_clock m' m \<and>
           map strip (timers m') = map strip (timers m) \<and>
           (\<forall>tm \<in> set (timers m'). 0 \<le> round_no tm) \<and>
           length (mWheel m') = length (mWheel m) \<and>
           (\<forall>i < length (mWheel m). mWheel m' ! i =
              mWheel m ! i @ filter (\<lambda>t. nat (home m (intervalTime (timers m ! t))) = i) rs)"
  using assms
proof (induction rs arbitrary: m)
  case Nil
  then show ?case by (simp add: same_clock_def rearmable_def)
next
  case (Cons t rs)
  let ?tm = "timers m ! t"
  let ?h = "home m (intervalTime ?tm)"
  let ?r = "intervalTime ?tm div mTickTime m div mSlotNum m"
  let ?m = "m\<lparr>timers := (timers m)[t := ?tm\<lparr>round_no := ?r\<rparr>],
              mWheel := (mWheel m)[nat ?h := mWheel m ! nat ?h @ [t]]\<rparr>"
  have t: "t < length (timers m)" using Cons.prems by simp
  then have iv: "timing_ok (intervalTime ?tm)" using Cons.prems by (simp add: rearmable_def)
  then have r: "0 \<le> ?r" using Cons.prems(1)
    by (simp add: rearmable_def pos_imp_zdiv_nonneg_iff)
  have h: "0 \<le> ?h" "nat ?h < length (mWheel m)"
    using Cons.prems(1) by (auto simp: rearmable_def home_def)
  have pl: "place m (intervalTime ?tm) = Inr (?r, ?h)"
    using Cons.prems(1) iv by (intro place_result) (simp_all add: rearmable_def)
  have step: "rearm m (t # rs) = rearm ?m rs"
    using t pl h by (simp add: push_slot_def)
  have s: "map strip (timers ?m) = map strip (timers m)" using strip_update [OF t] by simp
  have re: "rearmable ?m"
    using Cons.prems(1) r iv by (auto simp: rearmable_def dest!: set_update_subset_insert [THEN subsetD])
  have len: "\<forall>t \<in> set rs. t < length (timers ?m)" using Cons.prems(2) by simp
  have hm: "home ?m (intervalTime (timers ?m ! u)) = home m (intervalTime (timers m ! u))"
    if "u \<in> set rs" for u
    using strip_fields(4) [OF s] that Cons.prems(2) by (simp add: home_def)
  show ?case
    using Cons.IH [OF re len] s step hm h
    by (auto simp: same_clock_def nth_list_update cong: filter_cong)
qed


section \<open>One effective tick\<close>

definition due :: "'cb timer_mgr \<Rightarrow> nat list" where
  "due m = mWheel m ! nat (mCurSlot m)"

definition returning :: "'cb timer_mgr \<Rightarrow> nat \<Rightarrow> nat list" where
  "returning m i = filter (\<lambda>t. recurring (timers m ! t) \<and> nat (home m (intervalTime (timers m ! t))) = i) (due m)"

lemma due_known: "wheel_wf m \<Longrightarrow> t \<in> set (due m) \<Longrightarrow> t < length (timers m)"
  using slot_known [of m "nat (mCurSlot m)" t] by (auto simp: wheel_wf_def due_def)

lemma tick_result:
  assumes wf: "wheel_wf m" and go: "ticking m now1"
  shows "\<exists>m'. tick m now1 now2 = Inr (map (\<lambda>t. callback (timers m ! t)) (due m), m') \<and>
      mSlotNum m' = mSlotNum m \<and> mTickTime m' = mTickTime m \<and>
      mCurSlot m' = (mCurSlot m + 1) mod mSlotNum m \<and> mLastExpireTime m' = now2 \<and>
      map strip (timers m') = map strip (timers m) \<and> (\<forall>tm \<in> set (timers m'). 0 \<le> round_no tm) \<and>
      length (mWheel m') = length (mWheel m) \<and>
      (\<forall>i < length (mWheel m). mWheel m' ! i =
         (if i = nat (mCurSlot m) then [] else mWheel m ! i) @ returning m i)"
proof -
  have cur: "0 \<le> mCurSlot m" "nat (mCurSlot m) < length (mWheel m)"
    using wf by (auto simp: wheel_wf_def)
  have known: "\<forall>t \<in> set (due m). t < length (timers m)" using wf due_known by blast
  have rounds: "\<forall>tm \<in> set (timers m). 0 \<le> round_no tm" using wf by (simp add: wheel_wf_def)
  obtain ts where drain: "drain_slot (timers m) (due m) [] [] =
        Inr (ts, map (\<lambda>t. callback (timers m ! t)) (due m), filter (\<lambda>t. recurring (timers m ! t)) (due m))"
      and ts: "map strip ts = map strip (timers m)" "\<forall>tm \<in> set ts. 0 \<le> round_no tm"
    using drain_slot_result [OF known rounds, of "[]" "[]"] by auto
  let ?m = "m\<lparr>timers := ts, mWheel := (mWheel m)[nat (mCurSlot m) := []]\<rparr>"
  let ?rs = "filter (\<lambda>t. recurring (timers m ! t)) (due m)"
  have len: "length ts = length (timers m)" using ts(1) map_eq_imp_length_eq by blast
  have iv: "timing_ok (intervalTime tm)" if "tm \<in> set ts" for tm
  proof -
    from that obtain k where k: "k < length ts" "tm = ts ! k" by (auto simp: in_set_conv_nth)
    then show ?thesis using strip_fields(4) [OF ts(1)] wf len by (auto simp: wheel_wf_def)
  qed
  have "rearmable ?m" using wf ts(2) iv by (simp add: rearmable_def wheel_wf_def)
  moreover have "\<forall>t \<in> set ?rs. t < length (timers ?m)" using known len by simp
  ultimately obtain m' where re: "rearm ?m ?rs = Inr m'" "same_clock m' ?m"
      "map strip (timers m') = map strip ts" "\<forall>tm \<in> set (timers m'). 0 \<le> round_no tm"
      "length (mWheel m') = length (mWheel m)"
      "\<forall>i < length (mWheel m). mWheel m' ! i = mWheel ?m ! i @
          filter (\<lambda>t. nat (home ?m (intervalTime (timers ?m ! t))) = i) ?rs"
    using rearm_result [of ?m ?rs] by auto
  have home: "nat (home ?m (intervalTime (timers ?m ! t))) = nat (home m (intervalTime (timers m ! t)))"
    if "t \<in> set (due m)" for t
    using strip_fields(4) [OF ts(1)] that known by (simp add: home_def)
  have ret: "filter (\<lambda>t. nat (home ?m (intervalTime (timers ?m ! t))) = i) ?rs = returning m i" for i
    using home by (auto simp: returning_def filter_filter conj_commute intro!: filter_cong)
  have pos: "0 < mSlotNum m" "0 \<le> mCurSlot m + 1" "\<not> INT_MAX \<le> mCurSlot m"
    using wf by (auto simp: wheel_wf_def INT_MAX_def)
  have "tick m now1 now2 = Inr (map (\<lambda>t. callback (timers m ! t)) (due m),
          m'\<lparr>mCurSlot := (mCurSlot m + 1) mod mSlotNum m, mLastExpireTime := now2\<rparr>)"
    using go cur drain re(1,2) pos by (simp add: tick_def due_def [symmetric] same_clock_def)
  then show ?thesis
    using re ts(1) ret cur 
    by (intro exI [where x = "m'\<lparr>mCurSlot := (mCurSlot m + 1) mod mSlotNum m, mLastExpireTime := now2\<rparr>"])
       (auto simp: same_clock_def nth_list_update)
qed

lemma returning_due: "set (returning m i) \<subseteq> set (due m)"
  by (auto simp: returning_def)

lemma slots_disjoint_move:
  assumes dis: "slots_disjoint w" and c: "c < length w" and len: "length w' = length w"
    and sub: "\<And>i. set (r i) \<subseteq> set (w ! c)" and d: "\<And>i. distinct (r i)"
    and sep: "\<And>i j. i \<noteq> j \<Longrightarrow> set (r i) \<inter> set (r j) = {}"
    and w': "\<forall>i < length w. w' ! i = (if i = c then [] else w ! i) @ r i"
  shows "slots_disjoint w'"
proof -
  have c_apart: "set (w ! i) \<inter> set (w ! c) = {}" if "i < length w" "i \<noteq> c" for i
    using dis c that by (auto simp: slots_disjoint_def)
  have "distinct (w' ! i)" if "i < length w" for i
    using that dis d sub c_apart w' by (fastforce simp: slots_disjoint_def)
  moreover have "set (w' ! i) \<inter> set (w' ! j) = {}" if "i < length w" "j < length w" "i \<noteq> j" for i j
  proof -
    have ij: "set (w ! i) \<inter> set (w ! j) = {}" using dis that by (simp add: slots_disjoint_def)
    have "set (r i) \<inter> set (r j) = {}" using sep that by blast
    moreover have "i \<noteq> c \<Longrightarrow> set (w ! i) \<inter> set (r j) = {}" using c_apart that sub by blast
    moreover have "j \<noteq> c \<Longrightarrow> set (r i) \<inter> set (w ! j) = {}" using c_apart that sub by blast
    ultimately show ?thesis using ij w' that by auto
  qed
  ultimately show ?thesis using len by (simp add: slots_disjoint_def)
qed

lemma tick_wf:
  assumes wf: "wheel_wf m" and t: "tick m now1 now2 = Inr (cbs, m')"
  shows "wheel_wf m'"
proof (cases "ticking m now1")
  case False
  then show ?thesis using assms by (simp add: tick_def)
next
  case True
  note r = tick_result [OF wf True, of now2, unfolded t, simplified]
  have len: "length (timers m') = length (timers m)" using r map_eq_imp_length_eq by blast
  have cur: "nat (mCurSlot m) < length (mWheel m)" using wf by (auto simp: wheel_wf_def)
  have dis: "slots_disjoint (mWheel m')"
  proof (rule slots_disjoint_move [where r = "returning m" and c = "nat (mCurSlot m)"])
    show "slots_disjoint (mWheel m)" using wf by (simp add: wheel_wf_def)
    show "distinct (returning m i)" for i
      using wf cur by (simp add: wheel_wf_def slots_disjoint_def returning_def due_def)
    show "set (returning m i) \<inter> set (returning m j) = {}" if "i \<noteq> j" for i j
      using that by (auto simp: returning_def)
  qed (use r cur returning_due in \<open>auto simp: due_def\<close>)
  have known: "t < length (timers m')" if "l \<in> set (mWheel m')" "t \<in> set l" for l t
  proof -
    from that(1) obtain i where i: "i < length (mWheel m)" "l = mWheel m' ! i"
      using r by (auto simp: in_set_conv_nth)
    then show ?thesis
      using that(2) r due_known [OF wf] returning_due [of m i] wf len
      by (auto simp: wheel_wf_def split: if_splits)
  qed
  have fields: "timing_ok (intervalTime tm) \<and> 0 \<le> slot tm \<and> slot tm < mSlotNum m" if "tm \<in> set (timers m')" for tm
  proof -
    from that obtain k where k: "k < length (timers m)" "tm = timers m' ! k"
      using len by (auto simp: in_set_conv_nth)
    have "map strip (timers m') = map strip (timers m)" using r by blast
    from strip_fields [OF this k(1)] show ?thesis using wf k by (simp add: wheel_wf_def)
  qed
  show ?thesis
    using r wf dis known fields by (auto simp: wheel_wf_def)
qed


section \<open>Timers as countdowns\<close>

text \<open>\<open>pending m t d\<close>: timer \<open>t\<close> hangs in the slot the hand reaches after \<open>d\<close> more ticks.\<close>

definition pending :: "'cb timer_mgr \<Rightarrow> nat \<Rightarrow> int \<Rightarrow> bool" where
  "pending m t d \<longleftrightarrow> 0 \<le> d \<and> d < mSlotNum m \<and>
     t \<in> set (mWheel m ! nat ((mCurSlot m + d) mod mSlotNum m))"

definition cb_of :: "'cb timer_mgr \<Rightarrow> nat \<Rightarrow> 'cb" where
  "cb_of m t = callback (timers m ! t)"

lemma hand_index: "wheel_wf m \<Longrightarrow> nat ((mCurSlot m + d) mod mSlotNum m) < length (mWheel m)"
  by (auto simp: wheel_wf_def)

lemma pending_0: "wheel_wf m \<Longrightarrow> pending m t 0 \<longleftrightarrow> t \<in> set (due m)"
  by (simp add: pending_def due_def wheel_wf_def)

lemma pending_known: "wheel_wf m \<Longrightarrow> pending m t d \<Longrightarrow> t < length (timers m)"
  using hand_index [of m d] by (auto simp: pending_def wheel_wf_def intro: nth_mem)

lemma mod_shift_inj:
  fixes a b c n :: int
  assumes "(c + a) mod n = (c + b) mod n" and "0 \<le> a" "a < n" "0 \<le> b" "b < n"
  shows "a = b"
proof -
  have "(c + a - c) mod n = (c + b - c) mod n" using assms(1) by (metis mod_diff_left_eq)
  then show ?thesis using assms by simp
qed

lemma pending_at:
  assumes wf: "wheel_wf m" and i: "0 \<le> s" "s < mSlotNum m" and d: "0 \<le> d" "d < mSlotNum m"
    and t: "t \<in> set (mWheel m ! nat s)"
  shows "pending m t d \<longleftrightarrow> d = (s - mCurSlot m) mod mSlotNum m"
proof -
  let ?n = "mSlotNum m"
  let ?e = "(s - mCurSlot m) mod ?n"
  have e: "0 \<le> ?e" "?e < ?n" "(mCurSlot m + ?e) mod ?n = s"
    using wf i by (auto simp: wheel_wf_def mod_add_right_eq)
  show ?thesis
  proof
    assume "pending m t d"
    then have td: "t \<in> set (mWheel m ! nat ((mCurSlot m + d) mod ?n))" by (simp add: pending_def)
    have "nat s < length (mWheel m)" using wf i by (simp add: wheel_wf_def)
    then have "nat ((mCurSlot m + d) mod ?n) = nat s"
      using td t wf hand_index [OF wf, of d] slots_disjoint_same by (auto simp: wheel_wf_def)
    then have "(mCurSlot m + d) mod ?n = s" using i wf by (simp add: wheel_wf_def eq_nat_nat_iff)
    then show "d = ?e" using mod_shift_inj [of "mCurSlot m" d ?n ?e] e d by simp
  next
    assume "d = ?e"
    then show "pending m t d" using e t by (simp add: pending_def)
  qed
qed

lemma pending_slot:
  assumes "wheel_wf m" and "pending m t d"
  obtains s where "0 \<le> s" "s < mSlotNum m" "t \<in> set (mWheel m ! nat s)" "0 \<le> d" "d < mSlotNum m"
    "s = (mCurSlot m + d) mod mSlotNum m"
  using assms by (auto simp: pending_def wheel_wf_def)

lemma pending_unique:
  assumes "wheel_wf m" and "pending m t d" and "pending m t d'"
  shows "d = d'"
proof -
  obtain s where "0 \<le> s" "s < mSlotNum m" "t \<in> set (mWheel m ! nat s)" "0 \<le> d" "d < mSlotNum m"
    using assms(1,2) by (rule pending_slot)
  then show ?thesis using pending_at [OF assms(1)] assms(2,3) by (metis pending_def)
qed

text \<open>One effective tick on the countdowns: the exact specification.\<close>

lemma tick_pending:
  assumes wf: "wheel_wf m" and go: "ticking m now1" and t: "tick m now1 now2 = Inr (cbs, m')"
  shows "pending m' t d \<longleftrightarrow>
     0 \<le> d \<and> d < mSlotNum m \<and>
     ((d + 1 < mSlotNum m \<and> pending m t (d + 1)) \<or>
      (pending m t 0 \<and> recurring (timers m ! t) \<and>
       d = (intervalTime (timers m ! t) div mTickTime m - 1) mod mSlotNum m))"
proof (cases "0 \<le> d \<and> d < mSlotNum m")
  case False
  then show ?thesis using tick_result [OF wf go, of now2, unfolded t] by (auto simp: pending_def)
next
  case d: True
  let ?n = "mSlotNum m" and ?c = "mCurSlot m"
  let ?s = "(?c + 1 + d) mod ?n"
  let ?k = "intervalTime (timers m ! t) div mTickTime m"
  note r = tick_result [OF wf go, of now2, unfolded t, simplified]
  have c: "0 \<le> ?c" "?c < ?n" "0 < ?n" using wf by (auto simp: wheel_wf_def)
  have hand: "(mCurSlot m' + d) mod mSlotNum m' = ?s" using r by (simp add: mod_add_left_eq)
  have s: "0 \<le> ?s" "?s < ?n" using c by auto
  have si: "nat ?s < length (mWheel m)" using s wf by (simp add: wheel_wf_def)
  have cur: "nat ?s = nat ?c \<longleftrightarrow> d + 1 = ?n"
  proof -
    have "nat ?s = nat ?c \<longleftrightarrow> (?c + 1 + d) mod ?n = ?c mod ?n"
      using s c by (auto simp: eq_nat_nat_iff)
    also have "\<dots> \<longleftrightarrow> ?n dvd 1 + d" by (simp add: mod_eq_dvd_iff)
    also have "\<dots> \<longleftrightarrow> d + 1 = ?n" using d zdvd_imp_le [of ?n "1 + d"] by (auto simp: add.commute [of 1 d])
    finally show ?thesis .
  qed
  have rehome: "nat (home m (intervalTime (timers m ! t))) = nat ?s \<longleftrightarrow> d = (?k - 1) mod ?n"
  proof -
    have "nat (home m (intervalTime (timers m ! t))) = nat ?s \<longleftrightarrow> (?c + ?k) mod ?n = ?s"
      using s c by (simp add: home_def mod_add_right_eq eq_nat_nat_iff)
    also have "\<dots> \<longleftrightarrow> (?k - 1) mod ?n = d mod ?n" by (simp add: mod_eq_dvd_iff algebra_simps)
    finally show ?thesis using d by auto
  qed
  have "pending m' t d \<longleftrightarrow> t \<in> set (mWheel m' ! nat ?s)"
    using d r hand by (simp add: pending_def)
  also have "\<dots> \<longleftrightarrow> (nat ?s \<noteq> nat ?c \<and> t \<in> set (mWheel m ! nat ?s)) \<or> t \<in> set (returning m (nat ?s))"
    using r si by auto
  also have "t \<in> set (returning m (nat ?s)) \<longleftrightarrow>
      pending m t 0 \<and> recurring (timers m ! t) \<and> d = (?k - 1) mod ?n"
    using rehome pending_0 [OF wf] by (auto simp: returning_def)
  also have "nat ?s \<noteq> nat ?c \<and> t \<in> set (mWheel m ! nat ?s) \<longleftrightarrow> d + 1 < ?n \<and> pending m t (d + 1)"
    using cur d by (auto simp: pending_def ac_simps)
  finally show ?thesis using d by blast
qed


text \<open>The same tick on the callbacks it hands over.\<close>

lemma tick_total: "wheel_wf m \<Longrightarrow> \<exists>cbs m'. tick m now1 now2 = Inr (cbs, m')"
  using tick_result [of m now1 now2] by (cases "ticking m now1") (auto simp: tick_def)

lemma tick_idle: "\<not> ticking m now1 \<Longrightarrow> tick m now1 now2 = Inr ([], m)"
  by (simp add: tick_def)

lemma tick_cbs:
  "wheel_wf m \<Longrightarrow> ticking m now1 \<Longrightarrow> tick m now1 now2 = Inr (cbs, m') \<Longrightarrow>
     cbs = map (cb_of m) (due m)"
  using tick_result [of m now1 now2] by (auto simp: cb_of_def)

lemma tick_timers:
  assumes "wheel_wf m" and "tick m now1 now2 = Inr (cbs, m')"
  shows "map strip (timers m') = map strip (timers m)"
proof (cases "ticking m now1")
  case True
  then show ?thesis using tick_result [OF assms(1) True, of now2] assms(2) by auto
qed (use assms in \<open>simp add: tick_idle\<close>)

lemma tick_no_birth:
  assumes "wheel_wf m" and "tick m now1 now2 = Inr (cbs, m')" and "pending m' t d"
  shows "\<exists>d'. pending m t d'"
proof (cases "ticking m now1")
  case True
  then show ?thesis using tick_pending [OF assms(1) True assms(2)] assms(3) by blast
qed (use assms in \<open>auto simp: tick_idle\<close>)

lemma tick_cb_of:
  assumes "wheel_wf m" and "tick m now1 now2 = Inr (cbs, m')" and "pending m t d"
  shows "cb_of m' t = cb_of m t"
  using strip_fields(1) [OF tick_timers [OF assms(1,2)]] pending_known [OF assms(1,3)]
  by (simp add: cb_of_def)

interpretation wheel: timer_service wheel_wf pending cb_of "\<lambda>m e. ticking m (fst e)" "\<lambda>m e. tick m (fst e) (snd e)"
proof unfold_locales
  show "\<exists>cs m'. tick m (fst e) (snd e) = Inr (cs, m')" if "wheel_wf m" for m :: "'a timer_mgr" and e
    using that by (rule tick_total)
  show "wheel_wf m'" if "wheel_wf m" "tick m (fst e) (snd e) = Inr (cs, m')"
    for m m' :: "'a timer_mgr" and e cs
    using that by (rule tick_wf)
  show "pending m' t (d - 1)"
    if "wheel_wf m" "ticking m (fst e)" "tick m (fst e) (snd e) = Inr (cs, m')" "0 < d" "pending m t d"
    for m m' :: "'a timer_mgr" and e cs d t
    using tick_pending [OF that(1-3), of t "d - 1"] that(4,5) by (auto simp: pending_def)
  show "cb_of m t \<in> set cs"
    if "wheel_wf m" "ticking m (fst e)" "tick m (fst e) (snd e) = Inr (cs, m')" "pending m t 0"
    for m m' :: "'a timer_mgr" and e cs t
    using tick_cbs [OF that(1-3)] that(1,4) pending_0 by auto
  show "\<exists>t. pending m t 0 \<and> cb_of m t = c"
    if "wheel_wf m" "tick m (fst e) (snd e) = Inr (cs, m')" "c \<in> set cs"
    for m m' :: "'a timer_mgr" and e cs c
    using tick_cbs [OF that(1) _ that(2)] that pending_0 [OF that(1)]
    by (cases "ticking m (fst e)") (auto simp: tick_idle)
  show "d = d'" if "wheel_wf m" "pending m t d" "pending m t d'" for m :: "'a timer_mgr" and t d d'
    using that by (rule pending_unique)
  show "\<exists>d'. pending m t d'" if "wheel_wf m" "tick m (fst e) (snd e) = Inr (cs, m')" "pending m' t d"
    for m m' :: "'a timer_mgr" and e cs t d
    using that by (rule tick_no_birth)
  show "cb_of m' t = cb_of m t"
    if "wheel_wf m" "tick m (fst e) (snd e) = Inr (cs, m')" "pending m t d"
    for m m' :: "'a timer_mgr" and e cs t d
    using that by (rule tick_cb_of)
qed

section \<open>Adding and deleting timers\<close>

lemma newTimerManager_wf:
  "0 < slotnum \<Longrightarrow> slotnum \<le> 2 ^ 30 \<Longrightarrow> 0 < ticktime \<Longrightarrow> wheel_wf (newTimerManager slotnum ticktime now)"
  by (auto simp: wheel_wf_def newTimerManager_def slots_disjoint_def)

lemma addTimer_result:
  assumes wf: "wheel_wf m" and tm: "timing_ok timing"
  shows "addTimer m timing cb r = Inr (length (timers m),
     m\<lparr>mWheel := (mWheel m)[nat (home m timing) := mWheel m ! nat (home m timing) @ [length (timers m)]],
       timers := timers m @ [\<lparr>intervalTime = timing, round_no = timing div mTickTime m div mSlotNum m,
                              slot = home m timing, callback = cb, recurring = r\<rparr>]\<rparr>)"
  using place_wf [OF assms] home_range [OF wf] home_index [OF wf]
  by (simp add: addTimer_def push_slot_def Let_def)

lemma addTimer_wf:
  assumes wf: "wheel_wf m" and tm: "timing_ok timing" and a: "addTimer m timing cb r = Inr (t, m')"
  shows "wheel_wf m'"
proof -
  let ?h = "nat (home m timing)"
  have h: "?h < length (mWheel m)" "0 \<le> home m timing" "home m timing < mSlotNum m"
    using home_index [OF wf] home_range [OF wf] by auto
  have fresh: "length (timers m) \<notin> set (mWheel m ! i)" if "i < length (mWheel m)" for i
    using slot_known [OF wf that] by blast
  have dis: "slots_disjoint ((mWheel m)[?h := mWheel m ! ?h @ [length (timers m)]])"
    using wf h fresh by (auto simp: wheel_wf_def slots_disjoint_def nth_list_update)
  have known: "u < Suc (length (timers m))" if "i < length (mWheel m)" "u \<in> set (mWheel m ! i)" for u i
    using slot_known [OF wf that] by simp
  have "\<forall>l \<in> set ((mWheel m)[?h := mWheel m ! ?h @ [length (timers m)]]). \<forall>u \<in> set l. u < Suc (length (timers m))"
    using known h by (auto simp: in_set_conv_nth [of _ "list_update _ _ _"] nth_list_update split: if_splits)
  moreover have "0 \<le> timing div mTickTime m div mSlotNum m"
    using wf tm by (simp add: wheel_wf_def pos_imp_zdiv_nonneg_iff)
  ultimately show ?thesis
    using wf a addTimer_result [OF wf tm, of cb r] dis h tm by (auto simp: wheel_wf_def)
qed

lemma addTimer_pending:
  assumes wf: "wheel_wf m" and tm: "timing_ok timing" and a: "addTimer m timing cb r = Inr (t, m')"
  shows "pending m' u d \<longleftrightarrow> pending m u d \<or> (u = t \<and> d = (timing div mTickTime m) mod mSlotNum m)"
proof -
  let ?n = "mSlotNum m" and ?k = "timing div mTickTime m"
  have n: "0 < ?n" using wf by (simp add: wheel_wf_def)
  note r = addTimer_result [OF wf tm, of cb r, unfolded a]
  have "nat (home m timing) = nat ((mCurSlot m + d) mod ?n) \<longleftrightarrow> d mod ?n = ?k mod ?n"
    using n by (simp add: home_def mod_add_right_eq eq_nat_nat_iff) (auto simp: mod_eq_dvd_iff dvd_diff_commute)
  then show ?thesis
    using r home_index [OF wf, of timing] hand_index [OF wf, of d] n
    by (auto simp: pending_def nth_list_update)
qed


text \<open>
  \<open>delTimer\<close> looks in the slot the timer was created for, so it finds the timer as long as
  the timer still hangs there; a recurring timer that has fired once may not.
\<close>

definition at_home :: "'cb timer_mgr \<Rightarrow> nat \<Rightarrow> bool" where
  "at_home m t \<longleftrightarrow> (\<forall>i < length (mWheel m). t \<in> set (mWheel m ! i) \<longrightarrow> i = nat (slot (timers m ! t)))"

lemma delTimer_result:
  assumes wf: "wheel_wf m" and t: "t < length (timers m)"
  shows "delTimer m t = Inr (m\<lparr>mWheel := (mWheel m)[nat (slot (timers m ! t)) :=
           filter (\<lambda>u. u \<noteq> t) (mWheel m ! nat (slot (timers m ! t)))]\<rparr>)"
proof -
  have "0 \<le> slot (timers m ! t)" "nat (slot (timers m ! t)) < length (mWheel m)"
    using wf t by (auto simp: wheel_wf_def dest!: nth_mem)
  then show ?thesis using t by (simp add: delTimer_def Let_def)
qed

lemma delTimer_wf:
  assumes wf: "wheel_wf m" and d: "delTimer m t = Inr m'"
  shows "wheel_wf m'"
proof -
  have t: "t < length (timers m)" using d by (auto simp: delTimer_def split: if_splits)
  let ?s = "nat (slot (timers m ! t))"
  note s = slot_index [OF wf t]
  have "slots_disjoint ((mWheel m)[?s := filter (\<lambda>u. u \<noteq> t) (mWheel m ! ?s)])"
    using wf by (simp add: wheel_wf_def slots_disjoint_shrink)
  moreover have "\<forall>l \<in> set ((mWheel m)[?s := filter (\<lambda>u. u \<noteq> t) (mWheel m ! ?s)]). \<forall>u \<in> set l. u < length (timers m)"
    using slot_known [OF wf] s
    by (auto simp: in_set_conv_nth [of _ "list_update _ _ _"] nth_list_update split: if_splits)
  ultimately show ?thesis using wf d delTimer_result [OF wf t] by (auto simp: wheel_wf_def)
qed

lemma delTimer_pending:
  assumes wf: "wheel_wf m" and t: "t < length (timers m)" and h: "at_home m t" and d: "delTimer m t = Inr m'"
  shows "pending m' u k \<longleftrightarrow> u \<noteq> t \<and> pending m u k"
proof -
  show ?thesis
    using slot_index [OF wf t] delTimer_result [OF wf t] h d hand_index [OF wf, of k]
    by (auto simp: pending_def at_home_def nth_list_update)
qed

lemma tick_at_home:
  assumes wf: "wheel_wf m" and t: "tick m n1 n2 = Inr (cbs, m')" and u: "u < length (timers m)"
    and once: "\<not> recurring (timers m ! u)" and h: "at_home m u"
  shows "at_home m' u"
proof (cases "ticking m n1")
  case True
  note r = tick_result [OF wf True, of n2, unfolded t, simplified]
  have "map strip (timers m') = map strip (timers m)" using r by blast
  from strip_fields(3) [OF this u] have "slot (timers m' ! u) = slot (timers m ! u)" .
  then show ?thesis using r h once by (auto simp: at_home_def returning_def split: if_splits)
qed (use t h in \<open>simp add: tick_idle\<close>)

lemma addTimer_at_home:
  assumes wf: "wheel_wf m" and tm: "timing_ok timing" and a: "addTimer m timing cb r = Inr (t, m')"
  shows "at_home m' t" and "u < length (timers m) \<Longrightarrow> at_home m u \<Longrightarrow> at_home m' u"
proof -
  note r = addTimer_result [OF wf tm, of cb r, unfolded a]
  have fresh: "length (timers m) \<notin> set (mWheel m ! i)" if "i < length (mWheel m)" for i
    using slot_known [OF wf that] by blast
  note h = home_index [OF wf, of timing]
  show "at_home m' t" using r fresh h by (auto simp: at_home_def nth_list_update nth_append split: if_splits)
  show "at_home m' u" if "u < length (timers m)" "at_home m u"
    using r that h by (auto simp: at_home_def nth_list_update nth_append split: if_splits)
qed

section \<open>Properties\<close>

text \<open>
  C26. A timer added with interval \<open>timing\<close> fires on the effective tick number
  \<open>(timing / mTickTime) mod mSlotNum\<close> after the addition (counting from 0), whatever other
  timers there are, and not on an earlier one.  The number of wheel rounds
  \<open>timing / mTickTime / mSlotNum\<close> plays no part: an interval longer than a turn of the wheel
  fires in the first turn.
\<close>

theorem addTimer_fires:
  assumes "wheel_wf m" and "timing_ok timing" and "addTimer m timing cb r = Inr (t, m1)"
    and "k = nat ((timing div mTickTime m) mod mSlotNum m)" and "k < length clocks"
    and "all_steps (\<lambda>m e. tick m (fst e) (snd e)) (\<lambda>m e. ticking m (fst e)) m1 clocks"
    and "\<forall>tm \<in> set (timers m). callback tm \<noteq> cb"
  shows "\<exists>outs m2. run_with (\<lambda>m e. tick m (fst e) (snd e)) m1 clocks = Inr (outs, m2) \<and>
           cb \<in> set (outs ! k) \<and> (\<forall>j < k. cb \<notin> set (outs ! j))"
proof -
  have wf1: "wheel_wf m1" using assms(1-3) by (rule addTimer_wf)
  have p: "pending m1 t (int k)"
    using addTimer_pending [OF assms(1-3)] assms(1,4) by (simp add: wheel_wf_def)
  note added = addTimer_result [OF assms(1,2), of cb r, unfolded assms(3), simplified]
  have c: "cb_of m1 t = cb" using added by (simp add: cb_of_def)
  have uniq: "u = t" if "pending m1 u d" "cb_of m1 u = cb" for u d
    using added assms(7) pending_known [OF wf1 that(1)] that(2)
    by (auto simp: cb_of_def nth_append less_Suc_eq)
  obtain outs m2 where run: "run_with (\<lambda>m e. tick m (fst e) (snd e)) m1 clocks = Inr (outs, m2)"
    using wheel.run_total [OF wf1] by blast
  have "cb \<in> set (outs ! k)"
    using wheel.fires_at [OF wf1 p assms(5,6) run] c by simp
  moreover have "\<forall>j < k. cb \<notin> set (outs ! j)"
    using wheel.silent_before [OF wf1 p _ _ assms(6) run] assms(5) uniq c by auto
  ultimately show ?thesis using run by blast
qed


theorem addTimer_fires_witness:
  "\<exists>outs m2. run_with (\<lambda>m e. tick m (fst e) (snd e))
      \<lparr>mSlotNum = 4, mTickTime = 10, mCurSlot = 0, mLastExpireTime = 0, mWheel = [[], [], [0], []],
       timers = [\<lparr>intervalTime = 60, round_no = 1, slot = 2, callback = 7, recurring = False\<rparr>]\<rparr>
      [(10, 10), (20, 20), (30, 30)] = Inr (outs, m2) \<and>
     (7 :: nat) \<in> set (outs ! 2) \<and> (\<forall>j < 2. 7 \<notin> set (outs ! j))"
proof (rule addTimer_fires [of "newTimerManager 4 10 0" 60 7 False 0])
  show "wheel_wf (newTimerManager 4 10 0 :: nat timer_mgr)" by (simp add: newTimerManager_wf)
qed code_simp+

text \<open>
  C27. An effective tick hands over exactly the callbacks of the timers due now, in the order
  of their slot, keeps the wheel well formed, and moves every other timer one tick closer;
  a recurring timer that fired is due again after \<open>intervalTime / mTickTime - 1\<close> further
  ticks, modulo the size of the wheel.
\<close>

theorem tick_counts_down:
  assumes "wheel_wf m" and "ticking m now1"
  shows "\<exists>m'. tick m now1 now2 = Inr (map (cb_of m) (due m), m') \<and> wheel_wf m' \<and>
    (\<forall>t d. pending m' t d \<longleftrightarrow>
       0 \<le> d \<and> d < mSlotNum m \<and>
       ((d + 1 < mSlotNum m \<and> pending m t (d + 1)) \<or>
        (pending m t 0 \<and> recurring (timers m ! t) \<and>
         d = (intervalTime (timers m ! t) div mTickTime m - 1) mod mSlotNum m)))"
proof -
  obtain cbs m' where t: "tick m now1 now2 = Inr (cbs, m')" using tick_total [OF assms(1)] by blast
  show ?thesis
    using tick_cbs [OF assms t] tick_wf [OF assms(1) t] tick_pending [OF assms t] t by blast
qed

theorem tick_counts_down_witness:
  "\<exists>m' :: nat timer_mgr. tick (newTimerManager 4 10 0) 10 11 = Inr ([], m') \<and> wheel_wf m' \<and>
     (\<forall>t d. pending m' t d \<longrightarrow> d + 1 < 4)"
proof -
  let ?m = "newTimerManager 4 10 0 :: nat timer_mgr"
  have w: "wheel_wf ?m" "ticking ?m 10" "map (cb_of ?m) (due ?m) = []" "mSlotNum ?m = 4"
    by (simp add: newTimerManager_wf, code_simp+)
  have none: "\<not> pending ?m t 0" for t
    by (simp add: pending_def newTimerManager_def)
  show ?thesis
    using tick_counts_down [OF w(1,2), of 11] by (auto simp: w(3,4) none)
qed

section \<open>Sequences of operations\<close>

datatype 'cb timer_op = Add int 'cb bool | Del nat | Tick u64 u64

fun timer_step :: "'cb timer_mgr \<Rightarrow> 'cb timer_op \<Rightarrow> fault + 'cb list \<times> 'cb timer_mgr" where
  "timer_step m (Add timing cb r) = bind_run (addTimer m timing cb r) (\<lambda>(_, m'). Inr ([], m'))"
| "timer_step m (Del t) = bind_run (delTimer m t) (\<lambda>m'. Inr ([], m'))"
| "timer_step m (Tick now1 now2) = tick m now1 now2"

text \<open>What the callers owe: an interval that is not negative, a pointer \<open>addTimer\<close> returned.\<close>

fun timer_op_ok :: "'cb timer_mgr \<Rightarrow> 'cb timer_op \<Rightarrow> bool" where
  "timer_op_ok m (Add timing cb r) \<longleftrightarrow> timing_ok timing"
| "timer_op_ok m (Del t) \<longleftrightarrow> t < length (timers m)"
| "timer_op_ok m (Tick now1 now2) \<longleftrightarrow> True"

lemma timer_step_total:
  assumes "wheel_wf m" and "timer_op_ok m x"
  shows "\<exists>out m'. timer_step m x = Inr (out, m')"
proof (cases x)
  case (Add timing cb r)
  then show ?thesis using addTimer_result [of m timing cb r] assms by simp
next
  case (Del t)
  then show ?thesis using delTimer_result [of m t] assms by simp
next
  case (Tick n1 n2)
  then show ?thesis using tick_total [of m n1 n2] assms by simp
qed

lemma timer_step_wf:
  "wheel_wf m \<Longrightarrow> timer_op_ok m x \<Longrightarrow> timer_step m x = Inr (out, m') \<Longrightarrow> wheel_wf m'"
  by (cases x) (auto simp: bind_run_Inr_iff dest: addTimer_wf delTimer_wf tick_wf)

text \<open>
  C28. From a new wheel, no sequence of additions (with intervals that are not negative),
  deletions (of timers that were added) and ticks at any clock readings reaches undefined
  behaviour: no index is out of range, no division by zero, no overflow, no null pointer,
  and every loop ends; the wheel stays well formed.
\<close>

theorem timer_ops_safe:
  assumes "0 < slotnum" and "slotnum \<le> 2 ^ 30" and "0 < ticktime"
    and "\<forall>k < length ops. \<forall>outs m'. run_with timer_step (newTimerManager slotnum ticktime now) (take k ops) = Inr (outs, m')
           \<longrightarrow> timer_op_ok m' (ops ! k)"
  shows "\<exists>outs m'. run_with timer_step (newTimerManager slotnum ticktime now) ops = Inr (outs, m') \<and> wheel_wf m'"
proof (rule run_with_safe [where I = wheel_wf and ok = timer_op_ok])
  show "\<exists>out m'. timer_step m e = Inr (out, m') \<and> wheel_wf m'" if "wheel_wf m" "timer_op_ok m e" for m :: "'cb timer_mgr" and e
    using timer_step_total [OF that] timer_step_wf [OF that] by blast
qed (use assms newTimerManager_wf in auto)

theorem timer_ops_safe_witness:
  "\<exists>outs m'. run_with timer_step (newTimerManager 60 200 5) [Add 3000 (1 :: nat) True, Del 0, Tick 300 301] = Inr (outs, m') \<and> wheel_wf m'"
proof (rule timer_ops_safe)
  show "\<forall>k < length [Add 3000 1 True, Del 0, Tick 300 301]. \<forall>outs m'.
      run_with timer_step (newTimerManager 60 200 5) (take k [Add 3000 (1 :: nat) True, Del 0, Tick 300 301]) = Inr (outs, m') \<longrightarrow>
      timer_op_ok m' ([Add 3000 1 True, Del 0, Tick 300 301] ! k)"
    by (auto simp: less_Suc_eq numeral_2_eq_2 numeral_3_eq_3 newTimerManager_def addTimer_def place_def
        push_slot_def Let_def INT_MAX_def)
qed simp_all

lemma run_at_home:
  assumes "wheel_wf m" and "u < length (timers m)" and "\<not> recurring (timers m ! u)" and "at_home m u"
    and "run_with (\<lambda>m e. tick m (fst e) (snd e)) m es = Inr (outs, m')"
  shows "at_home m' u \<and> map strip (timers m') = map strip (timers m)"
  using assms
proof (induction es arbitrary: m outs)
  case Nil
  then show ?case by simp
next
  case (Cons e es)
  obtain cs m1 os where s: "tick m (fst e) (snd e) = Inr (cs, m1)"
      "run_with (\<lambda>m e. tick m (fst e) (snd e)) m1 es = Inr (os, m')"
    using Cons.prems(5) by (rule run_with_ConsE)
  note st = tick_timers [OF Cons.prems(1) s(1)]
  then have "length (timers m1) = length (timers m)" using map_eq_imp_length_eq by blast
  then show ?case
    using Cons.IH [OF tick_wf [OF Cons.prems(1) s(1)] _ _ tick_at_home [OF Cons.prems(1) s(1) Cons.prems(2-4)] s(2)]
      strip_fields(2) [OF st Cons.prems(2)] Cons.prems(2,3) st by simp
qed

text \<open>
  C29. A one-shot timer that is deleted never fires afterwards, whenever it is deleted and
  however the ticks run on.
\<close>

theorem delTimer_cancels:
  assumes wf: "wheel_wf m" and tm: "timing_ok timing" and fresh: "\<forall>tm \<in> set (timers m). callback tm \<noteq> cb"
    and a: "addTimer m timing cb False = Inr (t, m1)"
    and r1: "run_with (\<lambda>m e. tick m (fst e) (snd e)) m1 clocks1 = Inr (outs1, m2)"
    and d: "delTimer m2 t = Inr m3"
    and r2: "run_with (\<lambda>m e. tick m (fst e) (snd e)) m3 clocks2 = Inr (outs2, m4)"
  shows "\<forall>j < length outs2. cb \<notin> set (outs2 ! j)"
proof -
  note added = addTimer_result [OF wf tm, of cb False, unfolded a, simplified]
  have wf1: "wheel_wf m1" using addTimer_wf [OF wf tm a] .
  have wf2: "wheel_wf m2" using wheel.run_inv [OF wf1 r1] .
  have t1: "t < length (timers m1)" "\<not> recurring (timers m1 ! t)" using added by auto
  have h2: "at_home m2 t" "map strip (timers m2) = map strip (timers m1)"
    using run_at_home [OF wf1 t1 addTimer_at_home(1) [OF wf tm a] r1] by auto
  have len: "length (timers m2) = length (timers m1)" using h2(2) map_eq_imp_length_eq by blast
  have t2: "t < length (timers m2)" using t1 len by simp
  have p3: "pending m3 u k \<longleftrightarrow> u \<noteq> t \<and> pending m2 u k" for u k
    using delTimer_pending [OF wf2 t2 h2(1) d] .
  have c3: "cb_of m3 u = cb_of m2 u" for u
    using delTimer_result [OF wf2 t2] d by (auto simp: cb_of_def)
  have "cb_of m3 u \<noteq> cb" if "pending m3 u k" for u k
  proof -
    have u: "u \<noteq> t" "u < length (timers m1)" using that p3 pending_known [OF wf2] len by auto
    then have "u < length (timers m)" using added by auto
    then show ?thesis
      using added fresh c3 strip_fields(1) [OF h2(2) u(2)] by (auto simp: cb_of_def nth_append)
  qed
  then show ?thesis
    using wheel.silent_forever [OF delTimer_wf [OF wf2 d] _ r2] by blast
qed

theorem delTimer_cancels_witness:
  "7 \<notin> set ([[], [], [] :: nat list] ! 1)"
proof (rule delTimer_cancels [rule_format, where j = 1 and m = "newTimerManager 4 10 0 :: nat timer_mgr" and timing = 20 and t = 0
    and ?clocks1.0 = "[(10, 10)]" and ?outs1.0 = "[[]]" and ?clocks2.0 = "[(20, 20), (30, 30), (40, 40)]"])
  show "addTimer (newTimerManager 4 10 0) 20 7 False = Inr (0,
      \<lparr>mSlotNum = 4, mTickTime = 10, mCurSlot = 0, mLastExpireTime = 0, mWheel = [[], [], [0], []],
       timers = [\<lparr>intervalTime = 20, round_no = 0, slot = 2, callback = 7 :: nat, recurring = False\<rparr>]\<rparr>)"
    by code_simp
  show "run_with (\<lambda>m e. tick m (fst e) (snd e))
      \<lparr>mSlotNum = 4, mTickTime = 10, mCurSlot = 0, mLastExpireTime = 0, mWheel = [[], [], [0], []],
       timers = [\<lparr>intervalTime = 20, round_no = 0, slot = 2, callback = 7 :: nat, recurring = False\<rparr>]\<rparr>
      [(10, 10)] = Inr ([[]],
      \<lparr>mSlotNum = 4, mTickTime = 10, mCurSlot = 1, mLastExpireTime = 10, mWheel = [[], [], [0], []],
       timers = [\<lparr>intervalTime = 20, round_no = 0, slot = 2, callback = 7, recurring = False\<rparr>]\<rparr>)"
    by code_simp
  show "delTimer
      \<lparr>mSlotNum = 4, mTickTime = 10, mCurSlot = 1, mLastExpireTime = 10, mWheel = [[], [], [0], []],
       timers = [\<lparr>intervalTime = 20, round_no = 0, slot = 2, callback = 7 :: nat, recurring = False\<rparr>]\<rparr> 0 = Inr
      \<lparr>mSlotNum = 4, mTickTime = 10, mCurSlot = 1, mLastExpireTime = 10, mWheel = [[], [], [], []],
       timers = [\<lparr>intervalTime = 20, round_no = 0, slot = 2, callback = 7, recurring = False\<rparr>]\<rparr>"
    by code_simp
  show "run_with (\<lambda>m e. tick m (fst e) (snd e))
      \<lparr>mSlotNum = 4, mTickTime = 10, mCurSlot = 1, mLastExpireTime = 10, mWheel = [[], [], [], []],
       timers = [\<lparr>intervalTime = 20, round_no = 0, slot = 2, callback = 7 :: nat, recurring = False\<rparr>]\<rparr>
      [(20, 20), (30, 30), (40, 40)] = Inr ([[], [], []],
      \<lparr>mSlotNum = 4, mTickTime = 10, mCurSlot = 0, mLastExpireTime = 40, mWheel = [[], [], [], []],
       timers = [\<lparr>intervalTime = 20, round_no = 0, slot = 2, callback = 7, recurring = False\<rparr>]\<rparr>)"
    by code_simp
qed (simp_all add: newTimerManager_wf INT_MAX_def, simp add: newTimerManager_def)

text \<open>
  C30. A recurring timer whose interval is not a whole number of turns of the wheel cannot be
  deleted once it has fired: \<open>tick\<close> puts it into a new slot without updating its \<open>slot\<close>
  field, \<open>delTimer\<close> searches the old slot, and the timer stays due.
\<close>

theorem delTimer_misses_rearmed:
  assumes wf: "wheel_wf m" and go: "ticking m now1" and p: "pending m t 0" and h: "at_home m t"
    and rec: "recurring (timers m ! t)"
    and k: "(intervalTime (timers m ! t) div mTickTime m) mod mSlotNum m \<noteq> 0"
    and tk: "tick m now1 now2 = Inr (cbs, m1)" and d: "delTimer m1 t = Inr m2"
  shows "pending m2 t ((intervalTime (timers m ! t) div mTickTime m - 1) mod mSlotNum m)"
proof -
  let ?n = "mSlotNum m" and ?k = "intervalTime (timers m ! t) div mTickTime m"
  let ?s = "nat (slot (timers m ! t))"
  note r = tick_result [OF wf go, of now2, unfolded tk, simplified]
  have n: "0 < ?n" "0 \<le> mCurSlot m" "mCurSlot m < ?n" using wf by (auto simp: wheel_wf_def)
  have wf1: "wheel_wf m1" using tick_wf [OF wf tk] .
  have t: "t < length (timers m)" using pending_known [OF wf p] .
  have st: "map strip (timers m1) = map strip (timers m)" using r by blast
  then have t1: "t < length (timers m1)" using t map_eq_imp_length_eq by metis
  have slot1: "slot (timers m1 ! t) = slot (timers m ! t)" using strip_fields(3) [OF st t] .
  have p1: "pending m1 t ((?k - 1) mod ?n)" using tick_pending [OF wf go tk] p rec n by simp
  have cur: "?s = nat (mCurSlot m)"
  proof -
    have "nat (mCurSlot m) < length (mWheel m)" using wf by (simp add: wheel_wf_def)
    then show ?thesis using h p n by (simp add: at_home_def pending_def)
  qed
  have hand: "(mCurSlot m1 + (?k - 1) mod ?n) mod mSlotNum m1 = (mCurSlot m + ?k) mod ?n"
    using r by (simp add: mod_add_eq)
  have "nat ((mCurSlot m + ?k) mod ?n) \<noteq> nat (mCurSlot m)"
  proof
    assume "nat ((mCurSlot m + ?k) mod ?n) = nat (mCurSlot m)"
    then have "(mCurSlot m + ?k) mod ?n = mCurSlot m mod ?n" using n by (simp add: eq_nat_nat_iff)
    then show False using k by (simp add: mod_eq_dvd_iff dvd_eq_mod_eq_0)
  qed
  then show ?thesis
    using p1 delTimer_result [OF wf1 t1] d slot1 cur hand r by (auto simp: pending_def)
qed

theorem delTimer_misses_rearmed_witness:
  "pending \<lparr>mSlotNum = 4, mTickTime = 10, mCurSlot = 2, mLastExpireTime = 20, mWheel = [[], [], [0], []],
            timers = [\<lparr>intervalTime = 10, round_no = 0, slot = 1, callback = (7 :: nat), recurring = True\<rparr>]\<rparr> 0 0"
proof -
  let ?m = "\<lparr>mSlotNum = 4, mTickTime = 10, mCurSlot = 1, mLastExpireTime = 10, mWheel = [[], [0], [], []],
       timers = [\<lparr>intervalTime = 10, round_no = 0, slot = 1, callback = (7 :: nat), recurring = True\<rparr>]\<rparr>"
  have "pending \<lparr>mSlotNum = 4, mTickTime = 10, mCurSlot = 2, mLastExpireTime = 20, mWheel = [[], [], [0], []],
            timers = [\<lparr>intervalTime = 10, round_no = 0, slot = 1, callback = (7 :: nat), recurring = True\<rparr>]\<rparr> 0
     ((intervalTime (timers ?m ! 0) div mTickTime ?m - 1) mod mSlotNum ?m)"
    by (rule delTimer_misses_rearmed [where m = ?m and ?now1.0 = 20 and ?now2.0 = 20 and cbs = "[7]" and
        ?m1.0 = "\<lparr>mSlotNum = 4, mTickTime = 10, mCurSlot = 2, mLastExpireTime = 20, mWheel = [[], [], [0], []],
            timers = [\<lparr>intervalTime = 10, round_no = 0, slot = 1, callback = 7, recurring = True\<rparr>]\<rparr>"]; code_simp)
  then show ?thesis by simp
qed

end
