(* ===== verification/Fd_Manager.thy ===== *)
theory Fd_Manager
  imports Prelude
begin

text \<open>
  The table of descriptor contexts of \<open>src/fd_manager/fd_manager.cpp\<close> and
  \<open>src/fd_manager/fd_manager.h\<close>.

  A \<open>FdCtx::ptr\<close> is an index into the store \<open>ctxs\<close>: the hooks keep such a pointer across a
  yield, while \<open>del\<close> may drop it from the table.  What \<open>fstat\<close> says of a descriptor is the
  argument \<open>kstat\<close> (\<open>None\<close> when the call fails, \<open>Some b\<close> with \<open>b\<close> the result of
  \<open>S_ISSOCK\<close>).  The mutex makes each operation one step.
\<close>

section \<open>State and operations\<close>

record fd_ctx =
  mfd :: int
  mRecvTimeOut :: int
  mSendTimeOut :: int
  isClose :: bool
  isSocket :: bool
  isNonBlock :: bool

definition fdctx_init :: "(int \<Rightarrow> bool option) \<Rightarrow> fd_ctx \<Rightarrow> fd_ctx" where
  "fdctx_init kstat c =
     (let c = (case kstat (mfd c) of None \<Rightarrow> c\<lparr>isSocket := False\<rparr> | Some b \<Rightarrow> c\<lparr>isSocket := b\<rparr>)
      in if isSocket c then c\<lparr>isNonBlock := True\<rparr> else c\<lparr>isNonBlock := False\<rparr>)"

definition newFdCtx :: "(int \<Rightarrow> bool option) \<Rightarrow> int \<Rightarrow> fd_ctx" where
  "newFdCtx kstat fd =
     fdctx_init kstat \<lparr>mfd = fd, mRecvTimeOut = -1, mSendTimeOut = -1,
                       isClose = False, isSocket = False, isNonBlock = False\<rparr>"

text \<open>\<open>int = uint32_t\<close> keeps the bits and reads them as signed.\<close>

definition setTimeOut :: "fd_ctx \<Rightarrow> int \<Rightarrow> u32 \<Rightarrow> fd_ctx" where
  "setTimeOut c type t =
     (if type \<noteq> 0 then c\<lparr>mSendTimeOut := sint t\<rparr> else c\<lparr>mRecvTimeOut := sint t\<rparr>)"

definition getTimeOut :: "fd_ctx \<Rightarrow> int \<Rightarrow> int" where
  "getTimeOut c type = (if type \<noteq> 0 then mSendTimeOut c else mRecvTimeOut c)"

record fd_mgr =
  mCtxs :: "nat option list"
  ctxs :: "fd_ctx list"

definition newFdManager :: fd_mgr where
  "newFdManager = \<lparr>mCtxs = replicate 64 None, ctxs = []\<rparr>"

text \<open>\<open>(int)mCtxs.size()\<close>: negative for a table of \<open>2 ^ 31\<close> entries.\<close>

definition int_size :: "'a list \<Rightarrow> int" where
  "int_size v = int_of_u64 (of_nat (length v))"

definition fd_del :: "fd_mgr \<Rightarrow> int \<Rightarrow> fault + fd_mgr" where
  "fd_del m fd =
     (if int_size (mCtxs m) \<le> fd then Inr m
      else bind_run (vec_set (mCtxs m) fd None) (\<lambda>v. Inr (m\<lparr>mCtxs := v\<rparr>)))"

text \<open>
  \<open>mCtxs.resize(fd * 1.5)\<close>: the product is exact in a \<open>double\<close> and is truncated.  It is not always
  an enlargement: a table whose size has become negative is cut, and a negative product is
  undefined, which the access after it reports.
\<close>

definition fd_create :: "(int \<Rightarrow> bool option) \<Rightarrow> fd_mgr \<Rightarrow> int \<Rightarrow> fault + nat option \<times> fd_mgr" where
  "fd_create kstat m fd =
     (let ctx = length (ctxs m);
          v = (if int_size (mCtxs m) \<le> fd then vec_resize None (mCtxs m) (nat (fd * 3 div 2)) else mCtxs m)
      in bind_run (vec_set v fd (Some ctx)) (\<lambda>v'.
           Inr (Some ctx, m\<lparr>mCtxs := v', ctxs := ctxs m @ [newFdCtx kstat fd]\<rparr>)))"

definition fd_get :: "(int \<Rightarrow> bool option) \<Rightarrow> fd_mgr \<Rightarrow> int \<Rightarrow> bool \<Rightarrow> fault + nat option \<times> fd_mgr" where
  "fd_get kstat m fd auto_create =
     (if fd = -1 then Inr (None, m)
      else if int_size (mCtxs m) \<le> fd
           then (if auto_create = False then Inr (None, m) else fd_create kstat m fd)
           else bind_run (vec_at (mCtxs m) fd) (\<lambda>c.
                  if c \<noteq> None \<or> \<not> auto_create then Inr (c, m) else fd_create kstat m fd))"

section \<open>The table as a map from descriptors to contexts\<close>

definition fd_lookup :: "fd_mgr \<Rightarrow> int \<Rightarrow> nat option" where
  "fd_lookup m fd = (if 0 \<le> fd \<and> fd < int (length (mCtxs m)) then mCtxs m ! nat fd else None)"

definition fdmgr_wf :: "fd_mgr \<Rightarrow> bool" where
  "fdmgr_wf m \<longleftrightarrow> 64 \<le> length (mCtxs m) \<and> length (mCtxs m) < 2 ^ 31 \<and> (\<forall>p. Some p \<in> set (mCtxs m) \<longrightarrow> p < length (ctxs m))"

text \<open>What the hooks rely on.  \<open>look\<close> is the table as a map, \<open>ctx_of\<close> the object behind a pointer.\<close>

locale fd_table =
  fixes fd_limit :: int
    and wf :: "'m \<Rightarrow> bool"
    and look :: "'m \<Rightarrow> int \<Rightarrow> nat option"
    and known :: "'m \<Rightarrow> nat \<Rightarrow> bool"
    and get :: "'m \<Rightarrow> int \<Rightarrow> bool \<Rightarrow> fault + nat option \<times> 'm"
    and del :: "'m \<Rightarrow> int \<Rightarrow> fault + 'm"
  assumes look_known: "wf m \<Longrightarrow> look m fd = Some p \<Longrightarrow> known m p"
    and get_plain: "wf m \<Longrightarrow> -1 \<le> fd \<Longrightarrow> get m fd False = Inr (look m fd, m)"
    and get_auto: "wf m \<Longrightarrow> 0 \<le> fd \<Longrightarrow> fd < fd_limit \<Longrightarrow> \<exists>p m'. get m fd True = Inr (Some p, m') \<and> wf m' \<and>
                     look m' = (look m)(fd \<mapsto> p) \<and> (look m fd = None \<longrightarrow> \<not> known m p) \<and>
                     (\<forall>q. look m fd = Some q \<longrightarrow> q = p) \<and> (\<forall>q. known m q \<longrightarrow> known m' q)"
    and del_look: "wf m \<Longrightarrow> 0 \<le> fd \<Longrightarrow> \<exists>m'. del m fd = Inr m' \<and> wf m' \<and>
                     look m' = (look m)(fd := None) \<and> (\<forall>q. known m q \<longrightarrow> known m' q)"
begin

text \<open>Creating a context twice gives the same one; a plain lookup agrees.\<close>

lemma get_auto_idem:
  assumes "wf m" and "0 \<le> fd" and "fd < fd_limit" and "get m fd True = Inr (r, m1)"
  shows "get m1 fd False = Inr (r, m1)" and "\<exists>m2. get m1 fd True = Inr (r, m2) \<and> look m2 = look m1"
proof -
  obtain p where p: "r = Some p" "wf m1" "look m1 = (look m)(fd \<mapsto> p)"
    using get_auto [OF assms(1-3)] assms(4) by auto
  then show "get m1 fd False = Inr (r, m1)" using get_plain [of m1 fd] assms(2) by simp
  obtain q m2 where q: "get m1 fd True = Inr (Some q, m2)" "look m2 = (look m1)(fd \<mapsto> q)"
      "\<forall>q'. look m1 fd = Some q' \<longrightarrow> q' = q"
    using get_auto [OF p(2) assms(2,3)] by (elim exE conjE) (rule that)
  have "q = p" using q(3) p(3) by simp
  then show "\<exists>m2. get m1 fd True = Inr (r, m2) \<and> look m2 = look m1" using p(1,3) q(1,2) by simp
qed

text \<open>A number that is closed and opened again gets a context of its own, never the old one.\<close>

lemma reopen_fresh:
  assumes "wf m" and "0 \<le> fd" and "fd < fd_limit" and "look m fd = Some old"
    and "del m fd = Inr m1" and "get m1 fd True = Inr (Some p, m2)"
  shows "p \<noteq> old" and "look m2 = (look m)(fd \<mapsto> p)"
proof -
  have m1: "wf m1" "look m1 = (look m)(fd := None)" "known m1 old"
    using del_look [OF assms(1,2)] look_known [OF assms(1,4)] assms(5) by auto
  obtain p' m' where g: "get m1 fd True = Inr (Some p', m')" "look m' = (look m1)(fd \<mapsto> p')"
      "look m1 fd = None \<longrightarrow> \<not> known m1 p'"
    using get_auto [OF m1(1) assms(2,3)] by (elim exE conjE) (rule that)
  have same: "p' = p" "m' = m2" using g(1) assms(6) by auto
  show "p \<noteq> old" using g(3) m1(2,3) same by auto
  show "look m2 = (look m)(fd \<mapsto> p)" using g(2) m1(2) same by simp
qed

end

section \<open>The implementation meets the contract\<close>

text \<open>Below \<open>2 ^ 31\<close> entries the conversion is exact; descriptors below \<open>2 ^ 30\<close> keep the table there.\<close>

lemma int_size_low: "length v < 2 ^ 32 \<Longrightarrow> int_size v = signed_take_bit 31 (int (length v))"
  by (simp add: int_size_def int_of_u64_def unsigned_of_nat take_bit_nat_eq_self signed_of_nat)

lemma int_size_exact [simp]: "length v < 2 ^ 31 \<Longrightarrow> int_size v = int (length v)"
  by (simp add: int_size_low signed_take_bit_int_eq_self)

lemma fdmgr_wf_size [simp]: "fdmgr_wf m \<Longrightarrow> int_size (mCtxs m) = int (length (mCtxs m))"
  by (simp add: fdmgr_wf_def)

lemma newFdManager_wf [wf_intros]: "fdmgr_wf newFdManager"
  by (simp add: fdmgr_wf_def newFdManager_def)

lemma fd_lookup_known: "fdmgr_wf m \<Longrightarrow> fd_lookup m fd = Some p \<Longrightarrow> p < length (ctxs m)"
  by (auto simp: fdmgr_wf_def fd_lookup_def split: if_splits) (metis nat_less_iff nth_mem)

lemma fd_get_plain: "fdmgr_wf m \<Longrightarrow> -1 \<le> fd \<Longrightarrow> fd_get k m fd False = Inr (fd_lookup m fd, m)"
  by (auto simp: fd_get_def fd_lookup_def vec_at_def nat_less_iff)

lemma fd_create_result:
  assumes wf: "fdmgr_wf m" and fd: "0 \<le> fd" and lim: "fd < 2 ^ 30"
  shows "\<exists>m'. fd_create k m fd = Inr (Some (length (ctxs m)), m') \<and> fdmgr_wf m' \<and>
           fd_lookup m' = (fd_lookup m)(fd \<mapsto> length (ctxs m)) \<and>
           ctxs m' = ctxs m @ [newFdCtx k fd]"
proof -
  let ?v = "if int (length (mCtxs m)) \<le> fd then vec_resize None (mCtxs m) (nat (fd * 3 div 2)) else mCtxs m"
  have sz: "64 \<le> length (mCtxs m)" using wf by (simp add: fdmgr_wf_def)
  have ix: "nat fd < length ?v" using sz fd by auto
  have top: "length ?v < 2 ^ 31" using wf lim by (auto simp: fdmgr_wf_def)
  have grow: "length (mCtxs m) \<le> length ?v" using sz by auto
  have at: "?v ! i = (if i < length (mCtxs m) then mCtxs m ! i else None)" if "i < length ?v" for i
    using that by (auto simp: nth_vec_resize)
  have "set ?v \<subseteq> insert None (set (mCtxs m))"
    by (auto simp: vec_resize_def dest: in_set_takeD split: if_splits)
  then have ptr: "\<forall>p. Some p \<in> set (?v[nat fd := Some (length (ctxs m))]) \<longrightarrow> p < Suc (length (ctxs m))"
    using wf by (auto simp: fdmgr_wf_def less_Suc_eq dest!: set_update_subset_insert [THEN subsetD])
  let ?m = "m\<lparr>mCtxs := ?v[nat fd := Some (length (ctxs m))], ctxs := ctxs m @ [newFdCtx k fd]\<rparr>"
  have "fd_create k m fd = Inr (Some (length (ctxs m)), ?m)"
    using ix fd wf by (simp add: fd_create_def Let_def)
  moreover have "fdmgr_wf ?m" using grow sz top ptr by (simp add: fdmgr_wf_def)
  moreover have "fd_lookup ?m i = ((fd_lookup m)(fd \<mapsto> length (ctxs m))) i" for i
    using ix grow at [of "nat i"] fd by (auto simp: fd_lookup_def nth_list_update nat_less_iff eq_nat_nat_iff)
  then have "fd_lookup ?m = (fd_lookup m)(fd \<mapsto> length (ctxs m))" by blast
  ultimately show ?thesis by (intro exI [where x = ?m]) simp
qed

lemma fd_get_auto:
  assumes wf: "fdmgr_wf m" and fd: "0 \<le> fd" and lim: "fd < 2 ^ 30"
  shows "\<exists>p m'. fd_get k m fd True = Inr (Some p, m') \<and> fdmgr_wf m' \<and>
           fd_lookup m' = (fd_lookup m)(fd \<mapsto> p) \<and> (fd_lookup m fd = None \<longrightarrow> \<not> p < length (ctxs m)) \<and>
           (\<forall>q. fd_lookup m fd = Some q \<longrightarrow> q = p) \<and> (\<forall>q. q < length (ctxs m) \<longrightarrow> q < length (ctxs m'))"
proof (cases "fd_lookup m fd")
  case None
  then have "fd_get k m fd True = fd_create k m fd"
    using fd wf by (auto simp: fd_get_def fd_lookup_def vec_at_def nat_less_iff)
  then show ?thesis using fd_create_result [OF wf fd lim, of k] None by auto
next
  case (Some p)
  then have "fd_get k m fd True = Inr (Some p, m)"
    using fd wf by (auto simp: fd_get_def fd_lookup_def vec_at_def nat_less_iff split: if_splits)
  then show ?thesis using wf Some by (auto simp: fun_upd_idem)
qed

lemma fd_del_result:
  assumes wf: "fdmgr_wf m" and fd: "0 \<le> fd"
  shows "\<exists>m'. fd_del m fd = Inr m' \<and> fdmgr_wf m' \<and> fd_lookup m' = (fd_lookup m)(fd := None) \<and> ctxs m' = ctxs m"
proof (cases "int_size (mCtxs m) \<le> fd")
  case True
  then show ?thesis using wf by (auto simp: fd_del_def fd_lookup_def)
next
  case False
  let ?m = "m\<lparr>mCtxs := (mCtxs m)[nat fd := None]\<rparr>"
  have "fd_del m fd = Inr ?m" using False fd wf by (simp add: fd_del_def nat_less_iff)
  moreover have "fdmgr_wf ?m"
    using wf by (auto simp: fdmgr_wf_def dest!: set_update_subset_insert [THEN subsetD])
  moreover have "fd_lookup ?m = (fd_lookup m)(fd := None)"
    using False fd wf by (auto simp: fd_lookup_def nth_list_update eq_nat_nat_iff fun_eq_iff)
  ultimately show ?thesis by auto
qed

interpretation fdm: fd_table "2 ^ 30" fdmgr_wf fd_lookup "\<lambda>m p. p < length (ctxs m)" "fd_get k" fd_del
  for k :: "int \<Rightarrow> bool option"
proof unfold_locales
  show "p < length (ctxs m)" if "fdmgr_wf m" "fd_lookup m fd = Some p" for m fd p
    using that by (rule fd_lookup_known)
  show "fd_get k m fd False = Inr (fd_lookup m fd, m)" if "fdmgr_wf m" "-1 \<le> fd" for m fd
    using that by (rule fd_get_plain)
  show "\<exists>p m'. fd_get k m fd True = Inr (Some p, m') \<and> fdmgr_wf m' \<and>
           fd_lookup m' = (fd_lookup m)(fd \<mapsto> p) \<and> (fd_lookup m fd = None \<longrightarrow> \<not> p < length (ctxs m)) \<and>
           (\<forall>q. fd_lookup m fd = Some q \<longrightarrow> q = p) \<and> (\<forall>q. q < length (ctxs m) \<longrightarrow> q < length (ctxs m'))"
    if "fdmgr_wf m" "0 \<le> fd" "fd < 2 ^ 30" for m fd
    using that by (rule fd_get_auto)
  show "\<exists>m'. fd_del m fd = Inr m' \<and> fdmgr_wf m' \<and> fd_lookup m' = (fd_lookup m)(fd := None) \<and>
           (\<forall>q. q < length (ctxs m) \<longrightarrow> q < length (ctxs m'))"
    if "fdmgr_wf m" "0 \<le> fd" for m fd
    using fd_del_result [OF that] by auto
qed

section \<open>Properties\<close>

text \<open>
  C31. The descriptor table behaves as a map.  From any well-formed table, one whose size fits an
  \<open>int\<close>, and for every descriptor number from 0 up to \<open>2 ^ 30\<close>, which keeps the size so: \<open>get\<close> without creation is the lookup and changes
  nothing; \<open>get\<close> with creation returns the context already there or enters a new one made
  for this descriptor; \<open>del\<close> removes the entry.  No index is ever out of range, also where
  the vector has to grow.
\<close>

theorem fd_table_is_map:
  assumes "fdmgr_wf m" and "0 \<le> fd" and "fd < 2 ^ 30"
  shows "fd_get k m fd False = Inr (fd_lookup m fd, m) \<and>
    (\<exists>p m'. fd_get k m fd True = Inr (Some p, m') \<and> fdmgr_wf m' \<and> fd_lookup m' = (fd_lookup m)(fd \<mapsto> p) \<and>
       (fd_lookup m fd = Some p \<and> m' = m \<or>
        fd_lookup m fd = None \<and> p = length (ctxs m) \<and> ctxs m' = ctxs m @ [newFdCtx k fd])) \<and>
    (\<exists>m'. fd_del m fd = Inr m' \<and> fdmgr_wf m' \<and> fd_lookup m' = (fd_lookup m)(fd := None) \<and> ctxs m' = ctxs m)"
proof (intro conjI)
  show "fd_get k m fd False = Inr (fd_lookup m fd, m)" using assms(1,2) by (simp add: fd_get_plain)
  show "\<exists>m'. fd_del m fd = Inr m' \<and> fdmgr_wf m' \<and> fd_lookup m' = (fd_lookup m)(fd := None) \<and> ctxs m' = ctxs m"
    using assms(1,2) by (rule fd_del_result)
  have "fd_lookup m fd = None \<Longrightarrow> fd_get k m fd True = fd_create k m fd"
    using assms(1,2) by (auto simp: fd_get_def fd_lookup_def vec_at_def nat_less_iff)
  moreover have "fd_lookup m fd = Some p \<Longrightarrow> fd_get k m fd True = Inr (Some p, m)" for p
    using assms(1,2) by (auto simp: fd_get_def fd_lookup_def vec_at_def nat_less_iff split: if_splits)
  ultimately show "\<exists>p m'. fd_get k m fd True = Inr (Some p, m') \<and> fdmgr_wf m' \<and> fd_lookup m' = (fd_lookup m)(fd \<mapsto> p) \<and>
       (fd_lookup m fd = Some p \<and> m' = m \<or>
        fd_lookup m fd = None \<and> p = length (ctxs m) \<and> ctxs m' = ctxs m @ [newFdCtx k fd])"
    using fd_create_result [OF assms, of k] assms(1)
    by (cases "fd_lookup m fd") (auto simp: fun_upd_idem)
qed

theorem fd_table_is_map_witness:
  "\<exists>p m'. fd_get (\<lambda>_. Some True) newFdManager 100 True = Inr (Some p, m') \<and> fdmgr_wf m' \<and> fd_lookup m' 100 = Some p"
  using fd_table_is_map [OF newFdManager_wf, of 100 "\<lambda>_. Some True"] by auto

text \<open>
  A descriptor number that is closed and handed out again by the kernel gets a new
  context: the state of the old connection (its time-outs, its closed flag) is never seen
  through the table by the new one.
\<close>

theorem fd_reopen_fresh:
  assumes "fdmgr_wf m" and "0 \<le> fd" and "fd < 2 ^ 30" and "fd_lookup m fd = Some old"
    and "fd_del m fd = Inr m1" and "fd_get k m1 fd True = Inr (Some p, m2)"
  shows "p \<noteq> old \<and> fd_lookup m2 fd = Some p \<and> ctxs m2 ! p = newFdCtx k fd"
proof -
  have m1: "fdmgr_wf m1" "fd_lookup m1 fd = None"
    using fd_del_result [OF assms(1,2)] assms(5) by auto
  then have "fd_get k m1 fd True = fd_create k m1 fd"
    using assms(1,2) by (auto simp: fd_get_def fd_lookup_def vec_at_def nat_less_iff)
  then have "p = length (ctxs m1)" "ctxs m2 = ctxs m1 @ [newFdCtx k fd]"
    using fd_create_result [OF m1(1) assms(2,3), of k] assms(6) by auto
  then show ?thesis
    using fdm.reopen_fresh [OF assms] by simp
qed

theorem fd_reopen_fresh_witness:
  "(1 :: nat) \<noteq> 0 \<and>
     fd_lookup \<lparr>mCtxs = (replicate 64 None)[3 := Some 1], ctxs = [newFdCtx Map.empty 3, newFdCtx Map.empty 3]\<rparr> 3 = Some 1 \<and>
     ctxs \<lparr>mCtxs = (replicate 64 None)[3 := Some 1], ctxs = [newFdCtx Map.empty 3, newFdCtx Map.empty 3]\<rparr> ! 1
       = newFdCtx Map.empty 3"
proof -
  have cleared: "(replicate 64 (None :: nat option))[3 := None] = replicate 64 None"
    by (rule nth_equalityI) (auto simp: nth_list_update)
  show ?thesis
    by (rule fd_reopen_fresh [where m = "\<lparr>mCtxs = (replicate 64 None)[3 := Some 0], ctxs = [newFdCtx Map.empty 3]\<rparr>" and
          ?m1.0 = "\<lparr>mCtxs = replicate 64 None, ctxs = [newFdCtx Map.empty 3]\<rparr>"])
       (auto simp: fdmgr_wf_def fd_lookup_def fd_del_def fd_get_def fd_create_def cleared
         dest!: set_update_subset_insert [THEN subsetD])
qed

text \<open>
  Without the bound it does not: once a descriptor number has made the table as long as \<open>2 ^ 31\<close>,
  its size reads as negative, no lookup finds anything, and the next context that is created cuts
  the table to one and a half times its number.
\<close>

theorem fd_table_wraps:
  assumes "2 ^ 31 \<le> length (mCtxs m)" and "length (mCtxs m) < 2 ^ 32" and "2 \<le> fd"
  shows "fd_get k m fd False = Inr (None, m) \<and>
    (\<exists>p m'. fd_get k m fd True = Inr (Some p, m') \<and> length (mCtxs m') = nat (fd * 3 div 2))"
proof -
  have "int_size (mCtxs m) = signed_take_bit 31 (int (length (mCtxs m)))" using int_size_low assms(2) by blast
  also have "\<dots> = int (length (mCtxs m)) - 2 ^ 32" 
    using assms(1,2) mod_pos_pos_trivial [of "int (length (mCtxs m)) - 2147483648" 4294967296]
      mod_add_self2 [of "int (length (mCtxs m)) - 2147483648" 4294967296]
    by (simp add: signed_take_bit_eq_take_bit_shift take_bit_eq_mod add.commute)
  also have "\<dots> < 0" using assms(2) by simp
  finally have "int_size (mCtxs m) \<le> fd" using assms(3) by simp
  moreover have "fd < fd * 3 div 2" using assms(3) by presburger
  then have "nat fd < nat (fd * 3 div 2)" using assms(3) by simp
  ultimately show ?thesis using assms(3) by (auto simp: fd_get_def fd_create_def Let_def)
qed

end
