(* ===== verification/Http_Define.thy ===== *)
theory Http_Define
  imports Prelude
begin

text \<open>
  The X-macro tables of \<open>src/http/http_define.h\<close>: the request methods and the status codes,
  each entry with its number, its C++ name and its text.  The enumerations \<open>http_method\<close>,
  \<open>HttpMethod\<close>, \<open>http_status\<close> and \<open>HttpStatus\<close> are generated from them; the code casts freely
  between these and integers, so a method is its number (\<open>nat\<close>) and a status is an \<open>int\<close>.
\<close>

definition HTTP_METHOD_MAP :: "(nat \<times> string \<times> string) list" where
  "HTTP_METHOD_MAP =
    [(0, ''DELETE'', ''DELETE''),
     (1, ''GET'', ''GET''),
     (2, ''HEAD'', ''HEAD''),
     (3, ''POST'', ''POST''),
     (4, ''PUT'', ''PUT''),
     (5, ''CONNECT'', ''CONNECT''),
     (6, ''OPTIONS'', ''OPTIONS''),
     (7, ''TRACE'', ''TRACE''),
     (8, ''COPY'', ''COPY''),
     (9, ''LOCK'', ''LOCK''),
     (10, ''MKCOL'', ''MKCOL''),
     (11, ''MOVE'', ''MOVE''),
     (12, ''PROPFIND'', ''PROPFIND''),
     (13, ''PROPPATCH'', ''PROPPATCH''),
     (14, ''SEARCH'', ''SEARCH''),
     (15, ''UNLOCK'', ''UNLOCK''),
     (16, ''BIND'', ''BIND''),
     (17, ''REBIND'', ''REBIND''),
     (18, ''UNBIND'', ''UNBIND''),
     (19, ''ACL'', ''ACL''),
     (20, ''REPORT'', ''REPORT''),
     (21, ''MKACTIVITY'', ''MKACTIVITY''),
     (22, ''CHECKOUT'', ''CHECKOUT''),
     (23, ''MERGE'', ''MERGE''),
     (24, ''MSEARCH'', ''M-SEARCH''),
     (25, ''NOTIFY'', ''NOTIFY''),
     (26, ''SUBSCRIBE'', ''SUBSCRIBE''),
     (27, ''UNSUBSCRIBE'', ''UNSUBSCRIBE''),
     (28, ''PATCH'', ''PATCH''),
     (29, ''PURGE'', ''PURGE''),
     (30, ''MKCALENDAR'', ''MKCALENDAR''),
     (31, ''LINK'', ''LINK''),
     (32, ''UNLINK'', ''UNLINK''),
     (33, ''SOURCE'', ''SOURCE'')]"

definition HTTP_STATUS_MAP :: "(int \<times> string \<times> string) list" where
  "HTTP_STATUS_MAP =
    [(100, ''CONTINUE'', ''Continue''),
     (101, ''SWITCHING_PROTOCOLS'', ''Switching Protocols''),
     (102, ''PROCESSING'', ''Processing''),
     (200, ''OK'', ''OK''),
     (201, ''CREATED'', ''Created''),
     (202, ''ACCEPTED'', ''Accepted''),
     (203, ''NON_AUTHORITATIVE_INFORMATION'', ''Non-Authoritative Information''),
     (204, ''NO_CONTENT'', ''No Content''),
     (205, ''RESET_CONTENT'', ''Reset Content''),
     (206, ''PARTIAL_CONTENT'', ''Partial Content''),
     (207, ''MULTI_STATUS'', ''Multi-Status''),
     (208, ''ALREADY_REPORTED'', ''Already Reported''),
     (226, ''IM_USED'', ''IM Used''),
     (300, ''MULTIPLE_CHOICES'', ''Multiple Choices''),
     (301, ''MOVED_PERMANENTLY'', ''Moved Permanently''),
     (302, ''FOUND'', ''Found''),
     (303, ''SEE_OTHER'', ''See Other''),
     (304, ''NOT_MODIFIED'', ''Not Modified''),
     (305, ''USE_PROXY'', ''Use Proxy''),
     (307, ''TEMPORARY_REDIRECT'', ''Temporary Redirect''),
     (308, ''PERMANENT_REDIRECT'', ''Permanent Redirect''),
     (400, ''BAD_REQUEST'', ''Bad Request''),
     (401, ''UNAUTHORIZED'', ''Unauthorized''),
     (402, ''PAYMENT_REQUIRED'', ''Payment Required''),
     (403, ''FORBIDDEN'', ''Forbidden''),
     (404, ''NOT_FOUND'', ''Not Found''),
     (405, ''METHOD_NOT_ALLOWED'', ''Method Not Allowed''),
     (406, ''NOT_ACCEPTABLE'', ''Not Acceptable''),
     (407, ''PROXY_AUTHENTICATION_REQUIRED'', ''Proxy Authentication Required''),
     (408, ''REQUEST_TIMEOUT'', ''Request Timeout''),
     (409, ''CONFLICT'', ''Conflict''),
     (410, ''GONE'', ''Gone''),
     (411, ''LENGTH_REQUIRED'', ''Length Required''),
     (412, ''PRECONDITION_FAILED'', ''Precondition Failed''),
     (413, ''PAYLOAD_TOO_LARGE'', ''Payload Too Large''),
     (414, ''URI_TOO_LONG'', ''URI Too Long''),
     (415, ''UNSUPPORTED_MEDIA_TYPE'', ''Unsupported Media Type''),
     (416, ''RANGE_NOT_SATISFIABLE'', ''Range Not Satisfiable''),
     (417, ''EXPECTATION_FAILED'', ''Expectation Failed''),
     (421, ''MISDIRECTED_REQUEST'', ''Misdirected Request''),
     (422, ''UNPROCESSABLE_ENTITY'', ''Unprocessable Entity''),
     (423, ''LOCKED'', ''Locked''),
     (424, ''FAILED_DEPENDENCY'', ''Failed Dependency''),
     (426, ''UPGRADE_REQUIRED'', ''Upgrade Required''),
     (428, ''PRECONDITION_REQUIRED'', ''Precondition Required''),
     (429, ''TOO_MANY_REQUESTS'', ''Too Many Requests''),
     (431, ''REQUEST_HEADER_FIELDS_TOO_LARGE'', ''Request Header Fields Too Large''),
     (451, ''UNAVAILABLE_FOR_LEGAL_REASONS'', ''Unavailable For Legal Reasons''),
     (500, ''INTERNAL_SERVER_ERROR'', ''Internal Server Error''),
     (501, ''NOT_IMPLEMENTED'', ''Not Implemented''),
     (502, ''BAD_GATEWAY'', ''Bad Gateway''),
     (503, ''SERVICE_UNAVAILABLE'', ''Service Unavailable''),
     (504, ''GATEWAY_TIMEOUT'', ''Gateway Timeout''),
     (505, ''HTTP_VERSION_NOT_SUPPORTED'', ''HTTP Version Not Supported''),
     (506, ''VARIANT_ALSO_NEGOTIATES'', ''Variant Also Negotiates''),
     (507, ''INSUFFICIENT_STORAGE'', ''Insufficient Storage''),
     (508, ''LOOP_DETECTED'', ''Loop Detected''),
     (510, ''NOT_EXTENDED'', ''Not Extended''),
     (511, ''NETWORK_AUTHENTICATION_REQUIRED'', ''Network Authentication Required'')]"

text \<open>\<open>HttpMethod::INVALID_METHOD\<close> is the enumerator after the last one of the table.\<close>

definition INVALID_METHOD :: nat where "INVALID_METHOD = 34"

abbreviation (input) HTTP_DELETE :: nat where "HTTP_DELETE \<equiv> 0"
abbreviation (input) HTTP_GET :: nat where "HTTP_GET \<equiv> 1"
abbreviation (input) HTTP_HEAD :: nat where "HTTP_HEAD \<equiv> 2"
abbreviation (input) HTTP_POST :: nat where "HTTP_POST \<equiv> 3"
abbreviation (input) HTTP_PUT :: nat where "HTTP_PUT \<equiv> 4"
abbreviation (input) HTTP_CONNECT :: nat where "HTTP_CONNECT \<equiv> 5"
abbreviation (input) HTTP_OPTIONS :: nat where "HTTP_OPTIONS \<equiv> 6"
abbreviation (input) HTTP_TRACE :: nat where "HTTP_TRACE \<equiv> 7"
abbreviation (input) HTTP_COPY :: nat where "HTTP_COPY \<equiv> 8"
abbreviation (input) HTTP_LOCK :: nat where "HTTP_LOCK \<equiv> 9"
abbreviation (input) HTTP_MKCOL :: nat where "HTTP_MKCOL \<equiv> 10"
abbreviation (input) HTTP_MOVE :: nat where "HTTP_MOVE \<equiv> 11"
abbreviation (input) HTTP_PROPFIND :: nat where "HTTP_PROPFIND \<equiv> 12"
abbreviation (input) HTTP_PROPPATCH :: nat where "HTTP_PROPPATCH \<equiv> 13"
abbreviation (input) HTTP_SEARCH :: nat where "HTTP_SEARCH \<equiv> 14"
abbreviation (input) HTTP_UNLOCK :: nat where "HTTP_UNLOCK \<equiv> 15"
abbreviation (input) HTTP_BIND :: nat where "HTTP_BIND \<equiv> 16"
abbreviation (input) HTTP_REBIND :: nat where "HTTP_REBIND \<equiv> 17"
abbreviation (input) HTTP_UNBIND :: nat where "HTTP_UNBIND \<equiv> 18"
abbreviation (input) HTTP_ACL :: nat where "HTTP_ACL \<equiv> 19"
abbreviation (input) HTTP_REPORT :: nat where "HTTP_REPORT \<equiv> 20"
abbreviation (input) HTTP_MKACTIVITY :: nat where "HTTP_MKACTIVITY \<equiv> 21"
abbreviation (input) HTTP_CHECKOUT :: nat where "HTTP_CHECKOUT \<equiv> 22"
abbreviation (input) HTTP_MERGE :: nat where "HTTP_MERGE \<equiv> 23"
abbreviation (input) HTTP_MSEARCH :: nat where "HTTP_MSEARCH \<equiv> 24"
abbreviation (input) HTTP_NOTIFY :: nat where "HTTP_NOTIFY \<equiv> 25"
abbreviation (input) HTTP_SUBSCRIBE :: nat where "HTTP_SUBSCRIBE \<equiv> 26"
abbreviation (input) HTTP_UNSUBSCRIBE :: nat where "HTTP_UNSUBSCRIBE \<equiv> 27"
abbreviation (input) HTTP_PATCH :: nat where "HTTP_PATCH \<equiv> 28"
abbreviation (input) HTTP_PURGE :: nat where "HTTP_PURGE \<equiv> 29"
abbreviation (input) HTTP_MKCALENDAR :: nat where "HTTP_MKCALENDAR \<equiv> 30"
abbreviation (input) HTTP_LINK :: nat where "HTTP_LINK \<equiv> 31"
abbreviation (input) HTTP_UNLINK :: nat where "HTTP_UNLINK \<equiv> 32"
abbreviation (input) HTTP_SOURCE :: nat where "HTTP_SOURCE \<equiv> 33"

text \<open>\<open>method_strings[]\<close> of \<open>http_parser.cpp\<close>, with the terminating NUL of each string literal.\<close>

definition method_strings :: "string list" where
  "method_strings = map (\<lambda>(num, name, str). str) HTTP_METHOD_MAP"

lemma method_count [simp]: "length method_strings = 34"
  by (simp add: method_strings_def HTTP_METHOD_MAP_def)

text \<open>The tables are consistent: the methods are numbered in order, and no entry is repeated.\<close>

lemma method_numbers: "map fst HTTP_METHOD_MAP = [0..<34]"
  by (simp add: HTTP_METHOD_MAP_def upt_rec)

lemma method_names_distinct: "distinct (map (\<lambda>(n, name, s). name) HTTP_METHOD_MAP)"
  by code_simp

lemma method_strings_distinct: "distinct method_strings"
  by code_simp

lemma status_numbers_distinct: "distinct (map fst HTTP_STATUS_MAP)"
  by code_simp

section \<open>Methods and statuses as strings\<close>

text \<open>\<open>stringToHttpMethod\<close> and \<open>httpMethodToString\<close> go by the C++ names, not by the texts.\<close>

fun method_of_name :: "(nat \<times> string \<times> string) list \<Rightarrow> string \<Rightarrow> nat" where
  "method_of_name [] s = INVALID_METHOD"
| "method_of_name ((num, name, des) # tab) s = (if s = name then num else method_of_name tab s)"

definition stringToHttpMethod :: "string \<Rightarrow> nat" where
  "stringToHttpMethod s = method_of_name HTTP_METHOD_MAP s"

fun name_of_method :: "(nat \<times> string \<times> string) list \<Rightarrow> nat \<Rightarrow> string option" where
  "name_of_method [] m = (if m = INVALID_METHOD then Some ''invalid_method'' else None)"
| "name_of_method ((num, name, des) # tab) m = (if m = num then Some name else name_of_method tab m)"

text \<open>\<open>None\<close>: the switch has no case for the value and control falls off the end.\<close>

definition httpMethodToString :: "nat \<Rightarrow> string option" where
  "httpMethodToString m = name_of_method HTTP_METHOD_MAP m"

fun msg_of_status :: "(int \<times> string \<times> string) list \<Rightarrow> int \<Rightarrow> string" where
  "msg_of_status [] s = ''<unknown>''"
| "msg_of_status ((code, name, msg) # tab) s = (if s = code then msg else msg_of_status tab s)"

definition httpStatusToString :: "int \<Rightarrow> string" where
  "httpStatusToString s = msg_of_status HTTP_STATUS_MAP s"

lemma method_of_name_in:
  "distinct (map (\<lambda>(n, name, s). name) tab) \<Longrightarrow> (num, name, str) \<in> set tab \<Longrightarrow> method_of_name tab name = num"
  by (induction tab) force+

lemma name_of_method_in:
  "distinct (map fst tab) \<Longrightarrow> (num, name, str) \<in> set tab \<Longrightarrow> name_of_method tab num = Some name"
  by (induction tab) force+

lemma msg_of_status_in:
  "distinct (map fst tab) \<Longrightarrow> (code, name, msg) \<in> set tab \<Longrightarrow> msg_of_status tab code = msg"
  by (induction tab) force+

lemma method_name_roundtrip:
  assumes "m < 34"
  shows "\<exists>s. httpMethodToString m = Some s \<and> stringToHttpMethod s = m"
proof -
  have "m \<in> set (map fst HTTP_METHOD_MAP)" using assms by (simp only: method_numbers) simp
  then obtain name str where e: "(m, name, str) \<in> set HTTP_METHOD_MAP" by auto
  have "distinct (map fst HTTP_METHOD_MAP)" by (simp only: method_numbers) simp
  then show ?thesis
    using name_of_method_in [OF _ e] method_of_name_in [OF method_names_distinct e]
    by (auto simp: httpMethodToString_def stringToHttpMethod_def)
qed

end
