(* ===== verification/Http_Chars.thy ===== *)
theory Http_Chars
  imports Http_Define "HOL-Library.Code_Target_Nat" "HOL-Library.Code_Target_Int"
begin

text \<open>
  The character classes of \<open>src/http/http_parser.cpp\<close>: the tables \<open>tokens\<close>, \<open>unhex\<close> and
  \<open>normal_url_char\<close> with the entries of the source, and the macros over them, in the strict
  mode the project is built in (\<open>HTTP_PARSER_STRICT\<close> is 1).  A byte of the input is a \<open>char\<close>.
  The tables have 256 entries (the bit table 32); C fills the entries the source does not
  list with zero.
\<close>

definition NUL :: char where "NUL = CHR 0x00"
definition CR :: char where "CR = CHR 0x0D"
definition LF :: char where "LF = CHR 0x0A"
definition HT :: char where "HT = CHR 0x09"
definition FF :: char where "FF = CHR 0x0C"

text \<open>\<open>(unsigned char) c\<close>.\<close>

definition byte :: "char \<Rightarrow> nat" where
  "byte c = of_char c"

lemma byte_less [simp]: "byte c < 256"
  by (simp add: byte_def)

lemma byte_eq_iff [simp]: "byte c = byte d \<longleftrightarrow> c = d"
  by (simp add: byte_def)

definition tokens :: "char list" where
  "tokens =
     replicate 32 NUL @
     '' !'' @ [NUL] @ ''#$%&'' @ [CHR 0x27] @ [NUL, NUL] @ ''*+'' @ [NUL] @ ''-.'' @ [NUL] @
     ''01234567'' @ ''89'' @ replicate 6 NUL @
     [NUL] @ ''abcdefg'' @ ''hijklmno'' @ ''pqrstuvw'' @ ''xyz'' @ replicate 3 NUL @ ''^_'' @
     [CHR 0x60] @ ''abcdefg'' @ ''hijklmno'' @ ''pqrstuvw'' @ ''xyz'' @ [NUL] @ ''|'' @ [NUL] @ [CHR 0x7E] @ [NUL] @
     replicate 128 NUL"

definition unhex :: "int list" where
  "unhex =
    [-1, -1, -1, -1, -1, -1, -1, -1, -1, -1, -1, -1, -1, -1, -1, -1,
     -1, -1, -1, -1, -1, -1, -1, -1, -1, -1, -1, -1, -1, -1, -1, -1,
     -1, -1, -1, -1, -1, -1, -1, -1, -1, -1, -1, -1, -1, -1, -1, -1,
     0, 1, 2, 3, 4, 5, 6, 7, 8, 9, -1, -1, -1, -1, -1, -1,
     -1, 10, 11, 12, 13, 14, 15, -1, -1, -1, -1, -1, -1, -1, -1, -1,
     -1, -1, -1, -1, -1, -1, -1, -1, -1, -1, -1, -1, -1, -1, -1, -1,
     -1, 10, 11, 12, 13, 14, 15, -1, -1, -1, -1, -1, -1, -1, -1, -1,
     -1, -1, -1, -1, -1, -1, -1, -1, -1, -1, -1, -1, -1, -1, -1, -1] @ replicate 128 0"

definition normal_url_char :: "nat list" where
  "normal_url_char =
    [0 + 0 + 0 + 0 + 0 + 0 + 0 + 0,
     0 + 0 + 0 + 0 + 0 + 0 + 0 + 0,
     0 + 0 + 0 + 0 + 0 + 0 + 0 + 0,
     0 + 0 + 0 + 0 + 0 + 0 + 0 + 0,
     0 + 2 + 4 + 0 + 16 + 32 + 64 + 128,
     1 + 2 + 4 + 8 + 16 + 32 + 64 + 128,
     1 + 2 + 4 + 8 + 16 + 32 + 64 + 128,
     1 + 2 + 4 + 8 + 16 + 32 + 64 + 0,
     1 + 2 + 4 + 8 + 16 + 32 + 64 + 128,
     1 + 2 + 4 + 8 + 16 + 32 + 64 + 128,
     1 + 2 + 4 + 8 + 16 + 32 + 64 + 128,
     1 + 2 + 4 + 8 + 16 + 32 + 64 + 128,
     1 + 2 + 4 + 8 + 16 + 32 + 64 + 128,
     1 + 2 + 4 + 8 + 16 + 32 + 64 + 128,
     1 + 2 + 4 + 8 + 16 + 32 + 64 + 128,
     1 + 2 + 4 + 8 + 16 + 32 + 64 + 0] @ replicate 16 0"

definition BIT_AT :: "nat list \<Rightarrow> nat \<Rightarrow> bool" where
  "BIT_AT a i \<longleftrightarrow> (a ! (i div 8)) AND (2 ^ (i mod 8)) \<noteq> 0"

definition LOWER :: "char \<Rightarrow> char" where
  "LOWER c = char_of (byte c OR 0x20)"

definition IS_ALPHA :: "char \<Rightarrow> bool" where
  "IS_ALPHA c \<longleftrightarrow> 0x61 \<le> byte (LOWER c) \<and> byte (LOWER c) \<le> 0x7A"

definition IS_NUM :: "char \<Rightarrow> bool" where
  "IS_NUM c \<longleftrightarrow> 0x30 \<le> byte c \<and> byte c \<le> 0x39"

definition IS_ALPHANUM :: "char \<Rightarrow> bool" where
  "IS_ALPHANUM c \<longleftrightarrow> IS_ALPHA c \<or> IS_NUM c"

definition IS_HEX :: "char \<Rightarrow> bool" where
  "IS_HEX c \<longleftrightarrow> IS_NUM c \<or> (0x61 \<le> byte (LOWER c) \<and> byte (LOWER c) \<le> 0x66)"

definition IS_MARK :: "char \<Rightarrow> bool" where
  "IS_MARK c \<longleftrightarrow> c = CHR ''-'' \<or> c = CHR ''_'' \<or> c = CHR ''.'' \<or> c = CHR ''!'' \<or>
     c = CHR 0x7E \<or> c = CHR ''*'' \<or> c = CHR 0x27 \<or> c = CHR ''('' \<or> c = CHR '')''"

definition IS_USERINFO_CHAR :: "char \<Rightarrow> bool" where
  "IS_USERINFO_CHAR c \<longleftrightarrow> IS_ALPHANUM c \<or> IS_MARK c \<or> c = CHR ''%'' \<or> c = CHR '';'' \<or>
     c = CHR '':'' \<or> c = CHR ''&'' \<or> c = CHR ''='' \<or> c = CHR ''+'' \<or> c = CHR ''$'' \<or> c = CHR '',''"

definition STRICT_TOKEN :: "char \<Rightarrow> char" where
  "STRICT_TOKEN c = (if c = CHR '' '' then NUL else tokens ! byte c)"

definition TOKEN :: "char \<Rightarrow> char" where
  "TOKEN c = STRICT_TOKEN c"

definition IS_URL_CHAR :: "char \<Rightarrow> bool" where
  "IS_URL_CHAR c \<longleftrightarrow> BIT_AT normal_url_char (byte c)"

definition IS_HOST_CHAR :: "char \<Rightarrow> bool" where
  "IS_HOST_CHAR c \<longleftrightarrow> IS_ALPHANUM c \<or> c = CHR ''.'' \<or> c = CHR ''-''"

definition IS_HEADER_CHAR :: "char \<Rightarrow> bool" where
  "IS_HEADER_CHAR c \<longleftrightarrow> c = CR \<or> c = LF \<or> c = HT \<or> (31 < byte c \<and> c \<noteq> CHR 0x7F)"

definition unhex_of :: "char \<Rightarrow> int" where
  "unhex_of c = unhex ! byte c"

section \<open>The tables, characterised\<close>

text \<open>The separators of RFC 2616; a token is made of the visible characters that are not.\<close>

definition is_separator :: "char \<Rightarrow> bool" where
  "is_separator c \<longleftrightarrow> c \<in> set (''()<>@,;:'' @ [CHR 0x5C, CHR 0x22] @ ''/[]?={} '' @ [HT])"

definition is_rfc_token_char :: "char \<Rightarrow> bool" where
  "is_rfc_token_char c \<longleftrightarrow> 31 < byte c \<and> byte c < 127 \<and> \<not> is_separator c"

definition to_lower :: "char \<Rightarrow> char" where
  "to_lower c = (if 0x41 \<le> byte c \<and> byte c \<le> 0x5A then char_of (byte c + 32) else c)"

lemma nth_bytes: "map f [0..<256 :: nat] ! byte c = f (byte c)"
  by simp

lemma char_of_byte [simp]: "char_of (byte c) = c"
  by (simp add: byte_def)

lemma bytes_split: "map f [0..<256 :: nat] = map f [0..<128] @ map f [128..<256]"
  using upt_add_eq_append [of 0 128 128] by (simp del: upt_rec_numeral)

lemma map_upper_half: "(\<And>n. 128 \<le> n \<Longrightarrow> n < 256 \<Longrightarrow> f n = x) \<Longrightarrow> map f [128..<256] = replicate 128 x"
  by (rule nth_equalityI) (simp_all del: upt_rec_numeral)

lemma byte_char_of: "n < 256 \<Longrightarrow> byte (char_of n) = n"
  by (simp add: byte_def)

lemma tokens_lower:
  "take 128 tokens = map (\<lambda>n. let c = char_of n in if is_rfc_token_char c \<or> c = CHR '' '' then to_lower c else NUL) [0..<128]"
  by code_simp

lemma tokens_upper: "drop 128 tokens = replicate 128 NUL"
  by (simp add: tokens_def)

lemma tokens_table:
  "tokens = map (\<lambda>n. let c = char_of n in if is_rfc_token_char c \<or> c = CHR '' '' then to_lower c else NUL) [0..<256]"
proof -
  have sp: "byte CHR '' '' = 32" by code_simp
  have "(let c = char_of n in if is_rfc_token_char c \<or> c = CHR '' '' then to_lower c else NUL) = NUL"
    if "128 \<le> n" "n < 256" for n :: nat
  proof -
    have "byte (char_of n) = n" using that by (simp add: byte_char_of)
    moreover from this have "char_of n \<noteq> CHR '' ''" using sp that by force
    ultimately show ?thesis using that by (simp add: is_rfc_token_char_def)
  qed
  then show ?thesis
    using append_take_drop_id [of 128 tokens] by (simp only: bytes_split map_upper_half tokens_lower tokens_upper)
qed

lemma unhex_table:
  "unhex = map (\<lambda>n. let c = char_of n in if IS_NUM c then int n - 0x30
                else if IS_HEX c then int (byte (LOWER c)) - 0x57
                else if n < 128 then -1 else 0) [0..<256]"
  by code_simp

lemma url_table:
  "map (BIT_AT normal_url_char) [0..<256] =
   map (\<lambda>n. 32 < n \<and> n < 127 \<and> n \<noteq> 35 \<and> n \<noteq> 63) [0..<256]"
  by code_simp

lemma TOKEN_iff: "TOKEN c = (if is_rfc_token_char c then to_lower c else NUL)"
  by (simp add: TOKEN_def STRICT_TOKEN_def tokens_table nth_bytes Let_def)
     (simp add: is_rfc_token_char_def is_separator_def)

lemma unhex_iff:
  "unhex_of c = (if IS_NUM c then int (byte c) - 0x30
                 else if IS_HEX c then int (byte (LOWER c)) - 0x57
                 else if byte c < 128 then -1 else 0)"
  by (simp add: unhex_of_def unhex_table nth_bytes Let_def)

lemma IS_URL_CHAR_iff: "IS_URL_CHAR c \<longleftrightarrow> 32 < byte c \<and> byte c < 127 \<and> byte c \<noteq> 35 \<and> byte c \<noteq> 63"
proof -
  have "IS_URL_CHAR c \<longleftrightarrow> map (BIT_AT normal_url_char) [0..<256] ! byte c"
    by (simp only: IS_URL_CHAR_def nth_bytes)
  also have "\<dots> \<longleftrightarrow> 32 < byte c \<and> byte c < 127 \<and> byte c \<noteq> 35 \<and> byte c \<noteq> 63"
    by (simp only: url_table nth_bytes)
  finally show ?thesis .
qed

end
