(* ===== verification/Std_Lib.thy ===== *)
theory Std_Lib
  imports Http_Chars "HOL-Library.List_Lexorder"
begin

text \<open>
  What the sources use of the C and C++ standard libraries: the case-insensitive comparison of
  C strings, decimal output of integers, and \<open>std::map\<close> with a comparator of its own.

  A \<open>std::string\<close> is a \<open>string\<close>; it may hold NUL bytes, and \<open>c_str s\<close> is what a C function sees
  of it.
\<close>

section \<open>C strings\<close>

definition c_str :: "string \<Rightarrow> string" where
  "c_str s = takeWhile (\<lambda>c. byte c \<noteq> 0) s"

text \<open>\<open>tolower\<close> in the C locale.\<close>

definition tolower :: "char \<Rightarrow> nat" where
  "tolower c = (if 0x41 \<le> byte c \<and> byte c \<le> 0x5A then byte c + 32 else byte c)"

text \<open>The comparison of two NUL-terminated sequences of bytes: the end counts as 0.\<close>

fun cmp_bytes :: "nat list \<Rightarrow> nat list \<Rightarrow> int" where
  "cmp_bytes [] [] = 0"
| "cmp_bytes [] (b # bs) = - int b"
| "cmp_bytes (a # as) [] = int a"
| "cmp_bytes (a # as) (b # bs) = (if a = b then cmp_bytes as bs else int a - int b)"

definition strcasecmp :: "string \<Rightarrow> string \<Rightarrow> int" where
  "strcasecmp a b = cmp_bytes (map tolower (c_str a)) (map tolower (c_str b))"

definition strncasecmp :: "string \<Rightarrow> string \<Rightarrow> nat \<Rightarrow> int" where
  "strncasecmp a b n = cmp_bytes (map tolower (take n (c_str a))) (map tolower (take n (c_str b)))"

text \<open>What the comparison sees of a string.\<close>

definition fold_case :: "string \<Rightarrow> nat list" where
  "fold_case s = map tolower (c_str s)"

lemma tolower_pos: "byte c \<noteq> 0 \<Longrightarrow> 0 < tolower c"
  by (simp add: tolower_def)

lemma fold_case_pos: "b \<in> set (fold_case s) \<Longrightarrow> 0 < b"
  by (auto simp: fold_case_def c_str_def dest!: set_takeWhileD intro!: tolower_pos)

lemma cmp_bytes_less:
  "(\<forall>a\<in>set as. 0 < a) \<Longrightarrow> (\<forall>b\<in>set bs. 0 < b) \<Longrightarrow> cmp_bytes as bs < 0 \<longleftrightarrow> as < bs"
  by (induction as bs rule: cmp_bytes.induct) auto

lemma cmp_bytes_zero:
  "(\<forall>a\<in>set as. 0 < a) \<Longrightarrow> (\<forall>b\<in>set bs. 0 < b) \<Longrightarrow> cmp_bytes as bs = 0 \<longleftrightarrow> as = bs"
  by (induction as bs rule: cmp_bytes.induct) auto

lemma strcasecmp_less: "strcasecmp a b < 0 \<longleftrightarrow> fold_case a < fold_case b"
  using fold_case_pos by (simp add: strcasecmp_def fold_case_def cmp_bytes_less)

lemma strcasecmp_zero: "strcasecmp a b = 0 \<longleftrightarrow> fold_case a = fold_case b"
  using fold_case_pos by (simp add: strcasecmp_def fold_case_def cmp_bytes_zero)

section \<open>Decimal output\<close>

definition digit_char :: "nat \<Rightarrow> char" where
  "digit_char n = char_of (48 + n)"

fun to_dec :: "nat \<Rightarrow> string" where
  "to_dec n = (if n < 10 then [digit_char n] else to_dec (n div 10) @ [digit_char (n mod 10)])"

declare to_dec.simps [simp del]

definition int_to_dec :: "int \<Rightarrow> string" where
  "int_to_dec i = (if i < 0 then CHR ''-'' # to_dec (nat (- i)) else to_dec (nat i))"

fun dec_value :: "nat \<Rightarrow> string \<Rightarrow> nat" where
  "dec_value v [] = v"
| "dec_value v (c # cs) = dec_value (v * 10 + (byte c - 48)) cs"

lemma byte_digit_char: "n < 10 \<Longrightarrow> byte (digit_char n) = 48 + n"
  by (simp add: byte_def digit_char_def)

lemma dec_value_append: "dec_value v (xs @ ys) = dec_value (dec_value v xs) ys"
  by (induction xs arbitrary: v) simp_all

lemma dec_value_to_dec [simp]: "dec_value 0 (to_dec n) = n"
proof (induction n rule: to_dec.induct)
  case (1 n)
  then show ?case by (subst to_dec.simps) (simp add: dec_value_append byte_digit_char)
qed

lemma to_dec_digits: "c \<in> set (to_dec n) \<Longrightarrow> IS_NUM c"
proof (induction n rule: to_dec.induct)
  case (1 n)
  have d: "IS_NUM (digit_char k)" if "k < 10" for k using that by (simp add: IS_NUM_def byte_digit_char)
  show ?case
  proof (cases "n < 10")
    case True
    then show ?thesis using "1.prems" d by (subst (asm) to_dec.simps) simp
  next
    case False
    then show ?thesis using "1.IH" "1.prems" d by (subst (asm) to_dec.simps) auto
  qed
qed

lemma to_dec_not_Nil [simp]: "to_dec n \<noteq> []"
  by (subst to_dec.simps) simp

lemma length_to_dec: "n < 10 ^ k \<Longrightarrow> 0 < k \<Longrightarrow> length (to_dec n) \<le> k"
proof (induction n arbitrary: k rule: to_dec.induct)
  case (1 n)
  show ?case
  proof (cases "n < 10")
    case True
    then show ?thesis using "1.prems" by (subst to_dec.simps) simp
  next
    case False
    obtain j where k: "k = Suc j" using "1.prems"(2) by (cases k) auto
    have j: "0 < j" using "1.prems"(1) False k by (cases j) auto
    have "n div 10 < 10 ^ j" using "1.prems"(1) k by (simp add: div_less_iff_less_mult mult.commute)
    from "1.IH" [OF False this j] show ?thesis using False k by (subst to_dec.simps) simp
  qed
qed

lemma to_dec_inj: "to_dec m = to_dec n \<longleftrightarrow> m = n"
  by (metis dec_value_to_dec)

section \<open>\<open>std::map\<close>\<close>

text \<open>
  The entries in the order of the comparator.  Two keys are the same when neither is less;
  \<open>m[k] = v\<close> on a key that is there assigns the value and keeps the key as it was.
\<close>

type_synonym ('k, 'v) std_map = "('k \<times> 'v) list"

fun map_find :: "('k \<Rightarrow> 'k \<Rightarrow> bool) \<Rightarrow> 'k \<Rightarrow> ('k, 'v) std_map \<Rightarrow> 'v option" where
  "map_find lt k [] = None"
| "map_find lt k ((k', v) # m) =
     (if lt k' k then map_find lt k m else if lt k k' then None else Some v)"

fun map_assign :: "('k \<Rightarrow> 'k \<Rightarrow> bool) \<Rightarrow> 'k \<Rightarrow> 'v \<Rightarrow> ('k, 'v) std_map \<Rightarrow> ('k, 'v) std_map" where
  "map_assign lt k v [] = [(k, v)]"
| "map_assign lt k v ((k', v') # m) =
     (if lt k' k then (k', v') # map_assign lt k v m
      else if lt k k' then (k, v) # (k', v') # m
      else (k', v) # m)"

fun map_erase :: "('k \<Rightarrow> 'k \<Rightarrow> bool) \<Rightarrow> 'k \<Rightarrow> ('k, 'v) std_map \<Rightarrow> ('k, 'v) std_map" where
  "map_erase lt k [] = []"
| "map_erase lt k ((k', v') # m) =
     (if lt k' k then (k', v') # map_erase lt k m
      else if lt k k' then (k', v') # m
      else m)"

definition map_sorted :: "('k \<Rightarrow> 'k \<Rightarrow> bool) \<Rightarrow> ('k, 'v) std_map \<Rightarrow> bool" where
  "map_sorted lt m \<longleftrightarrow> sorted_wrt lt (map fst m)"

lemma map_sorted_simps [simp]:
  "map_sorted lt []"
  "map_sorted lt ((k, v) # m) \<longleftrightarrow> (\<forall>(k', v')\<in>set m. lt k k') \<and> map_sorted lt m"
  by (auto simp: map_sorted_def)

text \<open>What the standard asks of a comparator: a strict weak ordering.\<close>

locale strict_weak_order =
  fixes lt :: "'k \<Rightarrow> 'k \<Rightarrow> bool"
  assumes irrefl: "\<not> lt x x"
    and trans: "lt x y \<Longrightarrow> lt y z \<Longrightarrow> lt x z"
    and negtrans: "lt x z \<Longrightarrow> lt x y \<or> lt y z"
begin

lemma asym: "lt x y \<Longrightarrow> \<not> lt y x"
  using irrefl trans by blast

lemma same_less:
  assumes "\<not> lt h k" and "\<not> lt k h"
  shows "lt h j \<longleftrightarrow> lt k j" and "lt j h \<longleftrightarrow> lt j k"
  using assms negtrans by blast+

lemma assign_keys: "(k', v') \<in> set (map_assign lt k v m) \<Longrightarrow> k' = k \<or> (\<exists>w. (k', w) \<in> set m)"
  by (induction m) (auto split: if_splits)

lemma assign_above:
  assumes "\<forall>(j, w)\<in>set m. lt h j" and "lt h k"
  shows "\<forall>(j, w)\<in>set (map_assign lt k v m). lt h j"
  using assign_keys [of _ _ k v m] assms by fastforce

lemma assign_sorted: "map_sorted lt m \<Longrightarrow> map_sorted lt (map_assign lt k v m)"
proof (induction m)
  case (Cons e m)
  obtain h w where e: "e = (h, w)" by (cases e)
  have "\<forall>(j, w)\<in>set m. lt k j" if "lt k h" using Cons.prems e that by (auto intro: trans)
  then show ?case using Cons e assign_above [of m h k v] by auto
qed simp

lemma erase_subset: "set (map_erase lt k m) \<subseteq> set m"
  by (induction m) (auto split: if_splits)

lemma erase_sorted: "map_sorted lt m \<Longrightarrow> map_sorted lt (map_erase lt k m)"
proof (induction m)
  case (Cons e m)
  then show ?case using erase_subset [of k m] by (cases e) auto
qed simp

lemma find_absent: "(\<forall>(k', v)\<in>set m. lt k k') \<Longrightarrow> map_find lt k m = None"
  by (cases m) (auto dest: asym)

lemma find_cong:
  assumes "\<not> lt j k" and "\<not> lt k j"
  shows "map_find lt j m = map_find lt k m"
  using same_less [OF assms] by (induction m) auto

lemma find_assign:
  "map_sorted lt m \<Longrightarrow>
   map_find lt j (map_assign lt k v m) = (if lt j k \<or> lt k j then map_find lt j m else Some v)"
proof (induction m)
  case (Cons e m)
  obtain h w where e: "e = (h, w)" by (cases e)
  consider "lt h k" | "lt k h" "\<not> lt h k" | "\<not> lt h k" "\<not> lt k h" by blast
  then show ?case
  proof cases
    case 1
    then have "lt h j \<or> lt j k" using negtrans by blast
    with 1 Cons e show ?thesis by auto
  next
    case 2
    then have "lt j k \<Longrightarrow> lt j h" and "lt j k \<Longrightarrow> \<not> lt k j" and "lt j k \<Longrightarrow> \<not> lt h j" using trans asym by blast+
    with 2 Cons e show ?thesis by auto
  next
    case 3
    with Cons e same_less [OF 3, of j] asym [of h j] show ?thesis by auto
  qed
qed auto

lemma find_erase:
  "map_sorted lt m \<Longrightarrow>
   map_find lt j (map_erase lt k m) = (if lt j k \<or> lt k j then map_find lt j m else None)"
proof (induction m)
  case (Cons e m)
  obtain h w where e: "e = (h, w)" by (cases e)
  have above: "map_find lt j m = None" if "\<not> lt h j"
  proof (rule find_absent)
    have "lt j i" if "lt h i" for i using negtrans [OF that, of j] \<open>\<not> lt h j\<close> by blast
    then show "\<forall>(i, w)\<in>set m. lt j i" using Cons.prems e by auto
  qed
  consider "lt h k" | "lt k h" "\<not> lt h k" | "\<not> lt h k" "\<not> lt k h" by blast
  then show ?case
  proof cases
    case 1
    then have "lt h j \<or> lt j k" using negtrans by blast
    with 1 Cons e show ?thesis by auto
  next
    case 2
    then have "lt j h \<and> \<not> lt h j \<or> lt k j" using negtrans asym by blast
    with 2 Cons e show ?thesis by auto
  next
    case 3
    with Cons e above same_less [OF 3, of j] asym [of h j] show ?thesis by auto
  qed
qed simp

end

text \<open>\<open>CaseInsensitiveLess\<close> of \<open>src/http/http.cpp\<close>.\<close>

definition CaseInsensitiveLess :: "string \<Rightarrow> string \<Rightarrow> bool" where
  "CaseInsensitiveLess lhs rhs \<longleftrightarrow> strcasecmp lhs rhs < 0"

lemma CaseInsensitiveLess_iff: "CaseInsensitiveLess a b \<longleftrightarrow> fold_case a < fold_case b"
  by (simp add: CaseInsensitiveLess_def strcasecmp_less)

interpretation ci: strict_weak_order CaseInsensitiveLess
  by unfold_locales (auto simp: CaseInsensitiveLess_iff)

end
