(* ===== verification/Http_Message.thy ===== *)
theory Http_Message
  imports Http_Define Std_Lib
begin

text \<open>
  \<open>HttpRequest\<close> and \<open>HttpResponse\<close> of \<open>src/http/http.h\<close> and \<open>src/http/http.cpp\<close>: the fields,
  the header, cookie and parameter maps with their case-insensitive keys, and the texts
  \<open>toString\<close> writes.
\<close>

section \<open>Requests\<close>

type_synonym MSS = "(string, string) std_map"

record http_request =
  reqMethod :: nat
  reqTmpHeader :: string
  reqVersion :: string
  reqQuery :: string
  reqPath :: string
  reqFrag :: string
  reqBody :: string
  reqKeepAlive :: bool
  reqWebSocket :: bool
  reqHeaders :: MSS
  reqCookies :: MSS
  reqParams :: MSS

definition newHttpRequest :: "string \<Rightarrow> bool \<Rightarrow> http_request" where
  "newHttpRequest version keepAlive =
     \<lparr>reqMethod = HTTP_GET, reqTmpHeader = '''', reqVersion = version, reqQuery = '''', reqPath = ''/'',
      reqFrag = '''', reqBody = '''', reqKeepAlive = keepAlive, reqWebSocket = False,
      reqHeaders = [], reqCookies = [], reqParams = []\<rparr>"

definition req_setVersion :: "string \<Rightarrow> http_request \<Rightarrow> http_request" where
  "req_setVersion version r = r\<lparr>reqVersion := version\<rparr>"

definition req_setMethod :: "nat \<Rightarrow> http_request \<Rightarrow> http_request" where
  "req_setMethod method r = r\<lparr>reqMethod := method\<rparr>"

definition req_setPath :: "string \<Rightarrow> http_request \<Rightarrow> http_request" where
  "req_setPath path r = r\<lparr>reqPath := path\<rparr>"

text \<open>The body is appended to, the other setters replace.\<close>

definition req_setBody :: "string \<Rightarrow> http_request \<Rightarrow> http_request" where
  "req_setBody body r = r\<lparr>reqBody := reqBody r @ body\<rparr>"

definition req_setKeepAlive :: "bool \<Rightarrow> http_request \<Rightarrow> http_request" where
  "req_setKeepAlive keepAlive r = r\<lparr>reqKeepAlive := keepAlive\<rparr>"

definition req_setQuery :: "string \<Rightarrow> http_request \<Rightarrow> http_request" where
  "req_setQuery query r = r\<lparr>reqQuery := query\<rparr>"

definition req_setFrag :: "string \<Rightarrow> http_request \<Rightarrow> http_request" where
  "req_setFrag frag r = r\<lparr>reqFrag := frag\<rparr>"

definition req_setWebSocket :: "bool \<Rightarrow> http_request \<Rightarrow> http_request" where
  "req_setWebSocket webSocket r = r\<lparr>reqWebSocket := webSocket\<rparr>"

definition req_setTmpHeader :: "string \<Rightarrow> http_request \<Rightarrow> http_request" where
  "req_setTmpHeader tmpheader r = r\<lparr>reqTmpHeader := tmpheader\<rparr>"

definition mss_get :: "MSS \<Rightarrow> string \<Rightarrow> string \<Rightarrow> string" where
  "mss_get m key d = (case map_find CaseInsensitiveLess key m of None \<Rightarrow> d | Some v \<Rightarrow> v)"

definition req_getHeader :: "http_request \<Rightarrow> string \<Rightarrow> string \<Rightarrow> string" where
  "req_getHeader r key d = mss_get (reqHeaders r) key d"

definition req_getParam :: "http_request \<Rightarrow> string \<Rightarrow> string \<Rightarrow> string" where
  "req_getParam r key d = mss_get (reqParams r) key d"

definition req_getCookie :: "http_request \<Rightarrow> string \<Rightarrow> string \<Rightarrow> string" where
  "req_getCookie r key d = mss_get (reqCookies r) key d"

definition req_addHeader :: "string \<Rightarrow> string \<Rightarrow> http_request \<Rightarrow> http_request" where
  "req_addHeader key value r = r\<lparr>reqHeaders := map_assign CaseInsensitiveLess key value (reqHeaders r)\<rparr>"

definition req_addParam :: "string \<Rightarrow> string \<Rightarrow> http_request \<Rightarrow> http_request" where
  "req_addParam key value r = r\<lparr>reqParams := map_assign CaseInsensitiveLess key value (reqParams r)\<rparr>"

definition req_addCookie :: "string \<Rightarrow> string \<Rightarrow> http_request \<Rightarrow> http_request" where
  "req_addCookie key value r = r\<lparr>reqCookies := map_assign CaseInsensitiveLess key value (reqCookies r)\<rparr>"

definition req_delHeader :: "string \<Rightarrow> http_request \<Rightarrow> http_request" where
  "req_delHeader key r = r\<lparr>reqHeaders := map_erase CaseInsensitiveLess key (reqHeaders r)\<rparr>"

definition req_delParam :: "string \<Rightarrow> http_request \<Rightarrow> http_request" where
  "req_delParam key r = r\<lparr>reqParams := map_erase CaseInsensitiveLess key (reqParams r)\<rparr>"

definition req_delCookie :: "string \<Rightarrow> http_request \<Rightarrow> http_request" where
  "req_delCookie key r = r\<lparr>reqCookies := map_erase CaseInsensitiveLess key (reqCookies r)\<rparr>"

section \<open>The text of a message\<close>

definition CRLF :: string where "CRLF = [CR, LF]"

text \<open>The loop over the headers, which leaves out \<open>connection\<close> unless this is a web socket.\<close>

fun print_headers :: "bool \<Rightarrow> MSS \<Rightarrow> string" where
  "print_headers webSocket [] = ''''"
| "print_headers webSocket ((k, v) # m) =
     (if \<not> webSocket \<and> strcasecmp ''connection'' k = 0 then print_headers webSocket m
      else k @ '':'' @ v @ CRLF @ print_headers webSocket m)"

definition print_connection :: "bool \<Rightarrow> bool \<Rightarrow> string" where
  "print_connection webSocket keepAlive =
     (if \<not> webSocket then ''connection:'' @ (if keepAlive then ''keep-alive'' else ''close'') @ CRLF else '''')"

definition print_body :: "MSS \<Rightarrow> string \<Rightarrow> string" where
  "print_body headers body =
     (if body \<noteq> []
      then (if map_find CaseInsensitiveLess ''content-length'' headers = None
            then ''content-length:'' @ to_dec (length body) @ CRLF else '''') @ CRLF @ body
      else CRLF)"

text \<open>\<open>HttpRequest::toString\<close>; a method without a name is a missing \<open>return\<close>.\<close>

definition req_toString :: "http_request \<Rightarrow> fault + string" where
  "req_toString r =
     (case httpMethodToString (reqMethod r) of
        None \<Rightarrow> Inl No_Return
      | Some name \<Rightarrow> Inr
          (name @ '' '' @ reqPath r @ '' '' @
           (if reqQuery r = [] then '''' else ''?'') @ reqQuery r @
           (if reqFrag r = [] then '''' else ''#'') @ reqFrag r @
           ''HTTP/'' @ reqVersion r @ CRLF @
           print_connection (reqWebSocket r) (reqKeepAlive r) @
           print_headers (reqWebSocket r) (reqHeaders r) @
           print_body (reqHeaders r) (reqBody r)))"

section \<open>Responses\<close>

record http_response =
  resStatus :: int
  resBody :: string
  resVersion :: string
  resTmpHeader :: string
  resKeepAlive :: bool
  resWebSocket :: bool
  resHeaders :: MSS

definition newHttpResponse :: "string \<Rightarrow> bool \<Rightarrow> http_response" where
  "newHttpResponse version keepAlive =
     \<lparr>resStatus = 200, resBody = '''', resVersion = version, resTmpHeader = '''',
      resKeepAlive = keepAlive, resWebSocket = False, resHeaders = []\<rparr>"

definition res_setStatus :: "int \<Rightarrow> http_response \<Rightarrow> http_response" where
  "res_setStatus status r = r\<lparr>resStatus := status\<rparr>"

definition res_setVersion :: "string \<Rightarrow> http_response \<Rightarrow> http_response" where
  "res_setVersion version r = r\<lparr>resVersion := version\<rparr>"

definition res_setBody :: "string \<Rightarrow> http_response \<Rightarrow> http_response" where
  "res_setBody body r = r\<lparr>resBody := resBody r @ body\<rparr>"

definition res_setKeepAlive :: "bool \<Rightarrow> http_response \<Rightarrow> http_response" where
  "res_setKeepAlive keepAlive r = r\<lparr>resKeepAlive := keepAlive\<rparr>"

definition res_setWebSocket :: "bool \<Rightarrow> http_response \<Rightarrow> http_response" where
  "res_setWebSocket ws r = r\<lparr>resWebSocket := ws\<rparr>"

definition res_setTmpHeader :: "string \<Rightarrow> http_response \<Rightarrow> http_response" where
  "res_setTmpHeader tmpheader r = r\<lparr>resTmpHeader := tmpheader\<rparr>"

definition res_getHeader :: "http_response \<Rightarrow> string \<Rightarrow> string \<Rightarrow> string" where
  "res_getHeader r key d = mss_get (resHeaders r) key d"

definition res_addHeader :: "string \<Rightarrow> string \<Rightarrow> http_response \<Rightarrow> http_response" where
  "res_addHeader key value r = r\<lparr>resHeaders := map_assign CaseInsensitiveLess key value (resHeaders r)\<rparr>"

definition res_toString :: "http_response \<Rightarrow> string" where
  "res_toString r =
     ''HTTP/'' @ resVersion r @ '' '' @ int_to_dec (resStatus r) @ '' '' @ httpStatusToString (resStatus r) @ CRLF @
     print_connection (resWebSocket r) (resKeepAlive r) @
     print_headers (resWebSocket r) (resHeaders r) @
     print_body (resHeaders r) (resBody r)"

section \<open>The header map as a map from names to values\<close>

text \<open>Two names are the same header when they differ only in the case of letters.\<close>

abbreviation same_name :: "string \<Rightarrow> string \<Rightarrow> bool" where
  "same_name a b \<equiv> fold_case a = fold_case b"

lemma not_less_iff: "CaseInsensitiveLess a b \<or> CaseInsensitiveLess b a \<longleftrightarrow> \<not> same_name a b"
  by (auto simp: CaseInsensitiveLess_iff)

text \<open>Writes and deletions of headers, and what they should do to a map on folded names.\<close>

datatype header_op = Add_Header string string | Del_Header string

fun header_step :: "header_op \<Rightarrow> http_request \<Rightarrow> http_request" where
  "header_step (Add_Header k v) r = req_addHeader k v r"
| "header_step (Del_Header k) r = req_delHeader k r"

fun header_spec :: "header_op \<Rightarrow> (nat list \<rightharpoonup> string) \<Rightarrow> (nat list \<rightharpoonup> string)" where
  "header_spec (Add_Header k v) f = f(fold_case k \<mapsto> v)"
| "header_spec (Del_Header k) f = f(fold_case k := None)"

definition headers_abs :: "MSS \<Rightarrow> (nat list \<rightharpoonup> string) \<Rightarrow> bool" where
  "headers_abs m f \<longleftrightarrow> map_sorted CaseInsensitiveLess m \<and> (\<forall>k. map_find CaseInsensitiveLess k m = f (fold_case k))"

lemma header_step_abs:
  "headers_abs (reqHeaders r) f \<Longrightarrow> headers_abs (reqHeaders (header_step x r)) (header_spec x f)"
  by (cases x) (auto simp: headers_abs_def req_addHeader_def req_delHeader_def ci.assign_sorted ci.erase_sorted
      ci.find_assign ci.find_erase not_less_iff)

lemma header_fold_abs:
  "headers_abs (reqHeaders r) f \<Longrightarrow> headers_abs (reqHeaders (fold header_step ops r)) (fold header_spec ops f)"
  by (induction ops arbitrary: r f) (simp_all add: header_step_abs)

text \<open>
  C19. The headers of a request are a map from case-insensitive names to values: after any
  sequence of \<open>addHeader\<close> and \<open>delHeader\<close> on a new request, \<open>getHeader\<close> returns the value
  last written under that name in any spelling, and the default when there is none.
\<close>

theorem headers_refine_map:
  "req_getHeader (fold header_step ops (newHttpRequest version keep)) k d =
     (case fold header_spec ops Map.empty (fold_case k) of None \<Rightarrow> d | Some v \<Rightarrow> v)"
proof -
  have "headers_abs (reqHeaders (newHttpRequest version keep)) Map.empty"
    by (simp add: headers_abs_def newHttpRequest_def)
  from header_fold_abs [OF this, of ops] show ?thesis
    by (simp add: req_getHeader_def mss_get_def headers_abs_def)
qed

section \<open>The lines of a response\<close>

definition header_line :: "string \<times> string \<Rightarrow> string" where
  "header_line h = fst h @ '':'' @ snd h @ CRLF"

definition named :: "string \<Rightarrow> MSS \<Rightarrow> MSS" where
  "named n hs = filter (\<lambda>(k, v). same_name n k) hs"

lemma print_headers_lines:
  "print_headers ws m = concat (map header_line (filter (\<lambda>(k, v). ws \<or> \<not> same_name ''connection'' k) m))"
  by (induction m) (auto simp: strcasecmp_zero header_line_def)

lemma named_simps [simp]:
  "named n [] = []" "named n ((k, v) # m) = (if same_name n k then (k, v) # named n m else named n m)"
  "named n (a @ b) = named n a @ named n b"
  by (simp_all add: named_def)

lemma named_find:
  "map_sorted CaseInsensitiveLess m \<Longrightarrow>
   named n m = [] \<and> map_find CaseInsensitiveLess n m = None \<or>
   (\<exists>k v. named n m = [(k, v)] \<and> map_find CaseInsensitiveLess n m = Some v)"
proof (induction m)
  case (Cons e m)
  obtain k v where e: "e = (k, v)" by (cases e)
  show ?case
  proof (cases "CaseInsensitiveLess k n")
    case True
    then show ?thesis using Cons e by (auto simp: CaseInsensitiveLess_iff)
  next
    case False
    then have "named n m = []" using Cons.prems e
      by (auto simp: named_def filter_empty_conv CaseInsensitiveLess_iff)
    then show ?thesis using False e by (auto simp: CaseInsensitiveLess_iff)
  qed
qed simp

lemma named_filter: "\<not> same_name n c \<Longrightarrow> named n (filter (\<lambda>(k, v). \<not> same_name c k) m) = named n m"
  by (induction m) auto

lemma names_differ: "\<not> same_name ''content-length'' ''connection''" "\<not> same_name ''connection'' ''content-length''"
  by code_simp+

lemma print_body_lines:
  obtains hs where "print_body m body = concat (map header_line hs) @ CRLF @ body"
    "hs = (if body \<noteq> [] \<and> map_find CaseInsensitiveLess ''content-length'' m = None
           then [(''content-length'', to_dec (length body))] else [])"
  by (auto simp: print_body_def header_line_def)

text \<open>
  C20. What \<open>HttpResponse::toString\<close> writes is a message: a status line, header lines, an empty
  line and the body.  The header lines are exactly: \<open>connection\<close>, which says whether the connection is
  kept alive, whatever the header map holds; each other header of the map once, in its order and
  with its value; and \<open>content-length\<close> with the length of the body when there is a body and the
  servlet set no length.  So there is one \<open>connection\<close> line, and with a body one \<open>content-length\<close> line.
\<close>

theorem response_text_well_formed:
  assumes "map_sorted CaseInsensitiveLess (resHeaders r)" and "\<not> resWebSocket r"
    and "hs = (''connection'', if resKeepAlive r then ''keep-alive'' else ''close'') #
      filter (\<lambda>(k, v). \<not> same_name ''connection'' k) (resHeaders r) @
      (if resBody r \<noteq> [] \<and> named ''content-length'' (resHeaders r) = []
       then [(''content-length'', to_dec (length (resBody r)))] else [])"
  shows "res_toString r =
      ''HTTP/'' @ resVersion r @ '' '' @ int_to_dec (resStatus r) @ '' '' @ httpStatusToString (resStatus r) @ CRLF @
      concat (map header_line hs) @ CRLF @ resBody r \<and>
    named ''connection'' hs = [(''connection'', if resKeepAlive r then ''keep-alive'' else ''close'')] \<and>
    (resBody r \<noteq> [] \<longrightarrow> length (named ''content-length'' hs) = 1) \<and>
    (resBody r \<noteq> [] \<longrightarrow> named ''content-length'' (resHeaders r) = [] \<longrightarrow>
       named ''content-length'' hs = [(''content-length'', to_dec (length (resBody r)))])"
proof -
  let ?c = "(''connection'', if resKeepAlive r then ''keep-alive'' else ''close'')"
  note found = named_find [OF assms(1), of "''content-length''"]
  obtain bs where b: "print_body (resHeaders r) (resBody r) = concat (map header_line bs) @ CRLF @ resBody r"
    "bs = (if resBody r \<noteq> [] \<and> map_find CaseInsensitiveLess ''content-length'' (resHeaders r) = None
           then [(''content-length'', to_dec (length (resBody r)))] else [])"
    by (rule print_body_lines)
  have hs: "hs = ?c # filter (\<lambda>(k, v). \<not> same_name ''connection'' k) (resHeaders r) @ bs"
    using found b(2) assms(3) by (auto split: option.splits)
  have "named ''connection'' (filter (\<lambda>(k, v). \<not> same_name ''connection'' k) m) = []" for m
    by (induction m) auto
  then have "named ''connection'' hs = [?c]" using b(2) names_differ by (simp add: hs)
  moreover have "named ''content-length'' hs = named ''content-length'' (resHeaders r) @ bs"
    using b(2) names_differ named_filter [OF names_differ(1)] by (simp add: hs)
  moreover have "res_toString r =
      ''HTTP/'' @ resVersion r @ '' '' @ int_to_dec (resStatus r) @ '' '' @ httpStatusToString (resStatus r) @ CRLF @
      concat (map header_line hs) @ CRLF @ resBody r"
    using assms(2) b(1) by (simp add: hs res_toString_def print_connection_def print_headers_lines header_line_def)
  ultimately show ?thesis using found b(2) by auto
qed

theorem response_text_well_formed_witness:
  "res_toString (res_addHeader ''a'' ''b'' (res_setBody ''hi'' (newHttpResponse ''1.1'' False))) =
      ''HTTP/'' @ ''1.1'' @ '' '' @ int_to_dec 200 @ '' '' @ httpStatusToString 200 @ CRLF @
      concat (map header_line [(''connection'', ''close''), (''a'', ''b''), (''content-length'', to_dec 2)]) @ CRLF @ ''hi''"
proof -
  let ?r = "res_addHeader ''a'' ''b'' (res_setBody ''hi'' (newHttpResponse ''1.1'' False))"
  let ?hs = "[(''connection'', ''close''), (''a'', ''b''), (''content-length'', to_dec 2)]"
  have "?hs = (''connection'', if resKeepAlive ?r then ''keep-alive'' else ''close'') #
      filter (\<lambda>(k, v). \<not> same_name ''connection'' k) (resHeaders ?r) @
      (if resBody ?r \<noteq> [] \<and> named ''content-length'' (resHeaders ?r) = []
       then [(''content-length'', to_dec (length (resBody ?r)))] else [])"
    by code_simp
  from response_text_well_formed [OF _ _ this] have "res_toString ?r =
      ''HTTP/'' @ resVersion ?r @ '' '' @ int_to_dec (resStatus ?r) @ '' '' @ httpStatusToString (resStatus ?r) @ CRLF @
      concat (map header_line ?hs) @ CRLF @ resBody ?r"
    by (simp add: res_setBody_def res_addHeader_def newHttpResponse_def)
  then show ?thesis by (simp add: res_setBody_def res_addHeader_def newHttpResponse_def)
qed

end
