(* ===== verification/Http_Parser_State.thy ===== *)
theory Http_Parser_State
  imports Http_Define
begin

text \<open>
  The types of \<open>src/http/http_parser.h\<close> and of the head of \<open>src/http/http_parser.cpp\<close>: the
  states of the parser, the states of the header automaton, the error numbers, the flags,
  \<open>struct http_parser\<close>, \<open>struct http_parser_settings\<close>, and the functions that only look at
  the parser: \<open>http_message_needs_eof\<close>, \<open>http_should_keep_alive\<close>, \<open>http_parser_init\<close>,
  \<open>http_parser_pause\<close>, \<open>http_body_is_final\<close> and the names of methods, statuses and errors.

  Bit fields that count (\<open>index\<close>, \<open>status_code\<close>) are naturals and wrap where they are
  written; \<open>flags\<close>, \<open>nread\<close> and \<open>content_length\<close> are words.  The user's \<open>void *data\<close> is the
  state \<open>'u\<close> the callbacks thread.
\<close>

section \<open>Enumerations\<close>

datatype (plugins only: code) parser_state =
    s_dead | s_start_req_or_res | s_res_or_resp_H | s_start_res | s_res_H | s_res_HT | s_res_HTT
  | s_res_HTTP | s_res_http_major | s_res_http_dot | s_res_http_minor | s_res_http_end
  | s_res_first_status_code | s_res_status_code | s_res_status_start | s_res_status
  | s_res_line_almost_done | s_start_req | s_req_method | s_req_spaces_before_url
  | s_req_schema | s_req_schema_slash | s_req_schema_slash_slash | s_req_server_start
  | s_req_server | s_req_server_with_at | s_req_path | s_req_query_string_start
  | s_req_query_string | s_req_fragment_start | s_req_fragment | s_req_http_start
  | s_req_http_H | s_req_http_HT | s_req_http_HTT | s_req_http_HTTP | s_req_http_I
  | s_req_http_IC | s_req_http_major | s_req_http_dot | s_req_http_minor | s_req_http_end
  | s_req_line_almost_done | s_header_field_start | s_header_field | s_header_value_discard_ws
  | s_header_value_discard_ws_almost_done | s_header_value_discard_lws | s_header_value_start
  | s_header_value | s_header_value_lws | s_header_almost_done | s_chunk_size_start
  | s_chunk_size | s_chunk_parameters | s_chunk_size_almost_done | s_headers_almost_done
  | s_headers_done | s_chunk_data | s_chunk_data_almost_done | s_chunk_data_done
  | s_body_identity | s_body_identity_eof | s_message_done

text \<open>The numbers of the enumerators: \<open>s_dead\<close> is 1, the others follow.\<close>

definition state_num :: "parser_state \<Rightarrow> nat" where
  "state_num s = (case s of
     s_dead \<Rightarrow> 1 | s_start_req_or_res \<Rightarrow> 2 | s_res_or_resp_H \<Rightarrow> 3
    | s_start_res \<Rightarrow> 4 | s_res_H \<Rightarrow> 5 | s_res_HT \<Rightarrow> 6
    | s_res_HTT \<Rightarrow> 7 | s_res_HTTP \<Rightarrow> 8 | s_res_http_major \<Rightarrow> 9
    | s_res_http_dot \<Rightarrow> 10 | s_res_http_minor \<Rightarrow> 11
    | s_res_http_end \<Rightarrow> 12 | s_res_first_status_code \<Rightarrow> 13
    | s_res_status_code \<Rightarrow> 14 | s_res_status_start \<Rightarrow> 15
    | s_res_status \<Rightarrow> 16 | s_res_line_almost_done \<Rightarrow> 17
    | s_start_req \<Rightarrow> 18 | s_req_method \<Rightarrow> 19
    | s_req_spaces_before_url \<Rightarrow> 20 | s_req_schema \<Rightarrow> 21
    | s_req_schema_slash \<Rightarrow> 22 | s_req_schema_slash_slash \<Rightarrow> 23
    | s_req_server_start \<Rightarrow> 24 | s_req_server \<Rightarrow> 25
    | s_req_server_with_at \<Rightarrow> 26 | s_req_path \<Rightarrow> 27
    | s_req_query_string_start \<Rightarrow> 28 | s_req_query_string \<Rightarrow> 29
    | s_req_fragment_start \<Rightarrow> 30 | s_req_fragment \<Rightarrow> 31
    | s_req_http_start \<Rightarrow> 32 | s_req_http_H \<Rightarrow> 33
    | s_req_http_HT \<Rightarrow> 34 | s_req_http_HTT \<Rightarrow> 35
    | s_req_http_HTTP \<Rightarrow> 36 | s_req_http_I \<Rightarrow> 37
    | s_req_http_IC \<Rightarrow> 38 | s_req_http_major \<Rightarrow> 39
    | s_req_http_dot \<Rightarrow> 40 | s_req_http_minor \<Rightarrow> 41
    | s_req_http_end \<Rightarrow> 42 | s_req_line_almost_done \<Rightarrow> 43
    | s_header_field_start \<Rightarrow> 44 | s_header_field \<Rightarrow> 45
    | s_header_value_discard_ws \<Rightarrow> 46
    | s_header_value_discard_ws_almost_done \<Rightarrow> 47
    | s_header_value_discard_lws \<Rightarrow> 48 | s_header_value_start \<Rightarrow> 49
    | s_header_value \<Rightarrow> 50 | s_header_value_lws \<Rightarrow> 51
    | s_header_almost_done \<Rightarrow> 52 | s_chunk_size_start \<Rightarrow> 53
    | s_chunk_size \<Rightarrow> 54 | s_chunk_parameters \<Rightarrow> 55
    | s_chunk_size_almost_done \<Rightarrow> 56 | s_headers_almost_done \<Rightarrow> 57
    | s_headers_done \<Rightarrow> 58 | s_chunk_data \<Rightarrow> 59
    | s_chunk_data_almost_done \<Rightarrow> 60 | s_chunk_data_done \<Rightarrow> 61
    | s_body_identity \<Rightarrow> 62 | s_body_identity_eof \<Rightarrow> 63
    | s_message_done \<Rightarrow> 64)"

definition all_parser_states :: "parser_state list" where
  "all_parser_states =
   [s_dead, s_start_req_or_res, s_res_or_resp_H, s_start_res, s_res_H, s_res_HT, s_res_HTT,
    s_res_HTTP, s_res_http_major, s_res_http_dot, s_res_http_minor, s_res_http_end,
    s_res_first_status_code, s_res_status_code, s_res_status_start, s_res_status,
    s_res_line_almost_done, s_start_req, s_req_method, s_req_spaces_before_url, s_req_schema,
    s_req_schema_slash, s_req_schema_slash_slash, s_req_server_start, s_req_server,
    s_req_server_with_at, s_req_path, s_req_query_string_start, s_req_query_string,
    s_req_fragment_start, s_req_fragment, s_req_http_start, s_req_http_H, s_req_http_HT,
    s_req_http_HTT, s_req_http_HTTP, s_req_http_I, s_req_http_IC, s_req_http_major,
    s_req_http_dot, s_req_http_minor, s_req_http_end, s_req_line_almost_done,
    s_header_field_start, s_header_field, s_header_value_discard_ws,
    s_header_value_discard_ws_almost_done, s_header_value_discard_lws, s_header_value_start,
    s_header_value, s_header_value_lws, s_header_almost_done, s_chunk_size_start, s_chunk_size,
    s_chunk_parameters, s_chunk_size_almost_done, s_headers_almost_done, s_headers_done,
    s_chunk_data, s_chunk_data_almost_done, s_chunk_data_done, s_body_identity,
    s_body_identity_eof, s_message_done]"

lemma state_of_num: "all_parser_states ! (state_num s - 1) = s"
  by (cases s) (simp_all add: state_num_def all_parser_states_def)

lemma state_num_pos: "0 < state_num s"
  by (cases s) (simp_all add: state_num_def)

lemma state_num_inj: "state_num s = state_num t \<longleftrightarrow> s = t"
  by (metis state_of_num)

instantiation parser_state :: linorder
begin

definition less_eq_parser_state :: "parser_state \<Rightarrow> parser_state \<Rightarrow> bool" where
  "less_eq_parser_state s t \<longleftrightarrow> state_num s \<le> state_num t"

definition less_parser_state :: "parser_state \<Rightarrow> parser_state \<Rightarrow> bool" where
  "less_parser_state s t \<longleftrightarrow> state_num s < state_num t"

instance
  by standard (auto simp: less_eq_parser_state_def less_parser_state_def state_num_inj)

end

definition PARSING_HEADER :: "parser_state \<Rightarrow> bool" where
  "PARSING_HEADER s \<longleftrightarrow> s \<le> s_headers_done"

datatype (plugins only: code) header_states =
    h_general | h_C | h_CO | h_CON | h_matching_connection | h_matching_proxy_connection
  | h_matching_content_length | h_matching_transfer_encoding | h_matching_upgrade
  | h_connection | h_content_length | h_content_length_num | h_content_length_ws
  | h_transfer_encoding | h_upgrade | h_matching_transfer_encoding_token_start
  | h_matching_transfer_encoding_chunked | h_matching_transfer_encoding_token
  | h_matching_connection_token_start | h_matching_connection_keep_alive
  | h_matching_connection_close | h_matching_connection_upgrade | h_matching_connection_token
  | h_transfer_encoding_chunked | h_connection_keep_alive | h_connection_close
  | h_connection_upgrade

datatype (plugins only: code) http_host_state =
    s_http_host_dead | s_http_userinfo_start | s_http_userinfo | s_http_host_start
  | s_http_host_v6_start | s_http_host | s_http_host_v6 | s_http_host_v6_end
  | s_http_host_v6_zone_start | s_http_host_v6_zone | s_http_host_port_start
  | s_http_host_port

datatype (plugins only: code) http_parser_type = HTTP_REQUEST | HTTP_RESPONSE | HTTP_BOTH

datatype (plugins only: code) http_errno =
    HPE_OK | HPE_CB_message_begin | HPE_CB_url | HPE_CB_header_field | HPE_CB_header_value
  | HPE_CB_headers_complete | HPE_CB_body | HPE_CB_message_complete | HPE_CB_status
  | HPE_CB_chunk_header | HPE_CB_chunk_complete | HPE_INVALID_EOF_STATE | HPE_HEADER_OVERFLOW
  | HPE_CLOSED_CONNECTION | HPE_INVALID_VERSION | HPE_INVALID_STATUS | HPE_INVALID_METHOD
  | HPE_INVALID_URL | HPE_INVALID_HOST | HPE_INVALID_PORT | HPE_INVALID_PATH
  | HPE_INVALID_QUERY_STRING | HPE_INVALID_FRAGMENT | HPE_LF_EXPECTED
  | HPE_INVALID_HEADER_TOKEN | HPE_INVALID_CONTENT_LENGTH | HPE_UNEXPECTED_CONTENT_LENGTH
  | HPE_INVALID_CHUNK_SIZE | HPE_INVALID_CONSTANT | HPE_INVALID_INTERNAL_STATE | HPE_STRICT
  | HPE_PAUSED | HPE_UNKNOWN | HPE_INVALID_TRANSFER_ENCODING

definition http_strerror_tab :: "(string \<times> string) list" where
  "http_strerror_tab =
   [(''HPE_OK'', ''success''),
    (''HPE_CB_message_begin'', ''the on_message_begin callback failed''),
    (''HPE_CB_url'', ''the on_url callback failed''),
    (''HPE_CB_header_field'', ''the on_header_field callback failed''),
    (''HPE_CB_header_value'', ''the on_header_value callback failed''),
    (''HPE_CB_headers_complete'', ''the on_headers_complete callback failed''),
    (''HPE_CB_body'', ''the on_body callback failed''),
    (''HPE_CB_message_complete'', ''the on_message_complete callback failed''),
    (''HPE_CB_status'', ''the on_status callback failed''),
    (''HPE_CB_chunk_header'', ''the on_chunk_header callback failed''),
    (''HPE_CB_chunk_complete'', ''the on_chunk_complete callback failed''),
    (''HPE_INVALID_EOF_STATE'', ''stream ended at an unexpected time''),
    (''HPE_HEADER_OVERFLOW'', ''too many header bytes seen; overflow detected''),
    (''HPE_CLOSED_CONNECTION'', ''data received after completed connection: close message''),
    (''HPE_INVALID_VERSION'', ''invalid HTTP version''),
    (''HPE_INVALID_STATUS'', ''invalid HTTP status code''),
    (''HPE_INVALID_METHOD'', ''invalid HTTP method''),
    (''HPE_INVALID_URL'', ''invalid URL''),
    (''HPE_INVALID_HOST'', ''invalid host''),
    (''HPE_INVALID_PORT'', ''invalid port''),
    (''HPE_INVALID_PATH'', ''invalid path''),
    (''HPE_INVALID_QUERY_STRING'', ''invalid query string''),
    (''HPE_INVALID_FRAGMENT'', ''invalid fragment''),
    (''HPE_LF_EXPECTED'', ''LF character expected''),
    (''HPE_INVALID_HEADER_TOKEN'', ''invalid character in header''),
    (''HPE_INVALID_CONTENT_LENGTH'', ''invalid character in content-length header''),
    (''HPE_UNEXPECTED_CONTENT_LENGTH'', ''unexpected content-length header''),
    (''HPE_INVALID_CHUNK_SIZE'', ''invalid character in chunk size header''),
    (''HPE_INVALID_CONSTANT'', ''invalid constant string''),
    (''HPE_INVALID_INTERNAL_STATE'', ''encountered unexpected internal state''),
    (''HPE_STRICT'', ''strict mode assertion failed''),
    (''HPE_PAUSED'', ''parser is paused''),
    (''HPE_UNKNOWN'', ''an unknown error occurred''),
    (''HPE_INVALID_TRANSFER_ENCODING'', ''request has invalid transfer-encoding'')]"

definition errno_num :: "http_errno \<Rightarrow> nat" where
  "errno_num s = (case s of
     HPE_OK \<Rightarrow> 0 | HPE_CB_message_begin \<Rightarrow> 1 | HPE_CB_url \<Rightarrow> 2
    | HPE_CB_header_field \<Rightarrow> 3 | HPE_CB_header_value \<Rightarrow> 4
    | HPE_CB_headers_complete \<Rightarrow> 5 | HPE_CB_body \<Rightarrow> 6
    | HPE_CB_message_complete \<Rightarrow> 7 | HPE_CB_status \<Rightarrow> 8
    | HPE_CB_chunk_header \<Rightarrow> 9 | HPE_CB_chunk_complete \<Rightarrow> 10
    | HPE_INVALID_EOF_STATE \<Rightarrow> 11 | HPE_HEADER_OVERFLOW \<Rightarrow> 12
    | HPE_CLOSED_CONNECTION \<Rightarrow> 13 | HPE_INVALID_VERSION \<Rightarrow> 14
    | HPE_INVALID_STATUS \<Rightarrow> 15 | HPE_INVALID_METHOD \<Rightarrow> 16
    | HPE_INVALID_URL \<Rightarrow> 17 | HPE_INVALID_HOST \<Rightarrow> 18
    | HPE_INVALID_PORT \<Rightarrow> 19 | HPE_INVALID_PATH \<Rightarrow> 20
    | HPE_INVALID_QUERY_STRING \<Rightarrow> 21 | HPE_INVALID_FRAGMENT \<Rightarrow> 22
    | HPE_LF_EXPECTED \<Rightarrow> 23 | HPE_INVALID_HEADER_TOKEN \<Rightarrow> 24
    | HPE_INVALID_CONTENT_LENGTH \<Rightarrow> 25 | HPE_UNEXPECTED_CONTENT_LENGTH \<Rightarrow> 26
    | HPE_INVALID_CHUNK_SIZE \<Rightarrow> 27 | HPE_INVALID_CONSTANT \<Rightarrow> 28
    | HPE_INVALID_INTERNAL_STATE \<Rightarrow> 29 | HPE_STRICT \<Rightarrow> 30
    | HPE_PAUSED \<Rightarrow> 31 | HPE_UNKNOWN \<Rightarrow> 32
    | HPE_INVALID_TRANSFER_ENCODING \<Rightarrow> 33)"

section \<open>Flags\<close>

definition F_CHUNKED :: u8 where "F_CHUNKED = 1"
definition F_CONNECTION_KEEP_ALIVE :: u8 where "F_CONNECTION_KEEP_ALIVE = 2"
definition F_CONNECTION_CLOSE :: u8 where "F_CONNECTION_CLOSE = 4"
definition F_CONNECTION_UPGRADE :: u8 where "F_CONNECTION_UPGRADE = 8"
definition F_TRAILING :: u8 where "F_TRAILING = 16"
definition F_UPGRADE :: u8 where "F_UPGRADE = 32"
definition F_SKIPBODY :: u8 where "F_SKIPBODY = 64"
definition F_CONTENTLENGTH :: u8 where "F_CONTENTLENGTH = 128"

definition ULLONG_MAX :: u64 where "ULLONG_MAX = -1"

definition HTTP_MAX_HEADER_SIZE :: u32 where "HTTP_MAX_HEADER_SIZE = 80 * 1024"

section \<open>The parser\<close>

record http_parser =
  ptype :: http_parser_type
  flags :: u8
  pstate :: parser_state
  header_state :: header_states
  index :: nat
  uses_transfer_encoding :: bool
  allow_chunked_length :: bool
  lenient_http_headers :: bool
  nread :: u32
  content_length :: u64
  http_major :: nat
  http_minor :: nat
  status_code :: nat
  meth :: nat
  http_errno :: http_errno
  upgrade :: bool

definition has_flag :: "http_parser \<Rightarrow> u8 \<Rightarrow> bool" where
  "has_flag p f \<longleftrightarrow> flags p AND f \<noteq> 0"

definition set_flag :: "u8 \<Rightarrow> http_parser \<Rightarrow> http_parser" where
  "set_flag f p = p\<lparr>flags := flags p OR f\<rparr>"

text \<open>\<open>++parser->index\<close> on a field of five bits.\<close>

definition inc_index :: "http_parser \<Rightarrow> http_parser" where
  "inc_index p = p\<lparr>index := (index p + 1) mod 32\<rparr>"

text \<open>
  A callback may be absent.  It sees the parser, which it may change, and the user's state,
  and returns an \<open>int\<close>.
\<close>

type_synonym 'u http_cb = "(http_parser \<Rightarrow> 'u \<Rightarrow> int \<times> http_parser \<times> 'u) option"
type_synonym 'u http_data_cb = "(http_parser \<Rightarrow> string \<Rightarrow> 'u \<Rightarrow> int \<times> http_parser \<times> 'u) option"

record 'u http_parser_settings =
  on_message_begin :: "'u http_cb"
  on_url :: "'u http_data_cb"
  on_status :: "'u http_data_cb"
  on_header_field :: "'u http_data_cb"
  on_header_value :: "'u http_data_cb"
  on_headers_complete :: "'u http_cb"
  on_body :: "'u http_data_cb"
  on_message_complete :: "'u http_cb"
  on_chunk_header :: "'u http_cb"
  on_chunk_complete :: "'u http_cb"

definition http_parser_settings_init :: "'u http_parser_settings" where
  "http_parser_settings_init =
     \<lparr>on_message_begin = None, on_url = None, on_status = None, on_header_field = None,
      on_header_value = None, on_headers_complete = None, on_body = None,
      on_message_complete = None, on_chunk_header = None, on_chunk_complete = None\<rparr>"

section \<open>Functions of the parser alone\<close>

definition start_state :: "http_parser \<Rightarrow> parser_state" where
  "start_state p = (if ptype p = HTTP_REQUEST then s_start_req else s_start_res)"

definition http_message_needs_eof :: "http_parser \<Rightarrow> bool" where
  "http_message_needs_eof p =
     (if ptype p = HTTP_REQUEST then False
      else if status_code p div 100 = 1 \<or> status_code p = 204 \<or> status_code p = 304 \<or>
              has_flag p F_SKIPBODY then False
      else if uses_transfer_encoding p \<and> \<not> has_flag p F_CHUNKED then True
      else if has_flag p F_CHUNKED \<or> content_length p \<noteq> ULLONG_MAX then False
      else True)"

definition http_should_keep_alive :: "http_parser \<Rightarrow> bool" where
  "http_should_keep_alive p =
     (if http_major p > 0 \<and> http_minor p > 0
      then (if has_flag p F_CONNECTION_CLOSE then False else \<not> http_message_needs_eof p)
      else (if \<not> has_flag p F_CONNECTION_KEEP_ALIVE then False else \<not> http_message_needs_eof p))"

definition NEW_MESSAGE :: "http_parser \<Rightarrow> parser_state" where
  "NEW_MESSAGE p = (if http_should_keep_alive p then start_state p else s_dead)"

text \<open>\<open>memset\<close> clears every field; \<open>header_state\<close> 0 is \<open>h_general\<close>.\<close>

definition http_parser_init :: "http_parser_type \<Rightarrow> http_parser" where
  "http_parser_init t =
     \<lparr>ptype = t, flags = 0,
      pstate = (if t = HTTP_REQUEST then s_start_req
                else if t = HTTP_RESPONSE then s_start_res else s_start_req_or_res),
      header_state = h_general, index = 0, uses_transfer_encoding = False,
      allow_chunked_length = False, lenient_http_headers = False, nread = 0, content_length = 0,
      http_major = 0, http_minor = 0, status_code = 0, meth = 0, http_errno = HPE_OK,
      upgrade = False\<rparr>"

definition http_parser_pause :: "http_parser \<Rightarrow> bool \<Rightarrow> fault + http_parser" where
  "http_parser_pause p paused =
     (if http_errno p = HPE_OK \<or> http_errno p = HPE_PAUSED
      then Inr (p\<lparr>http_errno := (if paused then HPE_PAUSED else HPE_OK)\<rparr>)
      else Inl Assert_Failed)"

definition http_body_is_final :: "http_parser \<Rightarrow> bool" where
  "http_body_is_final p \<longleftrightarrow> pstate p = s_message_done"

definition http_method_str :: "nat \<Rightarrow> string" where
  "http_method_str m = (if m < length method_strings then method_strings ! m else ''<unknown>'')"

definition http_status_str :: "int \<Rightarrow> string" where
  "http_status_str s = msg_of_status HTTP_STATUS_MAP s"

definition http_errno_name :: "http_errno \<Rightarrow> fault + string" where
  "http_errno_name err =
     (if errno_num err < length http_strerror_tab then Inr (fst (http_strerror_tab ! errno_num err))
      else Inl Assert_Failed)"

definition http_errno_description :: "http_errno \<Rightarrow> fault + string" where
  "http_errno_description err =
     (if errno_num err < length http_strerror_tab then Inr (snd (http_strerror_tab ! errno_num err))
      else Inl Assert_Failed)"

definition http_parser_version :: nat where
  "http_parser_version = 2 * 0x10000 OR 9 * 0x100 OR 4"

section \<open>Lemmas on flags and enumerations\<close>

lemmas flag_defs = F_CHUNKED_def F_CONNECTION_KEEP_ALIVE_def F_CONNECTION_CLOSE_def
  F_CONNECTION_UPGRADE_def F_TRAILING_def F_UPGRADE_def F_SKIPBODY_def F_CONTENTLENGTH_def

lemma has_flag_cong: "flags p = flags q \<Longrightarrow> has_flag p f = has_flag q f"
  by (simp add: has_flag_def)

lemma has_flag_set_flag_mono: "has_flag p f \<Longrightarrow> has_flag (set_flag g p) f"
  by (auto simp: has_flag_def set_flag_def bit_eq_iff bit_and_iff bit_or_iff)

lemma set_flag_sel [simp]:
  "ptype (set_flag f p) = ptype p" "pstate (set_flag f p) = pstate p"
  "header_state (set_flag f p) = header_state p" "index (set_flag f p) = index p"
  "uses_transfer_encoding (set_flag f p) = uses_transfer_encoding p"
  "allow_chunked_length (set_flag f p) = allow_chunked_length p"
  "lenient_http_headers (set_flag f p) = lenient_http_headers p"
  "nread (set_flag f p) = nread p" "content_length (set_flag f p) = content_length p"
  "http_major (set_flag f p) = http_major p" "http_minor (set_flag f p) = http_minor p"
  "status_code (set_flag f p) = status_code p" "meth (set_flag f p) = meth p"
  "http_errno (set_flag f p) = http_errno p" "upgrade (set_flag f p) = upgrade p"
  by (simp_all add: set_flag_def)

lemma inc_index_sel [simp]:
  "ptype (inc_index p) = ptype p" "pstate (inc_index p) = pstate p" "flags (inc_index p) = flags p"
  "header_state (inc_index p) = header_state p" "index (inc_index p) = (index p + 1) mod 32"
  "uses_transfer_encoding (inc_index p) = uses_transfer_encoding p"
  "allow_chunked_length (inc_index p) = allow_chunked_length p"
  "lenient_http_headers (inc_index p) = lenient_http_headers p"
  "nread (inc_index p) = nread p" "content_length (inc_index p) = content_length p"
  "http_major (inc_index p) = http_major p" "http_minor (inc_index p) = http_minor p"
  "status_code (inc_index p) = status_code p" "meth (inc_index p) = meth p"
  "http_errno (inc_index p) = http_errno p" "upgrade (inc_index p) = upgrade p"
  by (simp_all add: inc_index_def)

lemma header_states_before_body:
  "PARSING_HEADER s \<longleftrightarrow> s \<notin> {s_chunk_data, s_chunk_data_almost_done, s_chunk_data_done,
                           s_body_identity, s_body_identity_eof, s_message_done}"
  by (cases s) (simp_all add: PARSING_HEADER_def less_eq_parser_state_def state_num_def)

lemma errno_table_complete: "errno_num e < length http_strerror_tab"
  by (cases e) (simp_all add: errno_num_def http_strerror_tab_def)

end
