(* ===== verification/Http_Exec.thy ===== *)
theory Http_Exec
  imports Http_Chars Http_Parser_State
begin

text \<open>
  The frame of \<open>http_parser_execute\<close> in \<open>src/http/http_parser.cpp\<close>: its local variables, the
  ways control leaves a \<open>case\<close> of its switch, and the macros the cases are written with.

  \<open>xstate\<close> holds the parser, the user's state and the locals \<open>p_state\<close>, \<open>nread\<close>, \<open>p\<close>, \<open>ch\<close> and
  the five marks; a pointer into \<open>data\<close> is its offset.  A case ends in \<open>Break\<close> (the next byte),
  \<open>Reexec\<close> (\<open>goto reexecute\<close>), \<open>Goto_error\<close>, \<open>Return\<close>, or in \<open>Abort\<close>, which stands for a
  failed \<open>assert\<close> and for a read outside an array.  Macros that may leave the case take the
  rest of the case as a continuation.
\<close>

record 'u env =
  settings :: "'u http_parser_settings"
  data :: string
  max_header_size :: u32
  lenient :: bool
  allow_chunked :: bool

record 'u xstate =
  xp :: http_parser
  xst :: parser_state
  xnread :: u32
  xpos :: nat
  xch :: char
  xusr :: 'u
  header_field_mark :: "nat option"
  header_value_mark :: "nat option"
  url_mark :: "nat option"
  body_mark :: "nat option"
  status_mark :: "nat option"

datatype 'u ctl =
    Break "'u xstate"
  | Reexec "'u xstate"
  | Goto_error "'u xstate"
  | Return nat "'u xstate"
  | Abort fault

section \<open>Macros\<close>

definition SET_ERRNO :: "http_errno \<Rightarrow> 'u xstate \<Rightarrow> 'u xstate" where
  "SET_ERRNO e x = x\<lparr>xp := (xp x)\<lparr>nread := xnread x, http_errno := e\<rparr>\<rparr>"

abbreviation UPDATE_STATE :: "parser_state \<Rightarrow> 'u xstate \<Rightarrow> 'u xstate" where
  "UPDATE_STATE s x \<equiv> x\<lparr>xst := s\<rparr>"

abbreviation on_parser :: "(http_parser \<Rightarrow> http_parser) \<Rightarrow> 'u xstate \<Rightarrow> 'u xstate" where
  "on_parser f x \<equiv> x\<lparr>xp := f (xp x)\<rparr>"

text \<open>\<open>SET_ERRNO(e); goto error;\<close>\<close>

abbreviation err :: "http_errno \<Rightarrow> 'u xstate \<Rightarrow> 'u ctl" where
  "err e x \<equiv> Goto_error (SET_ERRNO e x)"

definition RETURN :: "nat \<Rightarrow> 'u xstate \<Rightarrow> 'u ctl" where
  "RETURN v x = Return v (x\<lparr>xp := (xp x)\<lparr>nread := xnread x, pstate := xst x\<rparr>\<rparr>)"

definition STRICT_CHECK :: "bool \<Rightarrow> 'u xstate \<Rightarrow> ('u xstate \<Rightarrow> 'u ctl) \<Rightarrow> 'u ctl" where
  "STRICT_CHECK cond x k = (if cond then err HPE_STRICT x else k x)"

definition ASSERT :: "bool \<Rightarrow> 'u ctl \<Rightarrow> 'u ctl" where
  "ASSERT b r = (if b then r else Abort Assert_Failed)"

definition COUNT_HEADER_SIZE :: "'u env \<Rightarrow> nat \<Rightarrow> 'u xstate \<Rightarrow> ('u xstate \<Rightarrow> 'u ctl) \<Rightarrow> 'u ctl" where
  "COUNT_HEADER_SIZE env v x k =
     (let x = x\<lparr>xnread := xnread x + of_nat v\<rparr>
      in if max_header_size env < xnread x then err HPE_HEADER_OVERFLOW x else k x)"

text \<open>The common part of the two callback macros: the call, its result, the state it leaves.\<close>

definition after_callback ::
  "http_errno \<Rightarrow> nat \<Rightarrow> int \<times> http_parser \<times> 'u \<Rightarrow> 'u xstate \<Rightarrow> ('u xstate \<Rightarrow> 'u ctl) \<Rightarrow> 'u ctl" where
  "after_callback e er res x k =
     (let (r, p', u') = res;
          x = x\<lparr>xp := p', xusr := u'\<rparr>;
          x = (if r \<noteq> 0 then SET_ERRNO e x else x);
          x = UPDATE_STATE (pstate (xp x)) x
      in if http_errno (xp x) \<noteq> HPE_OK then Return er x else k x)"

definition CALLBACK_NOTIFY0 ::
  "'u http_cb \<Rightarrow> http_errno \<Rightarrow> nat \<Rightarrow> 'u xstate \<Rightarrow> ('u xstate \<Rightarrow> 'u ctl) \<Rightarrow> 'u ctl" where
  "CALLBACK_NOTIFY0 cb e er x k =
     ASSERT (http_errno (xp x) = HPE_OK)
       (case cb of None \<Rightarrow> k x
        | Some f \<Rightarrow> after_callback e er (f ((xp x)\<lparr>pstate := xst x\<rparr>) (xusr x))
                      (x\<lparr>xp := (xp x)\<lparr>pstate := xst x\<rparr>\<rparr>) k)"

abbreviation CALLBACK_NOTIFY ::
  "'u http_cb \<Rightarrow> http_errno \<Rightarrow> 'u xstate \<Rightarrow> ('u xstate \<Rightarrow> 'u ctl) \<Rightarrow> 'u ctl" where
  "CALLBACK_NOTIFY cb e x k \<equiv> CALLBACK_NOTIFY0 cb e (xpos x + 1) x k"

abbreviation CALLBACK_NOTIFY_NOADVANCE ::
  "'u http_cb \<Rightarrow> http_errno \<Rightarrow> 'u xstate \<Rightarrow> ('u xstate \<Rightarrow> 'u ctl) \<Rightarrow> 'u ctl" where
  "CALLBACK_NOTIFY_NOADVANCE cb e x k \<equiv> CALLBACK_NOTIFY0 cb e (xpos x) x k"

text \<open>
  \<open>stop\<close> is the end of the bytes handed over: \<open>FOR##_mark\<close> to \<open>p\<close>, or one more.  A data
  callback differs from the others in its mark, which \<open>clear\<close> resets.
\<close>

definition CALLBACK_DATA0 ::
  "'u env \<Rightarrow> 'u http_data_cb \<Rightarrow> http_errno \<Rightarrow> nat option \<Rightarrow> ('u xstate \<Rightarrow> 'u xstate) \<Rightarrow> nat \<Rightarrow> nat \<Rightarrow>
   'u xstate \<Rightarrow> ('u xstate \<Rightarrow> 'u ctl) \<Rightarrow> 'u ctl" where
  "CALLBACK_DATA0 env cb e mark clear stop er x k =
     ASSERT (http_errno (xp x) = HPE_OK)
       (case mark of None \<Rightarrow> k x
        | Some mk \<Rightarrow>
            (if stop < mk \<or> length (data env) < stop then Abort Out_Of_Range
             else case cb of None \<Rightarrow> k (clear x)
                  | Some f \<Rightarrow>
                      after_callback e er
                        (f ((xp x)\<lparr>pstate := xst x\<rparr>) (take (stop - mk) (drop mk (data env))) (xusr x))
                        (x\<lparr>xp := (xp x)\<lparr>pstate := xst x\<rparr>\<rparr>) (\<lambda>x. k (clear x))))"

text \<open>The data callbacks by name; \<open>adv\<close> is 1 when the current byte is consumed.\<close>

definition data_header_field :: "'u env \<Rightarrow> nat \<Rightarrow> 'u xstate \<Rightarrow> ('u xstate \<Rightarrow> 'u ctl) \<Rightarrow> 'u ctl" where
  "data_header_field env adv x k =
     CALLBACK_DATA0 env (on_header_field (settings env)) HPE_CB_header_field (header_field_mark x)
       (\<lambda>x. x\<lparr>header_field_mark := None\<rparr>) (xpos x) (xpos x + adv) x k"

definition data_header_value :: "'u env \<Rightarrow> nat \<Rightarrow> 'u xstate \<Rightarrow> ('u xstate \<Rightarrow> 'u ctl) \<Rightarrow> 'u ctl" where
  "data_header_value env adv x k =
     CALLBACK_DATA0 env (on_header_value (settings env)) HPE_CB_header_value (header_value_mark x)
       (\<lambda>x. x\<lparr>header_value_mark := None\<rparr>) (xpos x) (xpos x + adv) x k"

definition data_url :: "'u env \<Rightarrow> nat \<Rightarrow> 'u xstate \<Rightarrow> ('u xstate \<Rightarrow> 'u ctl) \<Rightarrow> 'u ctl" where
  "data_url env adv x k =
     CALLBACK_DATA0 env (on_url (settings env)) HPE_CB_url (url_mark x)
       (\<lambda>x. x\<lparr>url_mark := None\<rparr>) (xpos x) (xpos x + adv) x k"

definition data_status :: "'u env \<Rightarrow> nat \<Rightarrow> 'u xstate \<Rightarrow> ('u xstate \<Rightarrow> 'u ctl) \<Rightarrow> 'u ctl" where
  "data_status env adv x k =
     CALLBACK_DATA0 env (on_status (settings env)) HPE_CB_status (status_mark x)
       (\<lambda>x. x\<lparr>status_mark := None\<rparr>) (xpos x) (xpos x + adv) x k"

text \<open>The body callback is also called with one more byte than the others.\<close>

definition data_body :: "'u env \<Rightarrow> nat \<Rightarrow> nat \<Rightarrow> 'u xstate \<Rightarrow> ('u xstate \<Rightarrow> 'u ctl) \<Rightarrow> 'u ctl" where
  "data_body env stop er x k =
     CALLBACK_DATA0 env (on_body (settings env)) HPE_CB_body (body_mark x)
       (\<lambda>x. x\<lparr>body_mark := None\<rparr>) stop er x k"

definition MARK :: "nat option \<Rightarrow> nat \<Rightarrow> nat option" where
  "MARK m p = (case m of None \<Rightarrow> Some p | Some q \<Rightarrow> Some q)"

section \<open>The automaton of URLs\<close>

definition url_authority_char :: "char \<Rightarrow> parser_state" where
  "url_authority_char ch =
     (if ch = CHR ''/'' then s_req_path
      else if ch = CHR ''?'' then s_req_query_string_start
      else if ch = CHR ''@'' then s_req_server_with_at
      else if IS_USERINFO_CHAR ch \<or> ch = CHR ''['' \<or> ch = CHR '']'' then s_req_server
      else s_dead)"

definition parse_url_char :: "parser_state \<Rightarrow> char \<Rightarrow> parser_state" where
  "parse_url_char s ch =
     (if ch = CHR '' '' \<or> ch = CR \<or> ch = LF then s_dead
      else if ch = HT \<or> ch = FF then s_dead
      else case s of
        s_req_spaces_before_url \<Rightarrow>
          (if ch = CHR ''/'' \<or> ch = CHR ''*'' then s_req_path
           else if IS_ALPHA ch then s_req_schema else s_dead)
      | s_req_schema \<Rightarrow>
          (if IS_ALPHA ch then s else if ch = CHR '':'' then s_req_schema_slash else s_dead)
      | s_req_schema_slash \<Rightarrow> (if ch = CHR ''/'' then s_req_schema_slash_slash else s_dead)
      | s_req_schema_slash_slash \<Rightarrow> (if ch = CHR ''/'' then s_req_server_start else s_dead)
      | s_req_server_with_at \<Rightarrow> (if ch = CHR ''@'' then s_dead else url_authority_char ch)
      | s_req_server_start \<Rightarrow> url_authority_char ch
      | s_req_server \<Rightarrow> url_authority_char ch
      | s_req_path \<Rightarrow>
          (if IS_URL_CHAR ch then s
           else if ch = CHR ''?'' then s_req_query_string_start
           else if ch = CHR ''#'' then s_req_fragment_start else s_dead)
      | s_req_query_string_start \<Rightarrow>
          (if IS_URL_CHAR ch then s_req_query_string
           else if ch = CHR ''?'' then s_req_query_string
           else if ch = CHR ''#'' then s_req_fragment_start else s_dead)
      | s_req_query_string \<Rightarrow>
          (if IS_URL_CHAR ch then s_req_query_string
           else if ch = CHR ''?'' then s_req_query_string
           else if ch = CHR ''#'' then s_req_fragment_start else s_dead)
      | s_req_fragment_start \<Rightarrow>
          (if IS_URL_CHAR ch then s_req_fragment
           else if ch = CHR ''?'' then s_req_fragment
           else if ch = CHR ''#'' then s else s_dead)
      | s_req_fragment \<Rightarrow>
          (if IS_URL_CHAR ch then s
           else if ch = CHR ''?'' \<or> ch = CHR ''#'' then s else s_dead)
      | _ \<Rightarrow> s_dead)"

text \<open>The states in which the bytes belong to the URL and \<open>url_mark\<close> is set.\<close>

definition url_states :: "parser_state set" where
  "url_states = {s_req_schema, s_req_schema_slash, s_req_schema_slash_slash, s_req_server_start,
     s_req_server, s_req_server_with_at, s_req_path, s_req_query_string_start,
     s_req_query_string, s_req_fragment_start, s_req_fragment}"

lemma url_authority_char_range: "url_authority_char ch = s_dead \<or> url_authority_char ch \<in> url_states"
  by (simp add: url_authority_char_def url_states_def)

lemma parse_url_char_range: "parse_url_char s ch = s_dead \<or> parse_url_char s ch \<in> url_states"
  using url_authority_char_range [of ch]
  by (cases s) (simp_all add: parse_url_char_def url_states_def)

lemma parse_url_char_stop:
  "ch = CHR '' '' \<or> ch = CR \<or> ch = LF \<or> ch = HT \<or> ch = FF \<Longrightarrow> parse_url_char s ch = s_dead"
  by (auto simp: parse_url_char_def)

end
