(* ===== verification/Http_Line.thy ===== *)
theory Http_Line
  imports Http_Exec
begin

text \<open>
  The cases of \<open>http_parser_execute\<close> for the first line of a message: the status line of a
  response, the method, the URL and the version of a request
  (\<open>src/http/http_parser.cpp\<close> 722-1205).
\<close>

section \<open>Between messages\<close>

definition case_dead :: "'u env \<Rightarrow> 'u xstate \<Rightarrow> 'u ctl" where
  "case_dead env x =
     (if xch x = CR \<or> xch x = LF then Break x else err HPE_CLOSED_CONNECTION x)"

text \<open>\<open>flags\<close>, \<open>uses_transfer_encoding\<close> and \<open>content_length\<close> as every message starts with them.\<close>

definition reset_message :: "http_parser \<Rightarrow> http_parser" where
  "reset_message p = p\<lparr>flags := 0, uses_transfer_encoding := False, content_length := ULLONG_MAX\<rparr>"

definition case_start_req_or_res :: "'u env \<Rightarrow> 'u xstate \<Rightarrow> 'u ctl" where
  "case_start_req_or_res env x =
     (if xch x = CR \<or> xch x = LF then Break x
      else let x = on_parser reset_message x
           in if xch x = CHR ''H''
              then CALLBACK_NOTIFY (on_message_begin (settings env)) HPE_CB_message_begin
                     (UPDATE_STATE s_res_or_resp_H x) Break
              else Reexec (UPDATE_STATE s_start_req (on_parser (\<lambda>p. p\<lparr>ptype := HTTP_REQUEST\<rparr>) x)))"

definition case_res_or_resp_H :: "'u env \<Rightarrow> 'u xstate \<Rightarrow> 'u ctl" where
  "case_res_or_resp_H env x =
     (if xch x = CHR ''T''
      then Break (UPDATE_STATE s_res_HT (on_parser (\<lambda>p. p\<lparr>ptype := HTTP_RESPONSE\<rparr>) x))
      else if xch x \<noteq> CHR ''E'' then err HPE_INVALID_CONSTANT x
      else Break (UPDATE_STATE s_req_method
             (on_parser (\<lambda>p. p\<lparr>ptype := HTTP_REQUEST, meth := HTTP_HEAD, index := 2\<rparr>) x)))"

definition case_start_res :: "'u env \<Rightarrow> 'u xstate \<Rightarrow> 'u ctl" where
  "case_start_res env x =
     (if xch x = CR \<or> xch x = LF then Break x
      else let x = on_parser reset_message x
           in if xch x = CHR ''H''
              then CALLBACK_NOTIFY (on_message_begin (settings env)) HPE_CB_message_begin
                     (UPDATE_STATE s_res_H x) Break
              else err HPE_INVALID_CONSTANT x)"

section \<open>The status line\<close>

text \<open>A case that accepts one character and nothing else.\<close>

definition case_expect :: "char \<Rightarrow> parser_state \<Rightarrow> 'u xstate \<Rightarrow> 'u ctl" where
  "case_expect c s x = STRICT_CHECK (xch x \<noteq> c) x (\<lambda>x. Break (UPDATE_STATE s x))"

definition digit :: "char \<Rightarrow> nat" where
  "digit ch = byte ch - 0x30"

text \<open>\<open>http_major\<close> and \<open>http_minor\<close>: the requests and the responses share the code.\<close>

definition case_http_major :: "parser_state \<Rightarrow> 'u xstate \<Rightarrow> 'u ctl" where
  "case_http_major nxt x =
     (if \<not> IS_NUM (xch x) then err HPE_INVALID_VERSION x
      else Break (UPDATE_STATE nxt (on_parser (\<lambda>p. p\<lparr>http_major := digit (xch x)\<rparr>) x)))"

definition case_http_dot :: "parser_state \<Rightarrow> 'u xstate \<Rightarrow> 'u ctl" where
  "case_http_dot nxt x =
     (if xch x \<noteq> CHR ''.'' then err HPE_INVALID_VERSION x else Break (UPDATE_STATE nxt x))"

definition case_http_minor :: "parser_state \<Rightarrow> 'u xstate \<Rightarrow> 'u ctl" where
  "case_http_minor nxt x =
     (if \<not> IS_NUM (xch x) then err HPE_INVALID_VERSION x
      else Break (UPDATE_STATE nxt (on_parser (\<lambda>p. p\<lparr>http_minor := digit (xch x)\<rparr>) x)))"

definition case_res_http_end :: "'u env \<Rightarrow> 'u xstate \<Rightarrow> 'u ctl" where
  "case_res_http_end env x =
     (if xch x \<noteq> CHR '' '' then err HPE_INVALID_VERSION x
      else Break (UPDATE_STATE s_res_first_status_code x))"

definition case_res_first_status_code :: "'u env \<Rightarrow> 'u xstate \<Rightarrow> 'u ctl" where
  "case_res_first_status_code env x =
     (if \<not> IS_NUM (xch x)
      then (if xch x = CHR '' '' then Break x else err HPE_INVALID_STATUS x)
      else Break (UPDATE_STATE s_res_status_code (on_parser (\<lambda>p. p\<lparr>status_code := digit (xch x)\<rparr>) x)))"

text \<open>\<open>status_code\<close> has 16 bits; both assignments truncate.\<close>

definition case_res_status_code :: "'u env \<Rightarrow> 'u xstate \<Rightarrow> 'u ctl" where
  "case_res_status_code env x =
     (if \<not> IS_NUM (xch x)
      then (if xch x = CHR '' '' then Break (UPDATE_STATE s_res_status_start x)
            else if xch x = CR \<or> xch x = LF then Reexec (UPDATE_STATE s_res_status_start x)
            else err HPE_INVALID_STATUS x)
      else let x = on_parser (\<lambda>p. p\<lparr>status_code := (status_code p * 10) mod 65536\<rparr>) x;
               x = on_parser (\<lambda>p. p\<lparr>status_code := (status_code p + digit (xch x)) mod 65536\<rparr>) x
           in if 999 < status_code (xp x) then err HPE_INVALID_STATUS x else Break x)"

definition case_res_status_start :: "'u env \<Rightarrow> 'u xstate \<Rightarrow> 'u ctl" where
  "case_res_status_start env x =
     (let x = x\<lparr>status_mark := MARK (status_mark x) (xpos x)\<rparr>;
          x = on_parser (\<lambda>p. p\<lparr>index := 0\<rparr>) (UPDATE_STATE s_res_status x)
      in if xch x = CR \<or> xch x = LF then Reexec x else Break x)"

definition case_res_status :: "'u env \<Rightarrow> 'u xstate \<Rightarrow> 'u ctl" where
  "case_res_status env x =
     (if xch x = CR then data_status env 1 (UPDATE_STATE s_res_line_almost_done x) Break
      else if xch x = LF then data_status env 1 (UPDATE_STATE s_header_field_start x) Break
      else Break x)"

section \<open>The method\<close>

definition first_method :: "char \<Rightarrow> nat option" where
  "first_method ch =
     (if ch = CHR ''A'' then Some HTTP_ACL
      else if ch = CHR ''B'' then Some HTTP_BIND
      else if ch = CHR ''C'' then Some HTTP_CONNECT
      else if ch = CHR ''D'' then Some HTTP_DELETE
      else if ch = CHR ''G'' then Some HTTP_GET
      else if ch = CHR ''H'' then Some HTTP_HEAD
      else if ch = CHR ''L'' then Some HTTP_LOCK
      else if ch = CHR ''M'' then Some HTTP_MKCOL
      else if ch = CHR ''N'' then Some HTTP_NOTIFY
      else if ch = CHR ''O'' then Some HTTP_OPTIONS
      else if ch = CHR ''P'' then Some HTTP_POST
      else if ch = CHR ''R'' then Some HTTP_REPORT
      else if ch = CHR ''S'' then Some HTTP_SUBSCRIBE
      else if ch = CHR ''T'' then Some HTTP_TRACE
      else if ch = CHR ''U'' then Some HTTP_UNLOCK
      else None)"

definition case_start_req :: "'u env \<Rightarrow> 'u xstate \<Rightarrow> 'u ctl" where
  "case_start_req env x =
     (if xch x = CR \<or> xch x = LF then Break x
      else let x = on_parser reset_message x
           in if \<not> IS_ALPHA (xch x) then err HPE_INVALID_METHOD x
              else let x = on_parser (\<lambda>p. p\<lparr>meth := 0, index := 1\<rparr>) x
                   in case first_method (xch x) of
                        None \<Rightarrow> err HPE_INVALID_METHOD x
                      | Some m \<Rightarrow>
                          CALLBACK_NOTIFY (on_message_begin (settings env)) HPE_CB_message_begin
                            (UPDATE_STATE s_req_method (on_parser (\<lambda>p. p\<lparr>meth := m\<rparr>) x)) Break)"

text \<open>The switch over \<open>method << 16 | index << 8 | ch\<close>.\<close>

definition method_switch :: "((nat \<times> nat \<times> char) \<times> nat) list" where
  "method_switch =
    [((HTTP_POST, 1, CHR ''U''), HTTP_PUT),
     ((HTTP_POST, 1, CHR ''A''), HTTP_PATCH),
     ((HTTP_POST, 1, CHR ''R''), HTTP_PROPFIND),
     ((HTTP_PUT, 2, CHR ''R''), HTTP_PURGE),
     ((HTTP_CONNECT, 1, CHR ''H''), HTTP_CHECKOUT),
     ((HTTP_CONNECT, 2, CHR ''P''), HTTP_COPY),
     ((HTTP_MKCOL, 1, CHR ''O''), HTTP_MOVE),
     ((HTTP_MKCOL, 1, CHR ''E''), HTTP_MERGE),
     ((HTTP_MKCOL, 1, CHR ''-''), HTTP_MSEARCH),
     ((HTTP_MKCOL, 2, CHR ''A''), HTTP_MKACTIVITY),
     ((HTTP_MKCOL, 3, CHR ''A''), HTTP_MKCALENDAR),
     ((HTTP_SUBSCRIBE, 1, CHR ''E''), HTTP_SEARCH),
     ((HTTP_SUBSCRIBE, 1, CHR ''O''), HTTP_SOURCE),
     ((HTTP_REPORT, 2, CHR ''B''), HTTP_REBIND),
     ((HTTP_PROPFIND, 4, CHR ''P''), HTTP_PROPPATCH),
     ((HTTP_LOCK, 1, CHR ''I''), HTTP_LINK),
     ((HTTP_UNLOCK, 2, CHR ''S''), HTTP_UNSUBSCRIBE),
     ((HTTP_UNLOCK, 2, CHR ''B''), HTTP_UNBIND),
     ((HTTP_UNLOCK, 3, CHR ''I''), HTTP_UNLINK)]"

text \<open>\<open>matcher[i]\<close> on a C string: the NUL after the last character is its last element.\<close>

definition cstr_at :: "string \<Rightarrow> nat \<Rightarrow> fault + char" where
  "cstr_at s i = (if i < length s then Inr (s ! i)
                  else if i = length s then Inr NUL else Inl Out_Of_Range)"

definition IS_UPPER_OR_DASH :: "char \<Rightarrow> bool" where
  "IS_UPPER_OR_DASH ch \<longleftrightarrow> (0x41 \<le> byte ch \<and> byte ch \<le> 0x5A) \<or> ch = CHR ''-''"

definition case_req_method :: "'u env \<Rightarrow> 'u xstate \<Rightarrow> 'u ctl" where
  "case_req_method env x =
     (if xch x = NUL then err HPE_INVALID_METHOD x
      else if length method_strings \<le> meth (xp x) then Abort Out_Of_Range
      else case cstr_at (method_strings ! meth (xp x)) (index (xp x)) of
        Inl e \<Rightarrow> Abort e
      | Inr m \<Rightarrow>
          (if xch x = CHR '' '' \<and> m = NUL
           then Break (on_parser inc_index (UPDATE_STATE s_req_spaces_before_url x))
           else if xch x = m then Break (on_parser inc_index x)
           else if IS_UPPER_OR_DASH (xch x)
           then (case map_of method_switch (meth (xp x), index (xp x), xch x) of
                   None \<Rightarrow> err HPE_INVALID_METHOD x
                 | Some m' \<Rightarrow> Break (on_parser (\<lambda>p. inc_index (p\<lparr>meth := m'\<rparr>)) x))
           else err HPE_INVALID_METHOD x))"

section \<open>The URL\<close>

definition url_step :: "'u xstate \<Rightarrow> 'u ctl" where
  "url_step x =
     (let x = UPDATE_STATE (parse_url_char (xst x) (xch x)) x
      in if xst x = s_dead then err HPE_INVALID_URL x else Break x)"

definition case_req_spaces_before_url :: "'u env \<Rightarrow> 'u xstate \<Rightarrow> 'u ctl" where
  "case_req_spaces_before_url env x =
     (if xch x = CHR '' '' then Break x
      else let x = x\<lparr>url_mark := MARK (url_mark x) (xpos x)\<rparr>;
               x = (if meth (xp x) = HTTP_CONNECT then UPDATE_STATE s_req_server_start x else x)
           in url_step x)"

definition case_req_schema :: "'u env \<Rightarrow> 'u xstate \<Rightarrow> 'u ctl" where
  "case_req_schema env x =
     (if xch x = CHR '' '' \<or> xch x = CR \<or> xch x = LF then err HPE_INVALID_URL x else url_step x)"

definition case_req_url :: "'u env \<Rightarrow> 'u xstate \<Rightarrow> 'u ctl" where
  "case_req_url env x =
     (if xch x = CHR '' '' then data_url env 1 (UPDATE_STATE s_req_http_start x) Break
      else if xch x = CR \<or> xch x = LF
      then data_url env 1
             (UPDATE_STATE (if xch x = CR then s_req_line_almost_done else s_header_field_start)
               (on_parser (\<lambda>p. p\<lparr>http_major := 0, http_minor := 9\<rparr>) x)) Break
      else url_step x)"

section \<open>The version of a request\<close>

definition case_req_http_start :: "'u env \<Rightarrow> 'u xstate \<Rightarrow> 'u ctl" where
  "case_req_http_start env x =
     (if xch x = CHR '' '' then Break x
      else if xch x = CHR ''H'' then Break (UPDATE_STATE s_req_http_H x)
      else if xch x = CHR ''I'' \<and> meth (xp x) = HTTP_SOURCE then Break (UPDATE_STATE s_req_http_I x)
      else err HPE_INVALID_CONSTANT x)"

definition case_req_http_end :: "'u env \<Rightarrow> 'u xstate \<Rightarrow> 'u ctl" where
  "case_req_http_end env x =
     (if xch x = CR then Break (UPDATE_STATE s_req_line_almost_done x)
      else if xch x = LF then Break (UPDATE_STATE s_header_field_start x)
      else err HPE_INVALID_VERSION x)"

definition case_req_line_almost_done :: "'u env \<Rightarrow> 'u xstate \<Rightarrow> 'u ctl" where
  "case_req_line_almost_done env x =
     (if xch x \<noteq> LF then err HPE_LF_EXPECTED x else Break (UPDATE_STATE s_header_field_start x))"

end
