(* ===== verification/Http_Header.thy ===== *)
theory Http_Header
  imports Http_Exec
begin

text \<open>
  The cases of \<open>http_parser_execute\<close> for the header fields and for the end of the headers
  (\<open>src/http/http_parser.cpp\<close> 1207-1943).  The inner loops over \<open>p\<close> are recursive functions;
  a read past the end of \<open>data\<close> is a fault in them.
\<close>

definition PROXY_CONNECTION :: string where "PROXY_CONNECTION = ''proxy-connection''"
definition CONNECTION :: string where "CONNECTION = ''connection''"
definition CONTENT_LENGTH :: string where "CONTENT_LENGTH = ''content-length''"
definition TRANSFER_ENCODING :: string where "TRANSFER_ENCODING = ''transfer-encoding''"
definition UPGRADE :: string where "UPGRADE = ''upgrade''"
definition CHUNKED :: string where "CHUNKED = ''chunked''"
definition KEEP_ALIVE :: string where "KEEP_ALIVE = ''keep-alive''"
definition CLOSE :: string where "CLOSE = ''close''"

lemmas matcher_defs = PROXY_CONNECTION_def CONNECTION_def CONTENT_LENGTH_def TRANSFER_ENCODING_def
  UPGRADE_def CHUNKED_def KEEP_ALIVE_def CLOSE_def

section \<open>The name of a field\<close>

definition first_header_state :: "char \<Rightarrow> header_states" where
  "first_header_state c =
     (if c = CHR ''c'' then h_C
      else if c = CHR ''p'' then h_matching_proxy_connection
      else if c = CHR ''t'' then h_matching_transfer_encoding
      else if c = CHR ''u'' then h_matching_upgrade
      else h_general)"

definition case_header_field_start :: "'u env \<Rightarrow> 'u xstate \<Rightarrow> 'u ctl" where
  "case_header_field_start env x =
     (if xch x = CR then Break (UPDATE_STATE s_headers_almost_done x)
      else if xch x = LF then Reexec (UPDATE_STATE s_headers_almost_done x)
      else let c = TOKEN (xch x)
           in if c = NUL then err HPE_INVALID_HEADER_TOKEN x
              else let x = x\<lparr>header_field_mark := MARK (header_field_mark x) (xpos x)\<rparr>;
                       x = UPDATE_STATE s_header_field (on_parser (\<lambda>p. p\<lparr>index := 0\<rparr>) x)
                   in Break (on_parser (\<lambda>p. p\<lparr>header_state := first_header_state c\<rparr>) x))"

text \<open>
  One byte against a matcher: \<open>index++\<close>; past the string or a different byte gives \<open>miss\<close>; the
  last byte gives \<open>hit\<close>; otherwise the state stays.  \<open>M[index]\<close> with \<open>index = sizeof(M)-1\<close> is
  the NUL.
\<close>

definition match_step ::
  "string \<Rightarrow> header_states \<Rightarrow> header_states \<Rightarrow> header_states \<Rightarrow> char \<Rightarrow> nat \<Rightarrow> header_states" where
  "match_step m stay miss hit c i =
     (if length m < i \<or> c \<noteq> (m @ [NUL]) ! i then miss
      else if i + 1 = length m then hit else stay)"

definition match_field :: "string \<Rightarrow> header_states \<Rightarrow> char \<Rightarrow> http_parser \<Rightarrow> http_parser" where
  "match_field m hit c p =
     (let p = inc_index p
      in p\<lparr>header_state := match_step m (header_state p) h_general hit c (index p)\<rparr>)"

text \<open>\<open>while (p+1 < pe && TOKEN(p[1])) p++\<close>\<close>

function skip_tokens :: "string \<Rightarrow> nat \<Rightarrow> nat \<Rightarrow> fault + nat" where
  "skip_tokens d p pe =
     (if p + 1 < pe
      then (if length d \<le> p + 1 then Inl Out_Of_Range
            else if TOKEN (d ! (p + 1)) \<noteq> NUL then skip_tokens d (p + 1) pe else Inr p)
      else Inr p)"
  by pat_completeness auto
termination by (relation "measure (\<lambda>(d, p, pe). pe - p)") auto

declare skip_tokens.simps [simp del]

definition field_limit :: "'u env \<Rightarrow> nat \<Rightarrow> nat" where
  "field_limit env p = p + min (length (data env) - p) (unat (max_header_size env))"

text \<open>
  The switch over \<open>header_state\<close> in the loop of \<open>s_header_field\<close>; \<open>h_general\<close> is the one case
  that moves \<open>p\<close>.
\<close>

definition field_char :: "char \<Rightarrow> char \<Rightarrow> http_parser \<Rightarrow> fault + http_parser" where
  "field_char ch c p =
     (case header_state p of
        h_C \<Rightarrow> Inr ((inc_index p)\<lparr>header_state := if c = CHR ''o'' then h_CO else h_general\<rparr>)
      | h_CO \<Rightarrow> Inr ((inc_index p)\<lparr>header_state := if c = CHR ''n'' then h_CON else h_general\<rparr>)
      | h_CON \<Rightarrow> Inr ((inc_index p)\<lparr>header_state :=
                   if c = CHR ''n'' then h_matching_connection
                   else if c = CHR ''t'' then h_matching_content_length else h_general\<rparr>)
      | h_matching_connection \<Rightarrow> Inr (match_field CONNECTION h_connection c p)
      | h_matching_proxy_connection \<Rightarrow> Inr (match_field PROXY_CONNECTION h_connection c p)
      | h_matching_content_length \<Rightarrow> Inr (match_field CONTENT_LENGTH h_content_length c p)
      | h_matching_transfer_encoding \<Rightarrow>
          (let p = match_field TRANSFER_ENCODING h_transfer_encoding c p
           in Inr (if header_state p = h_transfer_encoding then p\<lparr>uses_transfer_encoding := True\<rparr> else p))
      | h_matching_upgrade \<Rightarrow> Inr (match_field UPGRADE h_upgrade c p)
      | h_connection \<Rightarrow> Inr (if ch \<noteq> CHR '' '' then p\<lparr>header_state := h_general\<rparr> else p)
      | h_content_length \<Rightarrow> Inr (if ch \<noteq> CHR '' '' then p\<lparr>header_state := h_general\<rparr> else p)
      | h_transfer_encoding \<Rightarrow> Inr (if ch \<noteq> CHR '' '' then p\<lparr>header_state := h_general\<rparr> else p)
      | h_upgrade \<Rightarrow> Inr (if ch \<noteq> CHR '' '' then p\<lparr>header_state := h_general\<rparr> else p)
      | _ \<Rightarrow> Inl Assert_Failed)"

text \<open>One turn of that loop, without the increment of \<open>p\<close>: \<open>None\<close> is the \<open>break\<close>.\<close>

definition field_turn :: "'u env \<Rightarrow> 'u xstate \<Rightarrow> fault + 'u xstate option \<times> 'u xstate" where
  "field_turn env x =
     (let x = x\<lparr>xch := data env ! xpos x\<rparr>;
          c = TOKEN (xch x)
      in if c = NUL then Inr (None, x)
         else if header_state (xp x) = h_general
         then (case skip_tokens (data env) (xpos x) (field_limit env (xpos x)) of
                 Inl e \<Rightarrow> Inl e | Inr q \<Rightarrow> Inr (Some (x\<lparr>xpos := q\<rparr>), x))
         else (case field_char (xch x) c (xp x) of
                 Inl e \<Rightarrow> Inl e | Inr p \<Rightarrow> Inr (Some (x\<lparr>xp := p\<rparr>), x)))"

lemma skip_tokens_mono: "skip_tokens d p pe = Inr q \<Longrightarrow> p \<le> q"
  by (induction d p pe rule: skip_tokens.induct)
     (subst (asm) (2) skip_tokens.simps, fastforce split: if_splits)

lemma field_turn_pos: "field_turn env x = Inr (Some x', y) \<Longrightarrow> xpos x \<le> xpos x'"
  by (auto simp: field_turn_def Let_def dest: skip_tokens_mono split: if_splits sum.splits)

text \<open>\<open>for (; p != data + len; p++)\<close>\<close>

function field_loop :: "'u env \<Rightarrow> 'u xstate \<Rightarrow> fault + 'u xstate" where
  "field_loop env x =
     (if xpos x = length (data env) then Inr x
      else if length (data env) < xpos x then Inl Out_Of_Range
      else case field_turn env x of
             Inl e \<Rightarrow> Inl e
           | Inr (None, y) \<Rightarrow> Inr y
           | Inr (Some x', _) \<Rightarrow> field_loop env (x'\<lparr>xpos := xpos x' + 1\<rparr>))"
  by pat_completeness auto
termination
  by (relation "measure (\<lambda>(env, x). length (data env) - xpos x)") (auto dest: field_turn_pos)

declare field_loop.simps [simp del]

definition case_header_field :: "'u env \<Rightarrow> 'u xstate \<Rightarrow> 'u ctl" where
  "case_header_field env x =
     (let start = xpos x
      in case field_loop env x of
           Inl e \<Rightarrow> Abort e
         | Inr x \<Rightarrow>
             (if xpos x = length (data env)
              then let x = x\<lparr>xpos := xpos x - 1\<rparr>
                   in COUNT_HEADER_SIZE env (xpos x - start) x Break
              else COUNT_HEADER_SIZE env (xpos x - start) x (\<lambda>x.
                     if xch x = CHR '':''
                     then data_header_field env 1 (UPDATE_STATE s_header_value_discard_ws x) Break
                     else err HPE_INVALID_HEADER_TOKEN x)))"

section \<open>The start of a value\<close>

text \<open>The switch over \<open>header_state\<close>: \<open>Inl\<close> is \<open>SET_ERRNO; goto error\<close>.\<close>

definition value_start :: "char \<Rightarrow> http_parser \<Rightarrow> http_errno + http_parser" where
  "value_start ch p =
     (let c = LOWER ch
      in case header_state p of
           h_upgrade \<Rightarrow> Inr ((set_flag F_UPGRADE p)\<lparr>header_state := h_general\<rparr>)
         | h_transfer_encoding \<Rightarrow>
             Inr (p\<lparr>header_state := if c = CHR ''c'' then h_matching_transfer_encoding_chunked
                                    else h_matching_transfer_encoding_token\<rparr>)
         | h_matching_transfer_encoding_token_start \<Rightarrow> Inr p
         | h_content_length \<Rightarrow>
             (if \<not> IS_NUM ch then Inl HPE_INVALID_CONTENT_LENGTH
              else if has_flag p F_CONTENTLENGTH then Inl HPE_UNEXPECTED_CONTENT_LENGTH
              else Inr ((set_flag F_CONTENTLENGTH p)
                     \<lparr>content_length := of_nat (byte ch - 0x30), header_state := h_content_length_num\<rparr>))
         | h_content_length_ws \<Rightarrow> Inr p
         | h_connection \<Rightarrow>
             Inr (p\<lparr>header_state := if c = CHR ''k'' then h_matching_connection_keep_alive
                                    else if c = CHR ''c'' then h_matching_connection_close
                                    else if c = CHR ''u'' then h_matching_connection_upgrade
                                    else h_matching_connection_token\<rparr>)
         | h_matching_connection_token_start \<Rightarrow> Inr p
         | _ \<Rightarrow> Inr (p\<lparr>header_state := h_general\<rparr>))"

definition case_header_value_start :: "'u env \<Rightarrow> 'u xstate \<Rightarrow> 'u ctl" where
  "case_header_value_start env x =
     (let x = x\<lparr>header_value_mark := MARK (header_value_mark x) (xpos x)\<rparr>;
          x = on_parser (\<lambda>p. p\<lparr>index := 0\<rparr>) (UPDATE_STATE s_header_value x)
      in case value_start (xch x) (xp x) of
           Inl e \<Rightarrow> err e x
         | Inr p \<Rightarrow> Break (x\<lparr>xp := p\<rparr>))"

definition case_header_value_discard_ws :: "'u env \<Rightarrow> 'u xstate \<Rightarrow> 'u ctl" where
  "case_header_value_discard_ws env x =
     (if xch x = CHR '' '' \<or> xch x = HT then Break x
      else if xch x = CR then Break (UPDATE_STATE s_header_value_discard_ws_almost_done x)
      else if xch x = LF then Break (UPDATE_STATE s_header_value_discard_lws x)
      else case_header_value_start env x)"

section \<open>The value of a field\<close>

text \<open>
  What one byte of a value does to the parser and to the local \<open>h_state\<close>: \<open>Inr\<close> the new pair,
  \<open>Inl None\<close> a failed assertion, \<open>Inl (Some h)\<close> \<open>HPE_INVALID_CONTENT_LENGTH\<close> with \<open>h_state = h\<close>.
\<close>

type_synonym value_result = "header_states option + header_states \<times> http_parser"

definition content_length_digit :: "char \<Rightarrow> http_parser \<Rightarrow> value_result" where
  "content_length_digit ch p =
     (if ch = CHR '' '' then Inr (h_content_length_ws, p)
      else if \<not> IS_NUM ch then Inl (Some h_content_length_num)
      else let t = content_length p * 10 + of_nat (byte ch - 0x30)
           in if (ULLONG_MAX - 10) div 10 < content_length p then Inl (Some h_content_length_num)
              else Inr (h_content_length_num, p\<lparr>content_length := t\<rparr>))"

definition match_value ::
  "string \<Rightarrow> header_states \<Rightarrow> header_states \<Rightarrow> header_states \<Rightarrow> char \<Rightarrow> http_parser \<Rightarrow> value_result" where
  "match_value m stay miss hit c p =
     (let p = inc_index p in Inr (match_step m stay miss hit c (index p), p))"

definition connection_flag :: "header_states \<Rightarrow> http_parser \<Rightarrow> http_parser" where
  "connection_flag h p =
     (if h = h_connection_keep_alive then set_flag F_CONNECTION_KEEP_ALIVE p
      else if h = h_connection_close then set_flag F_CONNECTION_CLOSE p
      else if h = h_connection_upgrade then set_flag F_CONNECTION_UPGRADE p
      else p)"

definition connection_done :: "char \<Rightarrow> header_states \<Rightarrow> http_parser \<Rightarrow> value_result" where
  "connection_done ch h p =
     (if ch = CHR '','' then Inr (h_matching_connection_token_start, (connection_flag h p)\<lparr>index := 0\<rparr>)
      else if ch \<noteq> CHR '' '' then Inr (h_matching_connection_token, p)
      else Inr (h, p))"

definition value_char :: "char \<Rightarrow> header_states \<Rightarrow> http_parser \<Rightarrow> value_result" where
  "value_char ch h p =
     (let c = LOWER ch
      in case h of
           h_connection \<Rightarrow> Inl None
         | h_transfer_encoding \<Rightarrow> Inl None
         | h_content_length \<Rightarrow>
             (if ch = CHR '' '' then Inr (h, p) else content_length_digit ch p)
         | h_content_length_num \<Rightarrow> content_length_digit ch p
         | h_content_length_ws \<Rightarrow>
             (if ch = CHR '' '' then Inr (h, p) else Inl (Some h_content_length_ws))
         | h_matching_transfer_encoding_token_start \<Rightarrow>
             Inr (if c = CHR ''c'' then h_matching_transfer_encoding_chunked
                  else if STRICT_TOKEN c \<noteq> NUL then h_matching_transfer_encoding_token
                  else if c = CHR '' '' \<or> c = HT then h
                  else h_general, p)
         | h_matching_transfer_encoding_chunked \<Rightarrow>
             match_value CHUNKED h h_matching_transfer_encoding_token h_transfer_encoding_chunked c p
         | h_matching_transfer_encoding_token \<Rightarrow>
             (if ch = CHR '','' then Inr (h_matching_transfer_encoding_token_start, p\<lparr>index := 0\<rparr>)
              else Inr (h, p))
         | h_matching_connection_token_start \<Rightarrow>
             Inr (if c = CHR ''k'' then h_matching_connection_keep_alive
                  else if c = CHR ''c'' then h_matching_connection_close
                  else if c = CHR ''u'' then h_matching_connection_upgrade
                  else if STRICT_TOKEN c \<noteq> NUL then h_matching_connection_token
                  else if c = CHR '' '' \<or> c = HT then h
                  else h_general, p)
         | h_matching_connection_keep_alive \<Rightarrow>
             match_value KEEP_ALIVE h h_matching_connection_token h_connection_keep_alive c p
         | h_matching_connection_close \<Rightarrow>
             match_value CLOSE h h_matching_connection_token h_connection_close c p
         | h_matching_connection_upgrade \<Rightarrow>
             match_value UPGRADE h h_matching_connection_token h_connection_upgrade c p
         | h_matching_connection_token \<Rightarrow>
             (if ch = CHR '','' then Inr (h_matching_connection_token_start, p\<lparr>index := 0\<rparr>)
              else Inr (h, p))
         | h_transfer_encoding_chunked \<Rightarrow>
             Inr (if ch \<noteq> CHR '' '' then h_matching_transfer_encoding_token else h, p)
         | h_connection_keep_alive \<Rightarrow> connection_done ch h p
         | h_connection_close \<Rightarrow> connection_done ch h p
         | h_connection_upgrade \<Rightarrow> connection_done ch h p
         | _ \<Rightarrow> Inr (h_general, p))"

text \<open>
  The inner loop of \<open>h_general\<close>: \<open>Inl\<close> a bad byte or a read past the end, with \<open>p\<close> on it;
  \<open>Inr\<close> the byte before the line end, or \<open>pe\<close>.
\<close>

function scan_general :: "'u env \<Rightarrow> 'u xstate \<Rightarrow> nat \<Rightarrow> fault + bool \<times> 'u xstate" where
  "scan_general env x pe =
     (if xpos x = pe then Inr (True, x)
      else if pe < xpos x \<or> length (data env) \<le> xpos x then Inl Out_Of_Range
      else let x = x\<lparr>xch := data env ! xpos x\<rparr>
           in if xch x = CR \<or> xch x = LF then Inr (True, x\<lparr>xpos := xpos x - 1\<rparr>)
              else if \<not> lenient env \<and> \<not> IS_HEADER_CHAR (xch x) then Inr (False, x)
              else scan_general env (x\<lparr>xpos := xpos x + 1\<rparr>) pe)"
  by pat_completeness auto
termination by (relation "measure (\<lambda>(env, x, pe). pe - xpos x)") auto

declare scan_general.simps [simp del]

text \<open>The code after the loop of \<open>s_header_value\<close>.\<close>

definition value_exit :: "'u env \<Rightarrow> nat \<Rightarrow> header_states \<Rightarrow> 'u xstate \<Rightarrow> 'u ctl" where
  "value_exit env start h x =
     (let x = on_parser (\<lambda>p. p\<lparr>header_state := h\<rparr>) x;
          x = (if xpos x = length (data env) then x\<lparr>xpos := xpos x - 1\<rparr> else x)
      in COUNT_HEADER_SIZE env (xpos x - start) x Break)"

text \<open>
  One turn of the loop of \<open>s_header_value\<close>, without the increment of \<open>p\<close>: \<open>Inl\<close> when control
  leaves the loop, \<open>Inr\<close> with the new \<open>h_state\<close> when it goes on.
\<close>

definition value_turn ::
  "'u env \<Rightarrow> nat \<Rightarrow> header_states \<Rightarrow> 'u xstate \<Rightarrow> 'u ctl + header_states \<times> 'u xstate" where
  "value_turn env start h x =
     (let x = x\<lparr>xch := data env ! xpos x\<rparr>; ch = xch x
      in if ch = CR
         then Inl (data_header_value env 1
                     (on_parser (\<lambda>p. p\<lparr>header_state := h\<rparr>) (UPDATE_STATE s_header_almost_done x))
                     (value_exit env start h))
         else if ch = LF
         then Inl (COUNT_HEADER_SIZE env (xpos x - start) (UPDATE_STATE s_header_almost_done x) (\<lambda>x.
                     data_header_value env 0 (on_parser (\<lambda>p. p\<lparr>header_state := h\<rparr>) x) Reexec))
         else if \<not> lenient env \<and> \<not> IS_HEADER_CHAR ch then Inl (err HPE_INVALID_HEADER_TOKEN x)
         else if h = h_general
         then (case scan_general env x (field_limit env (xpos x)) of
                 Inl e \<Rightarrow> Inl (Abort e)
               | Inr (False, x) \<Rightarrow> Inl (err HPE_INVALID_HEADER_TOKEN x)
               | Inr (True, x) \<Rightarrow>
                   Inr (h, if xpos x = length (data env) then x\<lparr>xpos := xpos x - 1\<rparr> else x))
         else (case value_char ch h (xp x) of
                 Inl None \<Rightarrow> Inl (Abort Assert_Failed)
               | Inl (Some h') \<Rightarrow>
                   Inl (Goto_error (on_parser (\<lambda>p. p\<lparr>header_state := h'\<rparr>)
                                      (SET_ERRNO HPE_INVALID_CONTENT_LENGTH x)))
               | Inr (h', p) \<Rightarrow> Inr (h', x\<lparr>xp := p\<rparr>)))"

text \<open>A byte that is not a line end is scanned, so \<open>scan_general\<close> does not step back over the start.\<close>

lemma scan_general_pos:
  "scan_general env x pe = Inr (b, x') \<Longrightarrow> xpos x - 1 \<le> xpos x'"
proof (induction env x pe rule: scan_general.induct)
  case (1 env x pe)
  from "1.prems" show ?case
    by (subst (asm) scan_general.simps) (auto simp: Let_def split: if_splits dest!: "1.IH")
qed

lemma scan_general_start:
  assumes "scan_general env x pe = Inr (b, x')" and "data env ! xpos x \<noteq> CR" and "data env ! xpos x \<noteq> LF"
  shows "xpos x \<le> xpos x'"
  using assms by (subst (asm) scan_general.simps) (auto simp: Let_def split: if_splits dest!: scan_general_pos)

lemma scan_general_end: "scan_general env x pe = Inr (b, x') \<Longrightarrow> xpos x' \<le> pe"
proof (induction env x pe rule: scan_general.induct)
  case (1 env x pe)
  from "1.prems" show ?case
    by (subst (asm) scan_general.simps) (auto simp: Let_def split: if_splits dest!: "1.IH")
qed

lemma value_turn_pos:
  assumes "value_turn env start h x = Inr (h', x')" and "xpos x < length (data env)"
  shows "xpos x \<le> xpos x'"
  using assms
  by (auto simp: value_turn_def Let_def split: if_splits sum.splits bool.splits option.splits
      dest!: scan_general_start)

function value_loop :: "'u env \<Rightarrow> nat \<Rightarrow> header_states \<Rightarrow> 'u xstate \<Rightarrow> 'u ctl" where
  "value_loop env start h x =
     (if xpos x = length (data env) then value_exit env start h x
      else if length (data env) < xpos x then Abort Out_Of_Range
      else case value_turn env start h x of
             Inl r \<Rightarrow> r
           | Inr (h', x') \<Rightarrow> value_loop env start h' (x'\<lparr>xpos := xpos x' + 1\<rparr>))"
  by pat_completeness auto
termination
proof (relation "measure (\<lambda>(env, start, h, x). length (data env) - xpos x)")
  fix env :: "'u env" and start h and x :: "'u xstate" and a and h' and x' :: "'u xstate"
  assume "xpos x \<noteq> length (data env)" "\<not> length (data env) < xpos x" "value_turn env start h x = Inr a" "(h', x') = a"
  then show "((env, start, h', x'\<lparr>xpos := xpos x' + 1\<rparr>), env, start, h, x)
         \<in> measure (\<lambda>(env, start, h, x). length (data env) - xpos x)"
    using value_turn_pos [of env start h x h' x'] by auto
qed simp

declare value_loop.simps [simp del]

definition case_header_value :: "'u env \<Rightarrow> 'u xstate \<Rightarrow> 'u ctl" where
  "case_header_value env x = value_loop env (xpos x) (header_state (xp x)) x"

end
