(* ===== verification/Http_Body.thy ===== *)
theory Http_Body
  imports Http_Exec
begin

text \<open>
  The cases of \<open>http_parser_execute\<close> for the end of a header, the end of the headers, the
  body, and the chunks (\<open>src/http/http_parser.cpp\<close> 1709-2117).
\<close>

section \<open>The end of a header\<close>

definition case_header_almost_done :: "'u env \<Rightarrow> 'u xstate \<Rightarrow> 'u ctl" where
  "case_header_almost_done env x =
     (if xch x \<noteq> LF then err HPE_LF_EXPECTED x else Break (UPDATE_STATE s_header_value_lws x))"

text \<open>The flag the finished value stands for, by \<open>header_state\<close>.\<close>

definition finish_flag :: "http_parser \<Rightarrow> http_parser" where
  "finish_flag p =
     (case header_state p of
        h_connection_keep_alive \<Rightarrow> set_flag F_CONNECTION_KEEP_ALIVE p
      | h_connection_close \<Rightarrow> set_flag F_CONNECTION_CLOSE p
      | h_transfer_encoding_chunked \<Rightarrow> set_flag F_CHUNKED p
      | h_connection_upgrade \<Rightarrow> set_flag F_CONNECTION_UPGRADE p
      | _ \<Rightarrow> p)"

definition case_header_value_lws :: "'u env \<Rightarrow> 'u xstate \<Rightarrow> 'u ctl" where
  "case_header_value_lws env x =
     (if xch x = CHR '' '' \<or> xch x = HT
      then let x = (if header_state (xp x) = h_content_length_num
                    then on_parser (\<lambda>p. p\<lparr>header_state := h_content_length_ws\<rparr>) x else x)
           in Reexec (UPDATE_STATE s_header_value_start x)
      else Reexec (UPDATE_STATE s_header_field_start (on_parser finish_flag x)))"

definition case_header_value_discard_ws_almost_done :: "'u env \<Rightarrow> 'u xstate \<Rightarrow> 'u ctl" where
  "case_header_value_discard_ws_almost_done env x =
     STRICT_CHECK (xch x \<noteq> LF) x (\<lambda>x. Break (UPDATE_STATE s_header_value_discard_lws x))"

definition case_header_value_discard_lws :: "'u env \<Rightarrow> 'u xstate \<Rightarrow> 'u ctl" where
  "case_header_value_discard_lws env x =
     (if xch x = CHR '' '' \<or> xch x = HT then Break (UPDATE_STATE s_header_value_discard_ws x)
      else if header_state (xp x) = h_content_length then err HPE_INVALID_CONTENT_LENGTH x
      else let x = on_parser finish_flag x;
               x = x\<lparr>header_value_mark := MARK (header_value_mark x) (xpos x)\<rparr>
           in data_header_value env 0 (UPDATE_STATE s_header_field_start x) Reexec)"

section \<open>The end of the headers\<close>

definition length_conflict :: "'u env \<Rightarrow> http_parser \<Rightarrow> bool" where
  "length_conflict env p \<longleftrightarrow>
     uses_transfer_encoding p \<and> has_flag p F_CONTENTLENGTH \<and>
     (if has_flag p F_CHUNKED then \<not> allow_chunked env else \<not> lenient env)"

definition upgrade_of :: "http_parser \<Rightarrow> bool" where
  "upgrade_of p =
     (if has_flag p F_UPGRADE \<and> has_flag p F_CONNECTION_UPGRADE
      then ptype p = HTTP_REQUEST \<or> status_code p = 101
      else meth p = HTTP_CONNECT)"

text \<open>
  The \<open>on_headers_complete\<close> call is not one of the callback macros: \<open>parser->state\<close> is not
  written before it nor read after it.
\<close>

definition headers_complete :: "'u env \<Rightarrow> 'u xstate \<Rightarrow> ('u xstate \<Rightarrow> 'u ctl) \<Rightarrow> 'u ctl" where
  "headers_complete env x k =
     (case on_headers_complete (settings env) of
        None \<Rightarrow> k x
      | Some f \<Rightarrow>
          (let (r, p', u') = f (xp x) (xusr x); x = x\<lparr>xp := p', xusr := u'\<rparr>
           in if r = 0 then k x
              else if r = 1 then k (on_parser (set_flag F_SKIPBODY) x)
              else if r = 2 then k (on_parser (\<lambda>p. set_flag F_SKIPBODY (p\<lparr>upgrade := True\<rparr>)) x)
              else RETURN (xpos x) (SET_ERRNO HPE_CB_headers_complete x)))"

definition case_headers_almost_done :: "'u env \<Rightarrow> 'u xstate \<Rightarrow> 'u ctl" where
  "case_headers_almost_done env x = STRICT_CHECK (xch x \<noteq> LF) x (\<lambda>x.
     if has_flag (xp x) F_TRAILING
     then CALLBACK_NOTIFY_NOADVANCE (on_chunk_complete (settings env)) HPE_CB_chunk_complete
            (UPDATE_STATE s_message_done x) Reexec
     else if length_conflict env (xp x) then err HPE_UNEXPECTED_CONTENT_LENGTH x
     else let x = UPDATE_STATE s_headers_done x;
              x = on_parser (\<lambda>p. p\<lparr>upgrade := upgrade_of p\<rparr>) x
          in headers_complete env x (\<lambda>x.
               if http_errno (xp x) \<noteq> HPE_OK then RETURN (xpos x) x else Reexec x))"

definition has_body :: "http_parser \<Rightarrow> bool" where
  "has_body p \<longleftrightarrow> has_flag p F_CHUNKED \<or> (content_length p > 0 \<and> content_length p \<noteq> ULLONG_MAX)"

text \<open>\<open>UPDATE_STATE(NEW_MESSAGE()); CALLBACK_NOTIFY(message_complete);\<close>\<close>

definition finish_message :: "'u env \<Rightarrow> 'u xstate \<Rightarrow> ('u xstate \<Rightarrow> 'u ctl) \<Rightarrow> 'u ctl" where
  "finish_message env x k =
     CALLBACK_NOTIFY (on_message_complete (settings env)) HPE_CB_message_complete
       (UPDATE_STATE (NEW_MESSAGE (xp x)) x) k"

definition case_headers_done :: "'u env \<Rightarrow> 'u xstate \<Rightarrow> 'u ctl" where
  "case_headers_done env x = STRICT_CHECK (xch x \<noteq> LF) x (\<lambda>x.
     let x = (on_parser (\<lambda>p. p\<lparr>nread := 0\<rparr>) x)\<lparr>xnread := 0\<rparr>; p = xp x
     in if upgrade p \<and> (meth p = HTTP_CONNECT \<or> has_flag p F_SKIPBODY \<or> \<not> has_body p)
        then finish_message env x (\<lambda>x. RETURN (xpos x + 1) x)
        else if has_flag p F_SKIPBODY then finish_message env x Break
        else if has_flag p F_CHUNKED then Break (UPDATE_STATE s_chunk_size_start x)
        else if uses_transfer_encoding p
        then (if ptype p = HTTP_REQUEST \<and> \<not> lenient env
              then RETURN (xpos x) (SET_ERRNO HPE_INVALID_TRANSFER_ENCODING x)
              else Break (UPDATE_STATE s_body_identity_eof x))
        else if content_length p = 0 then finish_message env x Break
        else if content_length p \<noteq> ULLONG_MAX then Break (UPDATE_STATE s_body_identity x)
        else if \<not> http_message_needs_eof p then finish_message env x Break
        else Break (UPDATE_STATE s_body_identity_eof x))"

section \<open>The body\<close>

text \<open>\<open>MIN(parser->content_length, (uint64_t) ((data + len) - p))\<close>\<close>

definition to_read :: "'u env \<Rightarrow> 'u xstate \<Rightarrow> nat" where
  "to_read env x = min (unat (content_length (xp x))) (length (data env) - xpos x)"

text \<open>\<open>MARK(body); content_length -= to_read; p += to_read - 1;\<close>\<close>

definition take_body :: "'u env \<Rightarrow> 'u xstate \<Rightarrow> 'u xstate" where
  "take_body env x =
     (let n = to_read env x
      in x\<lparr>body_mark := MARK (body_mark x) (xpos x),
           xp := (xp x)\<lparr>content_length := content_length (xp x) - of_nat n\<rparr>,
           xpos := xpos x + n - 1\<rparr>)"

definition case_body_identity :: "'u env \<Rightarrow> 'u xstate \<Rightarrow> 'u ctl" where
  "case_body_identity env x =
     ASSERT (content_length (xp x) \<noteq> 0 \<and> content_length (xp x) \<noteq> ULLONG_MAX)
       (let x = take_body env x
        in if content_length (xp x) = 0
           then data_body env (xpos x + 1) (xpos x) (UPDATE_STATE s_message_done x) Reexec
           else Break x)"

definition case_body_identity_eof :: "'u env \<Rightarrow> 'u xstate \<Rightarrow> 'u ctl" where
  "case_body_identity_eof env x =
     Break (x\<lparr>body_mark := MARK (body_mark x) (xpos x), xpos := length (data env) - 1\<rparr>)"

definition case_message_done :: "'u env \<Rightarrow> 'u xstate \<Rightarrow> 'u ctl" where
  "case_message_done env x =
     finish_message env x (\<lambda>x. if upgrade (xp x) then RETURN (xpos x + 1) x else Break x)"

section \<open>Chunks\<close>

definition case_chunk_size_start :: "'u env \<Rightarrow> 'u xstate \<Rightarrow> 'u ctl" where
  "case_chunk_size_start env x =
     ASSERT (xnread x = 1) (ASSERT (has_flag (xp x) F_CHUNKED)
       (let unhex_val = unhex_of (xch x)
        in if unhex_val = -1 then err HPE_INVALID_CHUNK_SIZE x
           else Break (UPDATE_STATE s_chunk_size
                  (on_parser (\<lambda>p. p\<lparr>content_length := of_int unhex_val\<rparr>) x))))"

definition case_chunk_size :: "'u env \<Rightarrow> 'u xstate \<Rightarrow> 'u ctl" where
  "case_chunk_size env x =
     ASSERT (has_flag (xp x) F_CHUNKED)
       (if xch x = CR then Break (UPDATE_STATE s_chunk_size_almost_done x)
        else let unhex_val = unhex_of (xch x)
             in if unhex_val = -1
                then (if xch x = CHR '';'' \<or> xch x = CHR '' '' then Break (UPDATE_STATE s_chunk_parameters x)
                      else err HPE_INVALID_CHUNK_SIZE x)
                else let t = content_length (xp x) * 16 + of_int unhex_val
                     in if (ULLONG_MAX - 16) div 16 < content_length (xp x)
                        then err HPE_INVALID_CONTENT_LENGTH x
                        else Break (on_parser (\<lambda>p. p\<lparr>content_length := t\<rparr>) x))"

definition case_chunk_parameters :: "'u env \<Rightarrow> 'u xstate \<Rightarrow> 'u ctl" where
  "case_chunk_parameters env x =
     ASSERT (has_flag (xp x) F_CHUNKED)
       (if xch x = CR then Break (UPDATE_STATE s_chunk_size_almost_done x) else Break x)"

definition case_chunk_size_almost_done :: "'u env \<Rightarrow> 'u xstate \<Rightarrow> 'u ctl" where
  "case_chunk_size_almost_done env x =
     ASSERT (has_flag (xp x) F_CHUNKED) (STRICT_CHECK (xch x \<noteq> LF) x (\<lambda>x.
       let x = (on_parser (\<lambda>p. p\<lparr>nread := 0\<rparr>) x)\<lparr>xnread := 0\<rparr>;
           x = (if content_length (xp x) = 0
                then UPDATE_STATE s_header_field_start (on_parser (set_flag F_TRAILING) x)
                else UPDATE_STATE s_chunk_data x)
       in CALLBACK_NOTIFY (on_chunk_header (settings env)) HPE_CB_chunk_header x Break))"

definition case_chunk_data :: "'u env \<Rightarrow> 'u xstate \<Rightarrow> 'u ctl" where
  "case_chunk_data env x =
     ASSERT (has_flag (xp x) F_CHUNKED)
       (ASSERT (content_length (xp x) \<noteq> 0 \<and> content_length (xp x) \<noteq> ULLONG_MAX)
         (let x = take_body env x
          in if content_length (xp x) = 0 then Break (UPDATE_STATE s_chunk_data_almost_done x)
             else Break x))"

definition case_chunk_data_almost_done :: "'u env \<Rightarrow> 'u xstate \<Rightarrow> 'u ctl" where
  "case_chunk_data_almost_done env x =
     ASSERT (has_flag (xp x) F_CHUNKED)
       (ASSERT (content_length (xp x) = 0)
         (STRICT_CHECK (xch x \<noteq> CR) x (\<lambda>x.
           let x = UPDATE_STATE s_chunk_data_done x
           in data_body env (xpos x) (xpos x + 1) x Break)))"

definition case_chunk_data_done :: "'u env \<Rightarrow> 'u xstate \<Rightarrow> 'u ctl" where
  "case_chunk_data_done env x =
     ASSERT (has_flag (xp x) F_CHUNKED) (STRICT_CHECK (xch x \<noteq> LF) x (\<lambda>x.
       let x = (on_parser (\<lambda>p. p\<lparr>nread := 0\<rparr>) x)\<lparr>xnread := 0\<rparr>
       in CALLBACK_NOTIFY (on_chunk_complete (settings env)) HPE_CB_chunk_complete
            (UPDATE_STATE s_chunk_size_start x) Break))"

end
