(* ===== verification/Http_Execute.thy ===== *)
theory Http_Execute
  imports Http_Line Http_Header Http_Body
begin

text \<open>
  \<open>http_parser_execute\<close> of \<open>src/http/http_parser.cpp\<close>: the switch over the states, the loop
  over the bytes, the calls before and after it.

  \<open>goto reexecute\<close> and the loop take fuel.  A byte is executed at most \<open>reexec_limit\<close> times
  and the loop makes at most one turn per byte; running out of either is the fault
  \<open>Spinning\<close>, which the safety theorem excludes.
\<close>

section \<open>The switch\<close>

definition execute_case :: "'u env \<Rightarrow> 'u xstate \<Rightarrow> 'u ctl" where
  "execute_case env x =
     (case xst x of
        s_dead \<Rightarrow> case_dead env x
      | s_start_req_or_res \<Rightarrow> case_start_req_or_res env x
      | s_res_or_resp_H \<Rightarrow> case_res_or_resp_H env x
      | s_start_res \<Rightarrow> case_start_res env x
      | s_res_H \<Rightarrow> case_expect (CHR ''T'') s_res_HT x
      | s_res_HT \<Rightarrow> case_expect (CHR ''T'') s_res_HTT x
      | s_res_HTT \<Rightarrow> case_expect (CHR ''P'') s_res_HTTP x
      | s_res_HTTP \<Rightarrow> case_expect (CHR ''/'') s_res_http_major x
      | s_res_http_major \<Rightarrow> case_http_major s_res_http_dot x
      | s_res_http_dot \<Rightarrow> case_http_dot s_res_http_minor x
      | s_res_http_minor \<Rightarrow> case_http_minor s_res_http_end x
      | s_res_http_end \<Rightarrow> case_res_http_end env x
      | s_res_first_status_code \<Rightarrow> case_res_first_status_code env x
      | s_res_status_code \<Rightarrow> case_res_status_code env x
      | s_res_status_start \<Rightarrow> case_res_status_start env x
      | s_res_status \<Rightarrow> case_res_status env x
      | s_res_line_almost_done \<Rightarrow> case_expect LF s_header_field_start x
      | s_start_req \<Rightarrow> case_start_req env x
      | s_req_method \<Rightarrow> case_req_method env x
      | s_req_spaces_before_url \<Rightarrow> case_req_spaces_before_url env x
      | s_req_schema \<Rightarrow> case_req_schema env x
      | s_req_schema_slash \<Rightarrow> case_req_schema env x
      | s_req_schema_slash_slash \<Rightarrow> case_req_schema env x
      | s_req_server_start \<Rightarrow> case_req_schema env x
      | s_req_server \<Rightarrow> case_req_url env x
      | s_req_server_with_at \<Rightarrow> case_req_url env x
      | s_req_path \<Rightarrow> case_req_url env x
      | s_req_query_string_start \<Rightarrow> case_req_url env x
      | s_req_query_string \<Rightarrow> case_req_url env x
      | s_req_fragment_start \<Rightarrow> case_req_url env x
      | s_req_fragment \<Rightarrow> case_req_url env x
      | s_req_http_start \<Rightarrow> case_req_http_start env x
      | s_req_http_H \<Rightarrow> case_expect (CHR ''T'') s_req_http_HT x
      | s_req_http_HT \<Rightarrow> case_expect (CHR ''T'') s_req_http_HTT x
      | s_req_http_HTT \<Rightarrow> case_expect (CHR ''P'') s_req_http_HTTP x
      | s_req_http_HTTP \<Rightarrow> case_expect (CHR ''/'') s_req_http_major x
      | s_req_http_I \<Rightarrow> case_expect (CHR ''C'') s_req_http_IC x
      | s_req_http_IC \<Rightarrow> case_expect (CHR ''E'') s_req_http_HTTP x
      | s_req_http_major \<Rightarrow> case_http_major s_req_http_dot x
      | s_req_http_dot \<Rightarrow> case_http_dot s_req_http_minor x
      | s_req_http_minor \<Rightarrow> case_http_minor s_req_http_end x
      | s_req_http_end \<Rightarrow> case_req_http_end env x
      | s_req_line_almost_done \<Rightarrow> case_req_line_almost_done env x
      | s_header_field_start \<Rightarrow> case_header_field_start env x
      | s_header_field \<Rightarrow> case_header_field env x
      | s_header_value_discard_ws \<Rightarrow> case_header_value_discard_ws env x
      | s_header_value_discard_ws_almost_done \<Rightarrow> case_header_value_discard_ws_almost_done env x
      | s_header_value_discard_lws \<Rightarrow> case_header_value_discard_lws env x
      | s_header_value_start \<Rightarrow> case_header_value_start env x
      | s_header_value \<Rightarrow> case_header_value env x
      | s_header_value_lws \<Rightarrow> case_header_value_lws env x
      | s_header_almost_done \<Rightarrow> case_header_almost_done env x
      | s_chunk_size_start \<Rightarrow> case_chunk_size_start env x
      | s_chunk_size \<Rightarrow> case_chunk_size env x
      | s_chunk_parameters \<Rightarrow> case_chunk_parameters env x
      | s_chunk_size_almost_done \<Rightarrow> case_chunk_size_almost_done env x
      | s_headers_almost_done \<Rightarrow> case_headers_almost_done env x
      | s_headers_done \<Rightarrow> case_headers_done env x
      | s_chunk_data \<Rightarrow> case_chunk_data env x
      | s_chunk_data_almost_done \<Rightarrow> case_chunk_data_almost_done env x
      | s_chunk_data_done \<Rightarrow> case_chunk_data_done env x
      | s_body_identity \<Rightarrow> case_body_identity env x
      | s_body_identity_eof \<Rightarrow> case_body_identity_eof env x
      | s_message_done \<Rightarrow> case_message_done env x)"

section \<open>The loop\<close>

definition reexec_limit :: nat where "reexec_limit = 8"

fun reexecute :: "nat \<Rightarrow> 'u env \<Rightarrow> 'u xstate \<Rightarrow> 'u ctl" where
  "reexecute 0 env x = Abort Spinning"
| "reexecute (Suc n) env x =
     (case execute_case env x of Reexec x' \<Rightarrow> reexecute n env x' | r \<Rightarrow> r)"

text \<open>The label \<open>error\<close>.\<close>

definition error_exit :: "'u xstate \<Rightarrow> 'u ctl" where
  "error_exit x =
     (let x = (if http_errno (xp x) = HPE_OK then SET_ERRNO HPE_UNKNOWN x else x) in RETURN (xpos x) x)"

definition execute_byte :: "'u env \<Rightarrow> 'u xstate \<Rightarrow> 'u ctl" where
  "execute_byte env x =
     (let x = x\<lparr>xch := data env ! xpos x\<rparr>
      in if PARSING_HEADER (xst x) then COUNT_HEADER_SIZE env 1 x (reexecute reexec_limit env)
         else reexecute reexec_limit env x)"

definition mark_count :: "'u xstate \<Rightarrow> nat" where
  "mark_count x =
     (if header_field_mark x \<noteq> None then 1 else 0) + (if header_value_mark x \<noteq> None then 1 else 0) +
     (if url_mark x \<noteq> None then 1 else 0) + (if body_mark x \<noteq> None then 1 else 0) +
     (if status_mark x \<noteq> None then 1 else 0)"

definition flush_marks :: "'u env \<Rightarrow> 'u xstate \<Rightarrow> 'u ctl" where
  "flush_marks env x =
     ASSERT (mark_count x \<le> 1)
       (data_header_field env 0 x (\<lambda>x. data_header_value env 0 x (\<lambda>x. data_url env 0 x (\<lambda>x.
          data_body env (xpos x) (xpos x) x (\<lambda>x. data_status env 0 x (\<lambda>x.
            RETURN (length (data env)) x))))))"

fun execute_loop :: "nat \<Rightarrow> 'u env \<Rightarrow> 'u xstate \<Rightarrow> 'u ctl" where
  "execute_loop 0 env x = Abort Spinning"
| "execute_loop (Suc n) env x =
     (if xpos x = length (data env) then flush_marks env x
      else if length (data env) < xpos x then Abort Out_Of_Range
      else case execute_byte env x of
             Break x' \<Rightarrow> execute_loop n env (x'\<lparr>xpos := xpos x' + 1\<rparr>)
           | Goto_error x' \<Rightarrow> error_exit x'
           | r \<Rightarrow> r)"

section \<open>The function\<close>

definition initial_xstate :: "http_parser \<Rightarrow> 'u \<Rightarrow> 'u xstate" where
  "initial_xstate p u =
     \<lparr>xp = p, xst = pstate p, xnread = nread p, xpos = 0, xch = NUL, xusr = u,
      header_field_mark = (if pstate p = s_header_field then Some 0 else None),
      header_value_mark = (if pstate p = s_header_value then Some 0 else None),
      url_mark = (if pstate p \<in> url_states then Some 0 else None), body_mark = None,
      status_mark = (if pstate p = s_res_status then Some 0 else None)\<rparr>"

text \<open>The call with no bytes tells the parser that the connection is at its end.\<close>

definition execute_eof :: "'u env \<Rightarrow> 'u xstate \<Rightarrow> 'u ctl" where
  "execute_eof env x =
     (if xst x = s_body_identity_eof
      then CALLBACK_NOTIFY_NOADVANCE (on_message_complete (settings env)) HPE_CB_message_complete x (Return 0)
      else if xst x \<in> {s_dead, s_start_req_or_res, s_start_res, s_start_req} then Return 0 x
      else Return 1 (SET_ERRNO HPE_INVALID_EOF_STATE x))"

definition make_env :: "'u http_parser_settings \<Rightarrow> u32 \<Rightarrow> http_parser \<Rightarrow> string \<Rightarrow> 'u env" where
  "make_env s mhs p d = \<lparr>settings = s, data = d, max_header_size = mhs,
                         lenient = lenient_http_headers p, allow_chunked = allow_chunked_length p\<rparr>"

definition http_parser_execute ::
  "'u http_parser_settings \<Rightarrow> u32 \<Rightarrow> http_parser \<Rightarrow> string \<Rightarrow> 'u \<Rightarrow> fault + nat \<times> http_parser \<times> 'u" where
  "http_parser_execute s mhs p d u =
     (if http_errno p \<noteq> HPE_OK then Inr (0, p, u)
      else let env = make_env s mhs p d; x = initial_xstate p u
           in case (if d = [] then execute_eof env x
                    else execute_loop (Suc (length d)) env x) of
                Return n x' \<Rightarrow> Inr (n, xp x', xusr x')
              | Abort e \<Rightarrow> Inl e
              | _ \<Rightarrow> Inl Spinning)"

end
