(* ===== verification/Http_User.thy ===== *)
theory Http_User
  imports Http_Execute
begin

text \<open>
  What the parser does with the state of its user: nothing but to hand it to the callbacks.
  An invariant that every callback keeps is kept by \<open>http_parser_execute\<close>, for all bytes.
\<close>

definition keeps_cb :: "('u \<Rightarrow> bool) \<Rightarrow> 'u http_cb \<Rightarrow> bool" where
  "keeps_cb I cb \<longleftrightarrow> (\<forall>f p u. cb = Some f \<longrightarrow> I u \<longrightarrow> I (snd (snd (f p u))))"

definition keeps_data_cb :: "('u \<Rightarrow> bool) \<Rightarrow> 'u http_data_cb \<Rightarrow> bool" where
  "keeps_data_cb I cb \<longleftrightarrow> (\<forall>f p s u. cb = Some f \<longrightarrow> I u \<longrightarrow> I (snd (snd (f p s u))))"

fun ctl_usr :: "('u \<Rightarrow> bool) \<Rightarrow> 'u ctl \<Rightarrow> bool" where
  "ctl_usr I (Break x) = I (xusr x)"
| "ctl_usr I (Reexec x) = I (xusr x)"
| "ctl_usr I (Goto_error x) = I (xusr x)"
| "ctl_usr I (Return n x) = I (xusr x)"
| "ctl_usr I (Abort e) = True"

locale user_invariant =
  fixes s :: "'u http_parser_settings" and I :: "'u \<Rightarrow> bool"
  assumes keeps_notify: "keeps_cb I (on_message_begin s)" "keeps_cb I (on_headers_complete s)"
      "keeps_cb I (on_message_complete s)" "keeps_cb I (on_chunk_header s)" "keeps_cb I (on_chunk_complete s)"
    and keeps_data: "keeps_data_cb I (on_url s)" "keeps_data_cb I (on_status s)" "keeps_data_cb I (on_header_field s)"
      "keeps_data_cb I (on_header_value s)" "keeps_data_cb I (on_body s)"

lemma SET_ERRNO_usr [simp]: "xusr (SET_ERRNO e x) = xusr x"
  by (simp add: SET_ERRNO_def)

lemma ctl_usr_macros [simp]:
  "ctl_usr I (STRICT_CHECK c x k) \<longleftrightarrow> (if c then I (xusr x) else ctl_usr I (k x))"
  "ctl_usr I (ASSERT b r) \<longleftrightarrow> (b \<longrightarrow> ctl_usr I r)"
  "ctl_usr I (RETURN n x) \<longleftrightarrow> I (xusr x)"
  by (simp_all add: STRICT_CHECK_def ASSERT_def RETURN_def)

lemma COUNT_usr:
  "I (xusr x) \<Longrightarrow> (\<And>y. I (xusr y) \<Longrightarrow> ctl_usr I (k y)) \<Longrightarrow> ctl_usr I (COUNT_HEADER_SIZE env v x k)"
  by (simp add: COUNT_HEADER_SIZE_def Let_def)

lemma after_callback_usr:
  "I (snd (snd res)) \<Longrightarrow> (\<And>y. I (xusr y) \<Longrightarrow> ctl_usr I (k y)) \<Longrightarrow> ctl_usr I (after_callback e er res x k)"
  by (cases res) (simp add: after_callback_def Let_def)

lemma notify_usr:
  "keeps_cb I cb \<Longrightarrow> I (xusr x) \<Longrightarrow> (\<And>y. I (xusr y) \<Longrightarrow> ctl_usr I (k y)) \<Longrightarrow> ctl_usr I (CALLBACK_NOTIFY0 cb e er x k)"
  by (auto simp: CALLBACK_NOTIFY0_def keeps_cb_def split: option.splits intro!: after_callback_usr)

lemma data_usr:
  assumes "keeps_data_cb I cb" and "I (xusr x)" and "\<And>y. I (xusr y) \<Longrightarrow> ctl_usr I (k y)"
    and "\<And>y. xusr (clear y) = xusr y"
  shows "ctl_usr I (CALLBACK_DATA0 env cb e mark clear stop er x k)"
  using assms by (auto simp: CALLBACK_DATA0_def keeps_data_cb_def split: option.splits intro!: after_callback_usr)

lemma skip_loops_usr:
  "field_turn env x = Inr (Some x', y) \<Longrightarrow> xusr x' = xusr x \<and> xusr y = xusr x"
  "field_turn env x = Inr (None, y) \<Longrightarrow> xusr y = xusr x"
  by (auto simp: field_turn_def Let_def split: if_splits sum.splits)

lemma field_loop_usr: "field_loop env x = Inr y \<Longrightarrow> xusr y = xusr x"
proof (induction env x rule: field_loop.induct)
  case (1 env x)
  show ?case
  proof (cases "xpos x = length (data env) \<or> length (data env) < xpos x \<or> (\<exists>e. field_turn env x = Inl e)")
    case True
    then show ?thesis using "1.prems" by (subst (asm) field_loop.simps) (auto split: if_splits)
  next
    case False
    then obtain r z where t: "field_turn env x = Inr (r, z)" by (cases "field_turn env x") auto
    show ?thesis
    proof (cases r)
      case None
      then show ?thesis using "1.prems" False t skip_loops_usr(2) [of env x z]
        by (subst (asm) field_loop.simps) auto
    next
      case (Some x')
      then have "field_loop env (x'\<lparr>xpos := xpos x' + 1\<rparr>) = Inr y"
        using "1.prems" False t by (subst (asm) field_loop.simps) auto
      with "1.IH" [of "(r, z)" r z x'] show ?thesis
        using False t Some skip_loops_usr(1) [of env x x' z] by auto
    qed
  qed
qed

lemma scan_general_usr: "scan_general env x pe = Inr (b, y) \<Longrightarrow> xusr y = xusr x"
proof (induction env x pe rule: scan_general.induct)
  case (1 env x pe)
  from "1.prems" show ?case
    by (subst (asm) scan_general.simps) (auto simp: Let_def split: if_splits dest!: "1.IH")
qed

context user_invariant
begin

lemma data_usrs:
  assumes "settings env = s" and "I (xusr x)" and "\<And>y. I (xusr y) \<Longrightarrow> ctl_usr I (k y)"
  shows "ctl_usr I (data_header_field env adv x k)" "ctl_usr I (data_header_value env adv x k)"
    "ctl_usr I (data_url env adv x k)" "ctl_usr I (data_status env adv x k)" "ctl_usr I (data_body env stop er x k)"
  using assms keeps_data
  by (auto simp: data_header_field_def data_header_value_def data_url_def data_status_def data_body_def intro!: data_usr)

lemmas usr_rules = data_usrs notify_usr COUNT_usr keeps_notify

lemma line_usr:
  assumes "settings env = s" and "I (xusr x)"
  shows "ctl_usr I (case_dead env x)" "ctl_usr I (case_start_req_or_res env x)" "ctl_usr I (case_res_or_resp_H env x)"
    "ctl_usr I (case_start_res env x)" "ctl_usr I (case_expect c t x)" "ctl_usr I (case_http_major t x)"
    "ctl_usr I (case_http_dot t x)" "ctl_usr I (case_http_minor t x)" "ctl_usr I (case_res_http_end env x)"
    "ctl_usr I (case_res_first_status_code env x)" "ctl_usr I (case_res_status_code env x)"
    "ctl_usr I (case_res_status_start env x)" "ctl_usr I (case_res_status env x)"
    "ctl_usr I (case_start_req env x)" "ctl_usr I (case_req_method env x)"
    "ctl_usr I (case_req_spaces_before_url env x)" "ctl_usr I (case_req_schema env x)" "ctl_usr I (case_req_url env x)"
    "ctl_usr I (case_req_http_start env x)" "ctl_usr I (case_req_http_end env x)"
    "ctl_usr I (case_req_line_almost_done env x)"
  using assms keeps_notify
  by (auto simp: case_dead_def case_start_req_or_res_def case_res_or_resp_H_def case_start_res_def case_expect_def
      case_http_major_def case_http_dot_def case_http_minor_def case_res_http_end_def case_res_first_status_code_def
      case_res_status_code_def case_res_status_start_def case_res_status_def case_start_req_def case_req_method_def
      case_req_spaces_before_url_def case_req_schema_def case_req_url_def case_req_http_start_def
      case_req_http_end_def case_req_line_almost_done_def url_step_def Let_def
      split: option.splits sum.splits intro!: usr_rules)

lemma finish_usr:
  assumes "settings env = s" and "I (xusr x)" and "\<And>y. I (xusr y) \<Longrightarrow> ctl_usr I (k y)"
  shows "ctl_usr I (finish_message env x k)"
  using assms keeps_notify(3) by (auto simp: finish_message_def intro!: notify_usr)

lemma headers_complete_usr:
  assumes "settings env = s" and "I (xusr x)" and "\<And>y. I (xusr y) \<Longrightarrow> ctl_usr I (k y)"
  shows "ctl_usr I (headers_complete env x k)"
proof (cases "on_headers_complete s")
  case (Some f)
  obtain r p u where f: "f (xp x) (xusr x) = (r, p, u)" by (cases rule: prod_cases3)
  have "I u" using keeps_notify(2) Some assms(2) f unfolding keeps_cb_def by (metis snd_conv)
  then show ?thesis using assms Some f by (simp add: headers_complete_def Let_def)
qed (use assms in \<open>simp add: headers_complete_def\<close>)

lemma body_usr:
  assumes "settings env = s" and "I (xusr x)"
  shows "ctl_usr I (case_header_almost_done env x)" "ctl_usr I (case_header_value_lws env x)"
    "ctl_usr I (case_header_value_discard_ws_almost_done env x)" "ctl_usr I (case_header_value_discard_lws env x)"
    "ctl_usr I (case_headers_almost_done env x)" "ctl_usr I (case_headers_done env x)"
    "ctl_usr I (case_body_identity env x)" "ctl_usr I (case_body_identity_eof env x)" "ctl_usr I (case_message_done env x)"
    "ctl_usr I (case_chunk_size_start env x)" "ctl_usr I (case_chunk_size env x)" "ctl_usr I (case_chunk_parameters env x)"
    "ctl_usr I (case_chunk_size_almost_done env x)" "ctl_usr I (case_chunk_data env x)"
    "ctl_usr I (case_chunk_data_almost_done env x)" "ctl_usr I (case_chunk_data_done env x)"
  using assms keeps_notify
  by (auto simp: case_header_almost_done_def case_header_value_lws_def case_header_value_discard_ws_almost_done_def
      case_header_value_discard_lws_def case_headers_almost_done_def case_headers_done_def case_body_identity_def
      case_body_identity_eof_def case_message_done_def case_chunk_size_start_def case_chunk_size_def
      case_chunk_parameters_def case_chunk_size_almost_done_def case_chunk_data_def case_chunk_data_almost_done_def
      case_chunk_data_done_def take_body_def Let_def intro!: usr_rules finish_usr headers_complete_usr)

lemma header_start_usr:
  assumes "settings env = s" and "I (xusr x)"
  shows "ctl_usr I (case_header_field_start env x)" "ctl_usr I (case_header_value_start env x)"
    "ctl_usr I (case_header_value_discard_ws env x)"
  using assms
  by (auto simp: case_header_field_start_def case_header_value_start_def case_header_value_discard_ws_def Let_def
      split: sum.splits)

lemma header_field_usr:
  assumes "settings env = s" and "I (xusr x)"
  shows "ctl_usr I (case_header_field env x)"
  using assms
  by (auto simp: case_header_field_def Let_def split: sum.splits dest!: field_loop_usr intro!: usr_rules)

lemma value_exit_usr: "I (xusr x) \<Longrightarrow> ctl_usr I (value_exit env start h x)"
  by (auto simp: value_exit_def Let_def intro!: COUNT_usr)

lemma value_turn_usr:
  assumes "settings env = s" and "I (xusr x)"
  shows "value_turn env start h x = Inl r \<Longrightarrow> ctl_usr I r"
    and "value_turn env start h x = Inr (h', y) \<Longrightarrow> I (xusr y)"
  using assms
  by (auto simp: value_turn_def Let_def split: if_splits sum.splits option.splits bool.splits
      dest!: scan_general_usr intro!: usr_rules value_exit_usr)

lemma value_loop_usr:
  "settings env = s \<Longrightarrow> I (xusr x) \<Longrightarrow> ctl_usr I (value_loop env start h x)"
proof (induction env start h x rule: value_loop.induct)
  case (1 env start h x)
  note turn = value_turn_usr [OF "1.prems"]
  show ?case
    using "1.prems" turn "1.IH"
    by (subst value_loop.simps) (auto split: sum.splits prod.splits intro!: value_exit_usr)
qed

lemma case_usr:
  assumes "settings env = s" and "I (xusr x)"
  shows "ctl_usr I (execute_case env x)"
  using line_usr [OF assms] body_usr [OF assms] header_start_usr [OF assms] header_field_usr [OF assms]
    value_loop_usr [OF assms]
  by (cases "xst x") (simp_all add: execute_case_def case_header_value_def)

lemma reexecute_usr: "settings env = s \<Longrightarrow> I (xusr x) \<Longrightarrow> ctl_usr I (reexecute n env x)"
proof (induction n arbitrary: x)
  case (Suc n)
  with case_usr [of env x] show ?case by (auto split: ctl.splits)
qed simp

lemma byte_usr: "settings env = s \<Longrightarrow> I (xusr x) \<Longrightarrow> ctl_usr I (execute_byte env x)"
  by (auto simp: execute_byte_def Let_def intro!: COUNT_usr reexecute_usr)

lemma loop_usr: "settings env = s \<Longrightarrow> I (xusr x) \<Longrightarrow> ctl_usr I (execute_loop n env x)"
proof (induction n arbitrary: x)
  case (Suc n)
  have "ctl_usr I (flush_marks env x)" using Suc.prems by (auto simp: flush_marks_def intro!: usr_rules)
  with Suc byte_usr [OF Suc.prems] show ?case by (auto split: ctl.splits simp: error_exit_def Let_def)
qed simp

lemma execute_usr:
  assumes "http_parser_execute s mhs p d u = Inr (n, q, v)" and "I u"
  shows "I v"
proof -
  let ?env = "make_env s mhs p d" and ?x = "initial_xstate p u"
  have env: "settings ?env = s" and x: "I (xusr ?x)" using assms(2) by (simp_all add: make_env_def initial_xstate_def)
  have "ctl_usr I (execute_eof ?env ?x)" using env x by (auto simp: execute_eof_def intro!: usr_rules)
  with loop_usr [OF env x, of "Suc (length d)"]
  have "ctl_usr I (if d = [] then execute_eof ?env ?x else execute_loop (Suc (length d)) ?env ?x)" by (cases "d = []") (simp_all del: execute_loop.simps)
  with assms show ?thesis
    by (auto simp: http_parser_execute_def Let_def split: if_splits ctl.splits)
qed

end

end
