(* ===== verification/Http_Inv.thy ===== *)
theory Http_Inv
  imports Http_Execute
begin

text \<open>
  The invariant of the parser and what every case of the switch owes: it keeps the invariant,
  stays inside the data, fails no assertion, and re-executes only towards states of a smaller
  rank.  The contract of the callbacks is the locale \<open>tame_callbacks\<close>.
\<close>

section \<open>The invariant\<close>

text \<open>What \<open>header_state\<close> can be inside a field name, and what it cannot be inside a value.\<close>

definition field_states :: "header_states set" where
  "field_states = {h_general, h_C, h_CO, h_CON, h_matching_connection, h_matching_proxy_connection,
     h_matching_content_length, h_matching_transfer_encoding, h_matching_upgrade,
     h_connection, h_content_length, h_transfer_encoding, h_upgrade}"

definition value_state :: "header_states \<Rightarrow> bool" where
  "value_state h \<longleftrightarrow> h \<noteq> h_connection \<and> h \<noteq> h_transfer_encoding"

definition chunk_line_states :: "parser_state set" where
  "chunk_line_states = {s_chunk_size, s_chunk_parameters, s_chunk_size_almost_done}"

definition chunk_states :: "parser_state set" where
  "chunk_states = {s_chunk_size_start, s_chunk_size, s_chunk_parameters, s_chunk_size_almost_done,
     s_chunk_data, s_chunk_data_almost_done, s_chunk_data_done}"

definition state_inv :: "parser_state \<Rightarrow> http_parser \<Rightarrow> bool" where
  "state_inv s p \<longleftrightarrow>
     (s \<in> chunk_states \<longrightarrow> has_flag p F_CHUNKED) \<and>
     (s \<in> chunk_line_states \<longrightarrow> content_length p \<noteq> ULLONG_MAX) \<and>
     (s = s_chunk_data \<or> s = s_body_identity \<longrightarrow> content_length p \<noteq> 0 \<and> content_length p \<noteq> ULLONG_MAX) \<and>
     (s = s_chunk_data_almost_done \<longrightarrow> content_length p = 0) \<and>
     (s = s_header_field \<longrightarrow> header_state p \<in> field_states) \<and>
     (s = s_header_value \<longrightarrow> value_state (header_state p)) \<and>
     (s = s_req_method \<longrightarrow> meth p < length method_strings \<and> index p \<le> length (method_strings ! meth p))"

text \<open>Between two calls; a parser in error is never executed again.\<close>

definition parser_ok :: "u32 \<Rightarrow> http_parser \<Rightarrow> bool" where
  "parser_ok mhs p \<longleftrightarrow>
     (http_errno p = HPE_OK \<or> http_errno p = HPE_PAUSED \<longrightarrow>
        state_inv (pstate p) p \<and> nread p \<le> mhs \<and> (pstate p = s_chunk_size_start \<longrightarrow> nread p = 0))"

text \<open>At most the mark of the current state is set, and it lies before \<open>p\<close>.\<close>

definition mark_ok :: "nat option \<Rightarrow> bool \<Rightarrow> nat \<Rightarrow> bool" where
  "mark_ok m b p \<longleftrightarrow> (case m of None \<Rightarrow> True | Some q \<Rightarrow> b \<and> q \<le> p)"

definition body_states :: "parser_state set" where
  "body_states = {s_body_identity, s_body_identity_eof, s_chunk_data, s_chunk_data_almost_done}"

definition marks_ok :: "parser_state \<Rightarrow> 'u xstate \<Rightarrow> bool" where
  "marks_ok s x \<longleftrightarrow>
     mark_ok (header_field_mark x) (s = s_header_field) (xpos x) \<and>
     mark_ok (header_value_mark x) (s = s_header_value) (xpos x) \<and>
     mark_ok (url_mark x) (s \<in> url_states) (xpos x) \<and>
     mark_ok (body_mark x) (s \<in> body_states) (xpos x) \<and>
     mark_ok (status_mark x) (s = s_res_status) (xpos x)"

definition frame_ok :: "'u env \<Rightarrow> 'u xstate \<Rightarrow> bool" where
  "frame_ok env x \<longleftrightarrow> http_errno (xp x) = HPE_OK \<and> xnread x \<le> max_header_size env \<and>
     nread (xp x) \<le> max_header_size env"

definition xinv :: "'u env \<Rightarrow> 'u xstate \<Rightarrow> bool" where
  "xinv env x \<longleftrightarrow> frame_ok env x \<and> state_inv (xst x) (xp x) \<and> marks_ok (xst x) x"

definition zero_nread :: "'u xstate \<Rightarrow> bool" where
  "zero_nread x \<longleftrightarrow> (xst x = s_chunk_size_start \<longrightarrow> xnread x = 0 \<and> nread (xp x) = 0)"

section \<open>The rank of a state\<close>

definition rank :: "parser_state \<Rightarrow> nat" where
  "rank s = (if s = s_start_req_or_res \<or> s = s_body_identity \<or> s = s_header_value \<or> s = s_res_status_start then 1
             else if s = s_res_status_code \<or> s = s_headers_almost_done then 2
             else if s = s_header_field_start then 3
             else if s = s_header_value_lws \<or> s = s_header_value_discard_lws then 4
             else 0)"

section \<open>What a case owes\<close>

definition final_ok :: "'u env \<Rightarrow> nat \<Rightarrow> http_parser \<Rightarrow> bool" where
  "final_ok env n p \<longleftrightarrow> n \<le> length (data env) \<and> parser_ok (max_header_size env) p \<and>
     (http_errno p = HPE_OK \<longrightarrow> n = length (data env) \<or> upgrade p)"

definition hard_error :: "http_errno \<Rightarrow> bool" where
  "hard_error e \<longleftrightarrow> e \<noteq> HPE_OK \<and> e \<noteq> HPE_PAUSED"

fun ctl_ok :: "'u env \<Rightarrow> nat \<Rightarrow> nat \<Rightarrow> 'u ctl \<Rightarrow> bool" where
  "ctl_ok env rk p0 (Break x) \<longleftrightarrow>
     xinv env x \<and> zero_nread x \<and> p0 \<le> xpos x \<and> xpos x < length (data env)"
| "ctl_ok env rk p0 (Reexec x) \<longleftrightarrow>
     xinv env x \<and> xst x \<noteq> s_chunk_size_start \<and> rank (xst x) < rk \<and> p0 \<le> xpos x \<and> xpos x < length (data env)"
| "ctl_ok env rk p0 (Goto_error x) \<longleftrightarrow> hard_error (http_errno (xp x)) \<and> xpos x < length (data env)"
| "ctl_ok env rk p0 (Return n x) \<longleftrightarrow> final_ok env n (xp x)"
| "ctl_ok env rk p0 (Abort e) \<longleftrightarrow> False"

lemmas inv_defs = xinv_def frame_ok_def state_inv_def marks_ok_def mark_ok_def zero_nread_def
  field_states_def value_state_def chunk_states_def chunk_line_states_def body_states_def url_states_def
  rank_def hard_error_def

lemma mark_ok_simps [simp]:
  "mark_ok None b p" "mark_ok m False p \<longleftrightarrow> m = None" "mark_ok (Some q) b p \<longleftrightarrow> b \<and> q \<le> p"
  by (auto simp: mark_ok_def split: option.splits)

lemma mark_ok_MARK [simp]: "mark_ok (MARK m p) b p \<longleftrightarrow> b \<and> (\<forall>q. m = Some q \<longrightarrow> q \<le> p)"
  by (auto simp: mark_ok_def MARK_def split: option.splits)

text \<open>Where a case starts: the header size has been counted for this byte.\<close>

definition step_pre :: "'u env \<Rightarrow> 'u xstate \<Rightarrow> bool" where
  "step_pre env x \<longleftrightarrow> xinv env x \<and> xpos x < length (data env) \<and> (xst x = s_chunk_size_start \<longrightarrow> xnread x = 1)"

lemmas set_defs = field_states_def chunk_states_def chunk_line_states_def body_states_def url_states_def

lemmas case_defs = step_pre_def xinv_def frame_ok_def state_inv_def marks_ok_def zero_nread_def rank_def
  hard_error_def set_defs

lemma state_inv_frame [simp]:
  "state_inv s (p\<lparr>pstate := t\<rparr>) = state_inv s p"
  "state_inv s (p\<lparr>http_errno := e\<rparr>) = state_inv s p"
  "state_inv s (p\<lparr>nread := n\<rparr>) = state_inv s p"
  "state_inv s (p\<lparr>upgrade := b\<rparr>) = state_inv s p"
  "state_inv s (p\<lparr>http_major := k\<rparr>) = state_inv s p"
  "state_inv s (p\<lparr>http_minor := k\<rparr>) = state_inv s p"
  "state_inv s (p\<lparr>status_code := k\<rparr>) = state_inv s p"
  "state_inv s (p\<lparr>ptype := ty\<rparr>) = state_inv s p"
  by (simp_all add: state_inv_def has_flag_def)

lemma SET_ERRNO_sel [simp]:
  "xst (SET_ERRNO e x) = xst x" "xpos (SET_ERRNO e x) = xpos x" "xnread (SET_ERRNO e x) = xnread x"
  "http_errno (xp (SET_ERRNO e x)) = e" "nread (xp (SET_ERRNO e x)) = xnread x"
  "pstate (xp (SET_ERRNO e x)) = pstate (xp x)" "upgrade (xp (SET_ERRNO e x)) = upgrade (xp x)"
  by (simp_all add: SET_ERRNO_def)

lemma ctl_ok_err [simp]: "ctl_ok env rk p0 (err e x) \<longleftrightarrow> hard_error e \<and> xpos x < length (data env)"
  by simp

lemma ctl_ok_STRICT [simp]:
  "ctl_ok env rk p0 (STRICT_CHECK c x k) \<longleftrightarrow>
     (if c then xpos x < length (data env) else ctl_ok env rk p0 (k x))"
  by (simp add: STRICT_CHECK_def hard_error_def)

lemma ctl_ok_ASSERT [simp]: "ctl_ok env rk p0 (ASSERT b r) \<longleftrightarrow> b \<and> ctl_ok env rk p0 r"
  by (simp add: ASSERT_def)

lemma ctl_ok_COUNT [simp]:
  "ctl_ok env rk p0 (COUNT_HEADER_SIZE env v x k) \<longleftrightarrow>
     (if max_header_size env < xnread x + of_nat v then xpos x < length (data env)
      else ctl_ok env rk p0 (k (x\<lparr>xnread := xnread x + of_nat v\<rparr>)))"
  by (simp add: COUNT_HEADER_SIZE_def Let_def hard_error_def)

section \<open>Tame callbacks\<close>

text \<open>A tame callback changes of the parser at most \<open>http_errno\<close> (it may pause the parser).\<close>

definition tame_cb :: "'u http_cb \<Rightarrow> bool" where
  "tame_cb cb \<longleftrightarrow> (\<forall>f p u r p' u'. cb = Some f \<longrightarrow> f p u = (r, p', u') \<longrightarrow> (\<exists>e. p' = p\<lparr>http_errno := e\<rparr>))"

definition tame_data_cb :: "'u http_data_cb \<Rightarrow> bool" where
  "tame_data_cb cb \<longleftrightarrow>
     (\<forall>f p s u r p' u'. cb = Some f \<longrightarrow> f p s u = (r, p', u') \<longrightarrow> (\<exists>e. p' = p\<lparr>http_errno := e\<rparr>))"

locale tame_callbacks =
  fixes s :: "'u http_parser_settings"
  assumes tame_message_begin: "tame_cb (on_message_begin s)"
    and tame_url: "tame_data_cb (on_url s)"
    and tame_status: "tame_data_cb (on_status s)"
    and tame_header_field: "tame_data_cb (on_header_field s)"
    and tame_header_value: "tame_data_cb (on_header_value s)"
    and tame_headers_complete: "tame_cb (on_headers_complete s)"
    and tame_body: "tame_data_cb (on_body s)"
    and tame_message_complete: "tame_cb (on_message_complete s)"
    and tame_chunk_header: "tame_cb (on_chunk_header s)"
    and tame_chunk_complete: "tame_cb (on_chunk_complete s)"

lemma tame_cb_None [simp]: "tame_cb None"
  by (simp add: tame_cb_def)

lemma tame_data_cb_None [simp]: "tame_data_cb None"
  by (simp add: tame_data_cb_def)

text \<open>What a continuation sees after a tame callback that returned 0 and did not pause.\<close>

abbreviation resumed :: "parser_state \<Rightarrow> 'u \<Rightarrow> 'u xstate \<Rightarrow> 'u xstate" where
  "resumed t u x \<equiv> x\<lparr>xp := (xp x)\<lparr>pstate := t\<rparr>, xusr := u\<rparr>"

lemma final_ok_stop:
  assumes "frame_ok env x" and "state_inv (xst x) (xp x)" and "zero_nread x" and "n \<le> length (data env)"
    and "e \<noteq> HPE_OK" and "k = xnread x \<or> k = nread (xp x)"
  shows "final_ok env n ((xp x)\<lparr>pstate := xst x, http_errno := e, nread := k\<rparr>)"
  using assms by (auto simp: final_ok_def parser_ok_def frame_ok_def zero_nread_def)

lemma after_callback_ok:
  assumes "p' = (xp x)\<lparr>pstate := xst x, http_errno := e'\<rparr>" and "hard_error e"
    and "frame_ok env x" and "state_inv (xst x) (xp x)" and "zero_nread x" and "er \<le> length (data env)"
    and "\<And>u. ctl_ok env rk p0 (k (resumed (xst x) u x))"
  shows "ctl_ok env rk p0 (after_callback e er (r, p', u') (x\<lparr>xp := (xp x)\<lparr>pstate := xst x\<rparr>\<rparr>) k)"
proof -
  let ?q = "(xp x)\<lparr>pstate := xst x\<rparr>"
  have e: "e \<noteq> HPE_OK" using assms(2) by (simp add: hard_error_def)
  consider "r \<noteq> 0" | "r = 0" "e' \<noteq> HPE_OK" | "r = 0" "e' = HPE_OK" by blast
  then show ?thesis
  proof cases
    case 1
    have "xp (SET_ERRNO e (x\<lparr>xp := p', xusr := u'\<rparr>)) =
          (xp x)\<lparr>pstate := xst x, http_errno := e, nread := xnread x\<rparr>"
      using assms(1) by (simp add: SET_ERRNO_def)
    then show ?thesis
      using 1 e final_ok_stop [OF assms(3-6) e, where k = "xnread x"] by (simp add: after_callback_def Let_def)
  next
    case 2
    have "p' = (xp x)\<lparr>pstate := xst x, http_errno := e', nread := nread (xp x)\<rparr>"
      using assms(1) by simp
    then show ?thesis
      using 2 final_ok_stop [OF assms(3-6) 2(2), where k = "nread (xp x)"] by (simp add: after_callback_def Let_def)
  next
    case 3
    have "p' = (xp x)\<lparr>pstate := xst x\<rparr>" using assms(1,3) 3 by (simp add: frame_ok_def)
    moreover have "http_errno (xp x) = HPE_OK" using assms(3) by (simp add: frame_ok_def)
    ultimately show ?thesis
      using 3 assms(7) [where u = u'] by (simp add: after_callback_def Let_def)
  qed
qed

lemma notify_state_ok:
  assumes "tame_cb cb" and "hard_error e"
    and "frame_ok env x" and "state_inv (xst x) (xp x)" and "zero_nread x" and "er \<le> length (data env)"
    and "\<And>t u. t = xst x \<or> t = pstate (xp x) \<Longrightarrow> ctl_ok env rk p0 (k (resumed t u x))"
  shows "ctl_ok env rk p0 (CALLBACK_NOTIFY0 cb e er x k)"
proof (cases cb)
  case None
  have "ctl_ok env rk p0 (k x)"
    using assms(7) [where t = "pstate (xp x)" and u = "xusr x"] by simp
  then show ?thesis using None assms(3) by (simp add: CALLBACK_NOTIFY0_def frame_ok_def)
next
  case (Some f)
  obtain r p' u' where f: "f ((xp x)\<lparr>pstate := xst x\<rparr>) (xusr x) = (r, p', u')" by (cases rule: prod_cases3)
  then obtain e' where "p' = (xp x)\<lparr>pstate := xst x, http_errno := e'\<rparr>"
    using assms(1) Some unfolding tame_cb_def by blast
  then show ?thesis
    using after_callback_ok [OF _ assms(2-6), where k = k and p' = p'] assms(7) f Some assms(3)
    by (simp add: CALLBACK_NOTIFY0_def frame_ok_def)
qed

lemma notify_ok:
  assumes "tame_cb cb" and "hard_error e"
    and "frame_ok env x" and "state_inv (xst x) (xp x)" and "zero_nread x" and "er \<le> length (data env)"
    and "\<And>t u. ctl_ok env rk p0 (k (resumed t u x))"
  shows "ctl_ok env rk p0 (CALLBACK_NOTIFY0 cb e er x k)"
  using notify_state_ok [OF assms(1-6)] assms(7) by blast

lemma data_ok:
  assumes "tame_data_cb cb" and "hard_error e"
    and "frame_ok env x" and "state_inv (xst x) (xp x)" and "zero_nread x" and "er \<le> length (data env)"
    and "\<And>q. mark = Some q \<Longrightarrow> q \<le> stop" and "stop \<le> length (data env)"
    and "\<And>t u. ctl_ok env rk p0 (k (clear (resumed t u x)))"
    and "mark = None \<Longrightarrow> clear x = x"
  shows "ctl_ok env rk p0 (CALLBACK_DATA0 env cb e mark clear stop er x k)"
proof -
  have cont: "ctl_ok env rk p0 (k (clear x))"
    using assms(9) [where t = "pstate (xp x)" and u = "xusr x"] by simp
  have ok: "http_errno (xp x) = HPE_OK" using assms(3) by (simp add: frame_ok_def)
  show ?thesis
  proof (cases mark)
    case None
    then show ?thesis using cont ok assms(10) by (simp add: CALLBACK_DATA0_def)
  next
    case (Some q)
    show ?thesis
    proof (cases cb)
      case None
      then show ?thesis using cont ok Some assms(7,8) by (simp add: CALLBACK_DATA0_def)
    next
      case (Some f)
      let ?at = "take (stop - q) (drop q (data env))"
      obtain r p' u' where f: "f ((xp x)\<lparr>pstate := xst x\<rparr>) ?at (xusr x) = (r, p', u')"
        by (cases rule: prod_cases3)
      then obtain e' where "p' = (xp x)\<lparr>pstate := xst x, http_errno := e'\<rparr>"
        using assms(1) Some unfolding tame_data_cb_def by blast
      then show ?thesis
        using after_callback_ok [OF _ assms(2-6), where p' = p' and k = "\<lambda>x. k (clear x)"] f Some ok \<open>mark = Some q\<close> assms(7-9)
        by (simp add: CALLBACK_DATA0_def)
    qed
  qed
qed

end
