(* ===== verification/Http_Safe_Line.thy ===== *)
theory Http_Safe_Line
  imports Http_Inv
begin

text \<open>
  The cases of the first line keep the invariant.  The method matcher never reads past its
  string, because \<open>index\<close> stays within \<open>method_strings[method]\<close>.
\<close>

section \<open>States without data of their own\<close>

text \<open>A state that constrains neither the parser nor the marks.\<close>

definition plain :: "parser_state \<Rightarrow> bool" where
  "plain s \<longleftrightarrow> s \<notin> chunk_states \<and> s \<notin> url_states \<and> s \<notin> body_states \<and> s \<noteq> s_header_field \<and>
     s \<noteq> s_header_value \<and> s \<noteq> s_req_method \<and> s \<noteq> s_res_status"

definition no_marks :: "'u xstate \<Rightarrow> bool" where
  "no_marks x \<longleftrightarrow> header_field_mark x = None \<and> header_value_mark x = None \<and> url_mark x = None \<and>
     body_mark x = None \<and> status_mark x = None"

lemma plain_state_inv [simp]: "plain s \<Longrightarrow> state_inv s p"
  by (auto simp: plain_def state_inv_def set_defs)

lemma plain_marks [simp]: "plain s \<Longrightarrow> marks_ok s x \<longleftrightarrow> no_marks x"
  by (simp add: plain_def marks_ok_def no_marks_def)

lemma plain_zero [simp]: "plain (xst x) \<Longrightarrow> zero_nread x"
  by (auto simp: plain_def zero_nread_def chunk_states_def)

lemma plain_not_start: "plain s \<Longrightarrow> s \<noteq> s_chunk_size_start"
  by (auto simp: plain_def chunk_states_def)

lemma no_marks_upd [simp]:
  "no_marks (x\<lparr>xp := p\<rparr>) = no_marks x" "no_marks (x\<lparr>xst := s\<rparr>) = no_marks x"
  "no_marks (x\<lparr>xusr := u\<rparr>) = no_marks x" "no_marks (x\<lparr>xnread := n\<rparr>) = no_marks x"
  "no_marks (x\<lparr>xpos := k\<rparr>) = no_marks x" "no_marks (x\<lparr>xch := c\<rparr>) = no_marks x"
  by (simp_all add: no_marks_def)

lemma marks_ok_upd [simp]:
  "marks_ok s (x\<lparr>xp := p\<rparr>) = marks_ok s x" "marks_ok s (x\<lparr>xst := t\<rparr>) = marks_ok s x"
  "marks_ok s (x\<lparr>xusr := u\<rparr>) = marks_ok s x" "marks_ok s (x\<lparr>xnread := n\<rparr>) = marks_ok s x"
  "marks_ok s (x\<lparr>xch := c\<rparr>) = marks_ok s x"
  by (simp_all add: marks_ok_def)

text \<open>The two ways most cases end.\<close>

lemma break_plain:
  assumes "step_pre env x" and "no_marks x" and "plain s'"
    and "xst y = s'" "no_marks y" "xpos y = xpos x" "xnread y = xnread x"
    and "http_errno (xp y) = HPE_OK" "nread (xp y) = nread (xp x)"
  shows "ctl_ok env rk (xpos x) (Break y)"
  using assms by (simp add: step_pre_def xinv_def frame_ok_def)

context tame_callbacks
begin

lemma tame_env:
  assumes "settings env = s"
  shows "tame_cb (on_message_begin (settings env))" "tame_data_cb (on_url (settings env))"
    "tame_data_cb (on_status (settings env))" "tame_data_cb (on_header_field (settings env))"
    "tame_data_cb (on_header_value (settings env))" "tame_cb (on_headers_complete (settings env))"
    "tame_data_cb (on_body (settings env))" "tame_cb (on_message_complete (settings env))"
    "tame_cb (on_chunk_header (settings env))" "tame_cb (on_chunk_complete (settings env))"
  using assms tame_message_begin tame_url tame_status tame_header_field tame_header_value
    tame_headers_complete tame_body tame_message_complete tame_chunk_header tame_chunk_complete
  by simp_all

lemma dead_ok:
  "step_pre env x \<Longrightarrow> xst x = s_dead \<Longrightarrow> ctl_ok env (rank (xst x)) (xpos x) (case_dead env x)"
  by (simp add: case_dead_def case_defs)

lemma expect_ok:
  assumes "step_pre env x" and "plain (xst x)" and "plain s'"
  shows "ctl_ok env rk (xpos x) (case_expect c s' x)"
  using assms by (simp add: case_expect_def step_pre_def xinv_def frame_ok_def)

lemma start_req_or_res_ok:
  assumes "step_pre env x" and "xst x = s_start_req_or_res" and "settings env = s"
  shows "ctl_ok env (rank (xst x)) (xpos x) (case_start_req_or_res env x)"
proof -
  have "plain s_res_or_resp_H" "plain s_start_req" "plain s_start_req_or_res" by (simp_all add: plain_def set_defs)
  then show ?thesis
    using assms(1,2) tame_env [OF assms(3)]
    by (auto simp: case_start_req_or_res_def reset_message_def step_pre_def xinv_def frame_ok_def Let_def
        rank_def hard_error_def intro!: notify_ok)
qed

lemma res_or_resp_H_ok:
  assumes "step_pre env x" and "xst x = s_res_or_resp_H"
  shows "ctl_ok env (rank (xst x)) (xpos x) (case_res_or_resp_H env x)"
  using assms by (simp add: case_res_or_resp_H_def case_defs method_strings_def HTTP_METHOD_MAP_def)

lemma start_res_ok:
  assumes "step_pre env x" and "xst x = s_start_res" and "settings env = s"
  shows "ctl_ok env (rank (xst x)) (xpos x) (case_start_res env x)"
proof -
  have "plain s_res_H" "plain s_start_res" by (simp_all add: plain_def set_defs)
  then show ?thesis
    using assms(1,2) tame_env [OF assms(3)]
    by (auto simp: case_start_res_def reset_message_def step_pre_def xinv_def frame_ok_def Let_def
        hard_error_def intro!: notify_ok)
qed

lemma http_major_ok:
  assumes "step_pre env x" and "plain (xst x)" and "plain s'"
  shows "ctl_ok env rk (xpos x) (case_http_major s' x)"
  using assms by (simp add: case_http_major_def step_pre_def xinv_def frame_ok_def hard_error_def)

lemma http_minor_ok:
  assumes "step_pre env x" and "plain (xst x)" and "plain s'"
  shows "ctl_ok env rk (xpos x) (case_http_minor s' x)"
  using assms by (simp add: case_http_minor_def step_pre_def xinv_def frame_ok_def hard_error_def)

lemma http_dot_ok:
  assumes "step_pre env x" and "plain (xst x)" and "plain s'"
  shows "ctl_ok env rk (xpos x) (case_http_dot s' x)"
  using assms by (simp add: case_http_dot_def step_pre_def xinv_def frame_ok_def hard_error_def)

lemma res_http_end_ok:
  "step_pre env x \<Longrightarrow> xst x = s_res_http_end \<Longrightarrow> ctl_ok env (rank (xst x)) (xpos x) (case_res_http_end env x)"
  by (simp add: case_res_http_end_def case_defs)

lemma res_first_status_code_ok:
  "step_pre env x \<Longrightarrow> xst x = s_res_first_status_code \<Longrightarrow>
   ctl_ok env (rank (xst x)) (xpos x) (case_res_first_status_code env x)"
  by (simp add: case_res_first_status_code_def case_defs)

lemma res_status_code_ok:
  "step_pre env x \<Longrightarrow> xst x = s_res_status_code \<Longrightarrow>
   ctl_ok env (rank (xst x)) (xpos x) (case_res_status_code env x)"
  by (simp add: case_res_status_code_def case_defs Let_def)

lemma res_status_start_ok:
  "step_pre env x \<Longrightarrow> xst x = s_res_status_start \<Longrightarrow>
   ctl_ok env (rank (xst x)) (xpos x) (case_res_status_start env x)"
  by (simp add: case_res_status_start_def case_defs Let_def)

text \<open>The data callbacks: the state after the call is plain once the mark is cleared.\<close>

lemma status_data_ok:
  assumes "step_pre env x" and "xst x = s_res_status" and "settings env = s" and "plain s'"
  shows "ctl_ok env rk (xpos x) (data_status env 1 (UPDATE_STATE s' x) Break)"
proof -
  have m: "status_mark x = Some q \<Longrightarrow> q \<le> xpos x" for q
    using assms(1,2) by (simp add: step_pre_def xinv_def marks_ok_def)
  have n: "no_marks (x\<lparr>status_mark := None\<rparr>)"
    using assms(1,2) by (simp add: step_pre_def xinv_def marks_ok_def no_marks_def set_defs)
  show ?thesis
    unfolding data_status_def
    using assms(1,4) tame_env [OF assms(3)] m n
    by (intro data_ok) (auto simp: step_pre_def xinv_def frame_ok_def hard_error_def no_marks_def)
qed

lemma res_status_ok:
  assumes "step_pre env x" and "xst x = s_res_status" and "settings env = s"
  shows "ctl_ok env (rank (xst x)) (xpos x) (case_res_status env x)"
proof -
  have "plain s_res_line_almost_done" "plain s_header_field_start" by (simp_all add: plain_def set_defs)
  then show ?thesis
    using assms(1) status_data_ok [OF assms]
    by (simp add: case_res_status_def step_pre_def zero_nread_def assms(2))
qed

section \<open>The method\<close>

lemma first_method_fits:
  "first_method ch = Some m \<Longrightarrow> m < length method_strings \<and> 1 \<le> length (method_strings ! m)"
  by (auto simp: first_method_def method_strings_def HTTP_METHOD_MAP_def split: if_splits)

lemma start_req_ok:
  assumes "step_pre env x" and "xst x = s_start_req" and "settings env = s"
  shows "ctl_ok env (rank (xst x)) (xpos x) (case_start_req env x)"
proof -
  have "plain s_start_req" by (simp add: plain_def set_defs)
  then have n: "no_marks x" "frame_ok env x" "xpos x < length (data env)" "zero_nread x"
    using assms(1,2) by (auto simp: step_pre_def xinv_def)
  have inv: "state_inv s_req_method p"
    if "meth p < length method_strings" "index p \<le> length (method_strings ! meth p)" for p
    using that by (auto simp: state_inv_def set_defs)
  have mk: "marks_ok s_req_method x" using n by (simp add: marks_ok_def no_marks_def set_defs)
  show ?thesis
    using n mk tame_env(1) [OF assms(3)] \<open>plain s_start_req\<close> assms(2)
    by (auto simp: case_start_req_def reset_message_def xinv_def frame_ok_def Let_def hard_error_def zero_nread_def
        split: option.splits intro!: notify_ok inv dest!: first_method_fits)
qed

text \<open>Every entry of the switch leads to a method whose string is as long as what has been read.\<close>

lemma method_switch_fits:
  "list_all (\<lambda>((m, i, c), m'). m' < length method_strings \<and> i < length (method_strings ! m')) method_switch"
  by (simp add: method_switch_def method_strings_def HTTP_METHOD_MAP_def)

lemma method_lengths: "list_all (\<lambda>m. length m < 31) method_strings"
  by (simp add: method_strings_def HTTP_METHOD_MAP_def)

lemma req_method_ok:
  assumes "step_pre env x" and "xst x = s_req_method"
  shows "ctl_ok env (rank (xst x)) (xpos x) (case_req_method env x)"
proof -
  let ?m = "method_strings ! meth (xp x)"
  have pre: "frame_ok env x" "no_marks x" "xpos x < length (data env)"
      "meth (xp x) < length method_strings" "index (xp x) \<le> length ?m"
    using assms by (auto simp: step_pre_def xinv_def state_inv_def marks_ok_def no_marks_def set_defs)
  have len: "length m < 31" if "m \<in> set method_strings" for m
    using method_lengths that by (simp add: list_all_iff)
  then have small: "length ?m < 31" using pre(4) by simp
  have inc: "(Suc i) mod 32 = Suc i" if "i < 31" for i :: nat using that by simp
  obtain c where c: "cstr_at ?m (index (xp x)) = Inr c"
      "c \<noteq> NUL \<longrightarrow> index (xp x) < length ?m"
    using pre(5) by (cases "index (xp x) < length ?m") (simp_all add: cstr_at_def)
  have sw: "m' < length method_strings \<and> index (xp x) < length (method_strings ! m') \<and> length (method_strings ! m') < 31"
    if "map_of method_switch (meth (xp x), index (xp x), xch x) = Some m'" for m'
    using method_switch_fits map_of_SomeD [OF that] len by (auto simp: list_all_iff)
  have "plain s_req_spaces_before_url" by (simp add: plain_def set_defs)
  then show ?thesis
    using pre c sw small inc assms(2)
    by (auto simp: case_req_method_def xinv_def frame_ok_def hard_error_def zero_nread_def state_inv_def set_defs
        marks_ok_def no_marks_def plain_def not_le Suc_le_eq split: option.splits)
qed

section \<open>The URL and the version\<close>

lemma url_step_ok:
  assumes "frame_ok env x" and "xpos x < length (data env)" and "marks_ok s_req_path x"
  shows "ctl_ok env rk (xpos x) (url_step x)"
proof -
  have inv: "state_inv t p" "t \<noteq> s_chunk_size_start" "marks_ok t x" if "t \<in> url_states" for t p
    using that assms(3) by (auto simp: state_inv_def set_defs marks_ok_def)
  show ?thesis
    using assms parse_url_char_range [of "xst x" "xch x"] inv(2) [of s_chunk_size_start]
    by (auto simp: url_step_def Let_def xinv_def frame_ok_def hard_error_def zero_nread_def intro: inv(1,3))
qed

lemma req_spaces_before_url_ok:
  assumes "step_pre env x" and "xst x = s_req_spaces_before_url"
  shows "ctl_ok env (rank (xst x)) (xpos x) (case_req_spaces_before_url env x)"
proof -
  have pl: "plain s_req_spaces_before_url" by (simp add: plain_def set_defs)
  then have n: "no_marks x" "frame_ok env x" "xpos x < length (data env)"
    using assms by (auto simp: step_pre_def xinv_def)
  let ?x = "x\<lparr>url_mark := MARK (url_mark x) (xpos x)\<rparr>"
  have "frame_ok env ?x" "marks_ok s_req_path ?x"
    using n by (auto simp: frame_ok_def marks_ok_def no_marks_def set_defs MARK_def)
  then show ?thesis
    using n pl assms(2) url_step_ok [of env ?x] url_step_ok [of env "?x\<lparr>xst := s_req_server_start\<rparr>"]
    by (auto simp: case_req_spaces_before_url_def Let_def xinv_def frame_ok_def)
qed

lemma url_pre:
  assumes "step_pre env x" and "xst x \<in> url_states"
  shows "frame_ok env x" "xpos x < length (data env)" "marks_ok s_req_path x"
  using assms by (auto simp: step_pre_def xinv_def marks_ok_def set_defs)

lemma req_schema_ok:
  assumes "step_pre env x" and "xst x \<in> url_states"
  shows "ctl_ok env (rank (xst x)) (xpos x) (case_req_schema env x)"
  using url_pre [OF assms] url_step_ok by (auto simp: case_req_schema_def hard_error_def)

lemma url_data_ok:
  assumes "frame_ok env x" and "xpos x < length (data env)" and "marks_ok s_req_path x"
    and "settings env = s" and "plain s'"
  shows "ctl_ok env rk (xpos x) (data_url env 1 (UPDATE_STATE s' x) Break)"
proof -
  have m: "url_mark x = Some q \<Longrightarrow> q \<le> xpos x" for q
    using assms(3) by (simp add: marks_ok_def)
  have n: "no_marks (x\<lparr>url_mark := None\<rparr>)"
    using assms(3) by (simp add: marks_ok_def no_marks_def set_defs)
  show ?thesis
    unfolding data_url_def
    using assms(1,2,5) tame_env [OF assms(4)] m n
    by (intro data_ok) (auto simp: xinv_def frame_ok_def hard_error_def no_marks_def)
qed

lemma req_url_ok:
  assumes "step_pre env x" and "xst x \<in> url_states" and "settings env = s"
  shows "ctl_ok env (rank (xst x)) (xpos x) (case_req_url env x)"
proof -
  have pl: "plain s_req_http_start" "plain s_req_line_almost_done" "plain s_header_field_start"
    by (simp_all add: plain_def set_defs)
  let ?y = "on_parser (\<lambda>p. p\<lparr>http_major := 0, http_minor := 9\<rparr>) x"
  note pre = url_pre [OF assms(1,2)]
  then have y: "frame_ok env ?y" "marks_ok s_req_path ?y" by (auto simp: frame_ok_def)
  show ?thesis
    using url_step_ok [OF pre] url_data_ok [OF pre assms(3)] url_data_ok [OF y(1) _ y(2) assms(3)] pre(2) pl
    by (auto simp: case_req_url_def)
qed

lemma req_http_start_ok:
  "step_pre env x \<Longrightarrow> xst x = s_req_http_start \<Longrightarrow>
   ctl_ok env (rank (xst x)) (xpos x) (case_req_http_start env x)"
  by (simp add: case_req_http_start_def case_defs)

lemma req_http_end_ok:
  "step_pre env x \<Longrightarrow> xst x = s_req_http_end \<Longrightarrow>
   ctl_ok env (rank (xst x)) (xpos x) (case_req_http_end env x)"
  by (simp add: case_req_http_end_def case_defs)

lemma req_line_almost_done_ok:
  "step_pre env x \<Longrightarrow> xst x = s_req_line_almost_done \<Longrightarrow>
   ctl_ok env (rank (xst x)) (xpos x) (case_req_line_almost_done env x)"
  by (simp add: case_req_line_almost_done_def case_defs)

end

end
