(* ===== verification/Http_Safe_Header.thy ===== *)
theory Http_Safe_Header
  imports Http_Safe_Line
begin

text \<open>
  The cases of the header fields keep the invariant: the two inner loops stay inside the data,
  and none of the \<open>header_state\<close>s they assert to be impossible is reached.
\<close>

section \<open>Field names\<close>

text \<open>What the automaton of the field names and values leaves alone in the parser.\<close>

definition header_frame :: "http_parser \<Rightarrow> http_parser \<Rightarrow> bool" where
  "header_frame q p \<longleftrightarrow> nread q = nread p \<and> http_errno q = http_errno p \<and> pstate q = pstate p"

lemma header_frame_refl [simp]: "header_frame p p"
  by (simp add: header_frame_def)

lemma header_frame_trans: "header_frame r q \<Longrightarrow> header_frame q p \<Longrightarrow> header_frame r p"
  by (simp add: header_frame_def)

lemma match_step_field: "h \<in> field_states \<Longrightarrow> hit \<in> field_states \<Longrightarrow> match_step m h h_general hit c i \<in> field_states"
  by (simp add: match_step_def field_states_def)

lemma field_char_ok:
  assumes "header_state p \<in> field_states" and "header_state p \<noteq> h_general"
  shows "\<exists>q. field_char ch c p = Inr q \<and> header_frame q p \<and> header_state q \<in> field_states"
proof -
  have hits: "h_general \<in> field_states" "h_connection \<in> field_states" "h_content_length \<in> field_states"
      "h_transfer_encoding \<in> field_states" "h_upgrade \<in> field_states"
    by (simp_all add: field_states_def)
  have mf: "header_state (match_field m hit c p) \<in> field_states" "header_frame (match_field m hit c p) p"
    if "hit \<in> field_states" for m hit
    using match_step_field [OF assms(1) that] by (simp_all add: match_field_def Let_def header_frame_def)
  have te: "header_frame (q\<lparr>uses_transfer_encoding := True\<rparr>) p" if "header_frame q p" for q
    using that by (simp add: header_frame_def)
  show ?thesis
    using assms
    by (cases "header_state p")
       (simp_all add: field_char_def Let_def mf hits te, simp_all add: field_states_def header_frame_def)
qed

lemma skip_tokens_ok:
  assumes "pe \<le> length d"
  shows "\<exists>q. skip_tokens d p pe = Inr q \<and> p \<le> q \<and> (q = p \<or> q < pe)"
  using assms
proof (induction d p pe rule: skip_tokens.induct)
  case (1 d p pe)
  then show ?case
    by (subst skip_tokens.simps) (auto dest: Suc_leD)
qed

lemma field_limit_bounds: "p \<le> length (data env) \<Longrightarrow> field_limit env p \<le> length (data env)"
  by (simp add: field_limit_def)

text \<open>\<open>y\<close> is \<open>x\<close> further on in the data, with a header automaton that has moved.\<close>

definition moved :: "'u env \<Rightarrow> 'u xstate \<Rightarrow> 'u xstate \<Rightarrow> bool" where
  "moved env x y \<longleftrightarrow>
     y = x\<lparr>xp := xp y, xpos := xpos y, xch := xch y\<rparr> \<and> header_frame (xp y) (xp x) \<and>
     xpos x \<le> xpos y \<and> xpos y \<le> length (data env)"

lemma moved_sel:
  assumes "moved env x y"
  shows "xst y = xst x" "xnread y = xnread x" "header_field_mark y = header_field_mark x"
    "header_value_mark y = header_value_mark x" "url_mark y = url_mark x" "body_mark y = body_mark x"
    "status_mark y = status_mark x" "xusr y = xusr x"
  using assms by (metis moved_def xstate.select_convs xstate.surjective xstate.update_convs)+

lemma movedI:
  "y = x\<lparr>xp := p, xpos := k, xch := c\<rparr> \<Longrightarrow> header_frame p (xp x) \<Longrightarrow> xpos x \<le> k \<Longrightarrow> k \<le> length (data env) \<Longrightarrow>
   moved env x y"
  by (simp add: moved_def)

lemma moved_trans:
  assumes "moved env x y" and "moved env y z"
  shows "moved env x z"
proof -
  have "z = x\<lparr>xp := xp z, xpos := xpos z, xch := xch z\<rparr>"
  proof -
    have "y = x\<lparr>xp := xp y, xpos := xpos y, xch := xch y\<rparr>" "z = y\<lparr>xp := xp z, xpos := xpos z, xch := xch z\<rparr>"
      using assms by (auto simp only: moved_def)
    then show ?thesis by (metis (no_types) xstate.update_convs(1,4,5) xstate.surjective)
  qed
  then show ?thesis using assms header_frame_trans by (auto simp only: moved_def)
qed

lemma field_turn_ok:
  assumes "header_state (xp x) \<in> field_states" and "xpos x < length (data env)"
  shows "\<exists>y. (field_turn env x = Inr (None, y) \<and> moved env x y \<and> header_state (xp y) \<in> field_states \<and> xpos y = xpos x) \<or>
             (\<exists>z. field_turn env x = Inr (Some y, z) \<and> moved env x y \<and> header_state (xp y) \<in> field_states \<and>
                  xpos y < length (data env))"
proof -
  let ?x = "x\<lparr>xch := data env ! xpos x\<rparr>"
  have m0: "moved env x ?x" using assms(2) by (intro movedI [where p = "xp x" and k = "xpos x"]) simp_all
  consider "TOKEN (xch ?x) = NUL" | "TOKEN (xch ?x) \<noteq> NUL" "header_state (xp x) = h_general"
    | "TOKEN (xch ?x) \<noteq> NUL" "header_state (xp x) \<noteq> h_general" by blast
  then show ?thesis
  proof cases
    case 1
    then show ?thesis using m0 assms by (intro exI [where x = ?x]) (simp add: field_turn_def Let_def)
  next
    case 2
    have lim: "field_limit env (xpos x) \<le> length (data env)" using assms(2) by (simp add: field_limit_def)
    obtain q where q: "skip_tokens (data env) (xpos x) (field_limit env (xpos x)) = Inr q"
        "xpos x \<le> q" "q = xpos x \<or> q < field_limit env (xpos x)"
      using skip_tokens_ok [OF lim] by blast
    then have "q < length (data env)" using lim assms(2) by auto
    moreover have "moved env x (?x\<lparr>xpos := q\<rparr>)"
      using q \<open>q < length (data env)\<close> by (intro movedI [where p = "xp x" and k = q and c = "data env ! xpos x"]) simp_all
    ultimately show ?thesis
      using 2 q assms(1) by (intro exI [where x = "?x\<lparr>xpos := q\<rparr>"]) (simp add: field_turn_def Let_def)
  next
    case 3
    obtain p where p: "field_char (xch ?x) (TOKEN (xch ?x)) (xp x) = Inr p" "header_frame p (xp x)"
        "header_state p \<in> field_states"
      using field_char_ok [OF assms(1) 3(2)] by blast
    have "moved env x (?x\<lparr>xp := p\<rparr>)"
      using p assms(2) by (intro movedI [where p = p and k = "xpos x" and c = "data env ! xpos x"]) simp_all
    then show ?thesis
      using 3 p assms(2) by (intro exI [where x = "?x\<lparr>xp := p\<rparr>"]) (simp add: field_turn_def Let_def)
  qed
qed

lemma field_loop_ok:
  assumes "header_state (xp x) \<in> field_states" and "xpos x \<le> length (data env)"
  shows "\<exists>y. field_loop env x = Inr y \<and> moved env x y \<and> header_state (xp y) \<in> field_states"
  using assms
proof (induction env x rule: field_loop.induct)
  case (1 env x)
  show ?case
  proof (cases "xpos x = length (data env)")
    case True
    then show ?thesis
      using "1.prems" by (subst field_loop.simps) (auto intro!: movedI [where p = "xp x" and k = "xpos x" and c = "xch x"])
  next
    case False
    then have lt: "xpos x < length (data env)" using "1.prems" by simp
    from field_turn_ok [OF "1.prems"(1) lt] consider
        y where "field_turn env x = Inr (None, y)" "moved env x y" "header_state (xp y) \<in> field_states"
      | y z where "field_turn env x = Inr (Some y, z)" "moved env x y" "header_state (xp y) \<in> field_states"
          "xpos y < length (data env)"
      by blast
    then show ?thesis
    proof cases
      case 1
      then show ?thesis using lt by (subst field_loop.simps) simp
    next
      case 2
      let ?y = "y\<lparr>xpos := xpos y + 1\<rparr>"
      have "moved env y ?y"
        using 2(4) by (intro movedI [where p = "xp y" and k = "xpos y + 1" and c = "xch y"]) simp_all
      moreover obtain w where "field_loop env ?y = Inr w" "moved env ?y w" "header_state (xp w) \<in> field_states"
        using "1.IH" [OF False _ 2(1) refl refl] lt 2(3,4) by auto
      ultimately show ?thesis
        using 2 lt moved_trans by (subst field_loop.simps) (auto intro: moved_trans)
    qed
  qed
qed

lemma moved_marks:
  assumes "moved env x y" and "marks_ok t x"
  shows "marks_ok t y"
proof -
  have "xpos x \<le> xpos y" using assms(1) by (simp only: moved_def)
  then show ?thesis
    using assms(2) unfolding marks_ok_def moved_sel [OF assms(1)] mark_ok_def
    by (auto split: option.splits)
qed

lemma moved_frame: "moved env x y \<Longrightarrow> frame_ok env x \<Longrightarrow> frame_ok env y"
  using moved_sel(2) [of env x y] by (simp add: frame_ok_def) (simp only: moved_def header_frame_def)

context tame_callbacks
begin

lemma header_field_start_ok:
  assumes "step_pre env x" and "xst x = s_header_field_start"
  shows "ctl_ok env (rank (xst x)) (xpos x) (case_header_field_start env x)"
proof -
  have "first_header_state c \<in> field_states" for c
    by (simp add: first_header_state_def field_states_def)
  then show ?thesis
    using assms
    by (simp add: case_header_field_start_def Let_def step_pre_def xinv_def frame_ok_def state_inv_def marks_ok_def
        zero_nread_def rank_def hard_error_def chunk_states_def chunk_line_states_def body_states_def url_states_def)
qed

lemma header_field_data_ok:
  assumes "frame_ok env x" and "xpos x < length (data env)" and "marks_ok s_header_field x" and "settings env = s"
    and "plain s'" and "p0 \<le> xpos x"
  shows "ctl_ok env rk p0 (data_header_field env 1 (UPDATE_STATE s' x) Break)"
proof -
  have m: "header_field_mark x = Some q \<Longrightarrow> q \<le> xpos x" for q
    using assms(3) by (simp add: marks_ok_def)
  have n: "no_marks (x\<lparr>header_field_mark := None\<rparr>)"
    using assms(3) by (simp add: marks_ok_def no_marks_def set_defs)
  show ?thesis
    unfolding data_header_field_def
    using assms(1,2,5,6) tame_env [OF assms(4)] m n
    by (intro data_ok) (auto simp: xinv_def frame_ok_def hard_error_def no_marks_def)
qed

lemma header_field_ok:
  assumes "step_pre env x" and "xst x = s_header_field" and "settings env = s"
  shows "ctl_ok env (rank (xst x)) (xpos x) (case_header_field env x)"
proof -
  have pre: "frame_ok env x" "marks_ok s_header_field x" "xpos x < length (data env)" "header_state (xp x) \<in> field_states"
    using assms(1,2) by (auto simp: step_pre_def xinv_def state_inv_def)
  obtain y where y: "field_loop env x = Inr y" "moved env x y" "header_state (xp y) \<in> field_states"
    using field_loop_ok [OF pre(4), of env] pre(3) by auto
  have fy: "frame_ok env y" "marks_ok s_header_field y" "xst y = s_header_field" "xpos x \<le> xpos y" "xpos y \<le> length (data env)"
    using moved_frame [OF y(2) pre(1)] moved_marks [OF y(2) pre(2)] moved_sel(1) [OF y(2)] assms(2) y(2)
    by (simp_all only: moved_def)
  have sel: "header_field_mark y = header_field_mark x" "header_value_mark y = header_value_mark x" "url_mark y = url_mark x"
      "body_mark y = body_mark x" "status_mark y = status_mark x"
    using moved_sel [OF y(2)] by simp_all
  show ?thesis
  proof (cases "xpos y = length (data env)")
    case True
    have "marks_ok s_header_field (y\<lparr>xpos := length (data env) - 1\<rparr>)"
      using pre(2,3) sel by (auto simp: marks_ok_def mark_ok_def set_defs split: option.splits)
    moreover have "state_inv s_header_field (xp y)"
      using y(3) by (auto simp: state_inv_def chunk_states_def chunk_line_states_def)
    ultimately show ?thesis
      using True y(1) fy pre(3) by (auto simp: case_header_field_def Let_def xinv_def frame_ok_def zero_nread_def not_less)
  next
    case False
    have pl: "plain s_header_value_discard_ws" by (simp add: plain_def set_defs)
    have "ctl_ok env (rank (xst x)) (xpos x)
        (data_header_field env 1 (UPDATE_STATE s_header_value_discard_ws (y\<lparr>xnread := n\<rparr>)) Break)"
      if "\<not> max_header_size env < n" for n
      using that fy False pl assms(3)
      by (intro header_field_data_ok) (auto simp: frame_ok_def)
    then show ?thesis
      using False y(1) fy by (auto simp: case_header_field_def Let_def hard_error_def)
  qed
qed

end

section \<open>Values\<close>

lemma value_start_ok:
  assumes "value_start ch p = Inr q"
  shows "header_frame q p \<and> value_state (header_state q)"
  using assms
  by (auto simp: value_start_def Let_def header_frame_def value_state_def split: header_states.splits if_splits)

lemma value_start_err: "value_start ch p = Inl e \<Longrightarrow> hard_error e"
  by (auto simp: value_start_def Let_def hard_error_def split: header_states.splits if_splits)

lemma value_states:
  "value_state h_general" "value_state h_content_length_num" "value_state h_content_length_ws"
  "value_state h_matching_transfer_encoding_token_start" "value_state h_matching_transfer_encoding_token"
  "value_state h_matching_transfer_encoding_chunked" "value_state h_matching_connection_token_start"
  "value_state h_matching_connection_token" "value_state h_matching_connection_keep_alive"
  "value_state h_matching_connection_close" "value_state h_matching_connection_upgrade"
  "value_state h_transfer_encoding_chunked" "value_state h_connection_keep_alive"
  "value_state h_connection_close" "value_state h_connection_upgrade"
  by (simp_all add: value_state_def)

definition value_result_ok :: "http_parser \<Rightarrow> value_result \<Rightarrow> bool" where
  "value_result_ok p r \<longleftrightarrow> (case r of Inl None \<Rightarrow> False | Inl (Some h) \<Rightarrow> True
                            | Inr (h, q) \<Rightarrow> header_frame q p \<and> value_state h)"

lemma value_result_ok_simps [simp]:
  "value_result_ok p (Inl (Some h))" "value_result_ok p (Inr (h, q)) \<longleftrightarrow> header_frame q p \<and> value_state h"
  by (simp_all add: value_result_ok_def)

lemma content_length_digit_ok: "value_result_ok p (content_length_digit ch p)"
  by (simp add: content_length_digit_def Let_def value_states header_frame_def)

lemma match_value_ok:
  "value_state stay \<Longrightarrow> value_state miss \<Longrightarrow> value_state hit \<Longrightarrow> value_result_ok p (match_value m stay miss hit c p)"
  by (simp add: match_value_def match_step_def Let_def header_frame_def)

lemma connection_done_ok: "value_state h \<Longrightarrow> value_result_ok p (connection_done ch h p)"
  by (simp add: connection_done_def connection_flag_def header_frame_def value_states)

lemma value_char_ok: "value_state h \<Longrightarrow> value_result_ok p (value_char ch h p)"
  by (cases h)
     (simp_all add: value_char_def Let_def value_states content_length_digit_ok match_value_ok connection_done_ok
       header_frame_def, simp_all add: value_state_def)

lemma scan_general_ok:
  assumes "xpos x \<le> pe" and "pe \<le> length (data env)"
  shows "\<exists>b y. scan_general env x pe = Inr (b, y) \<and> y = x\<lparr>xpos := xpos y, xch := xch y\<rparr> \<and>
     xpos y \<le> pe \<and> (\<not> b \<longrightarrow> xpos y < pe)"
  using assms
proof (induction env x pe rule: scan_general.induct)
  case (1 env x pe)
  let ?x = "x\<lparr>xch := data env ! xpos x\<rparr>"
  consider "xpos x = pe" | "xpos x < pe" "xch ?x = CR \<or> xch ?x = LF"
    | "xpos x < pe" "xch ?x \<noteq> CR" "xch ?x \<noteq> LF" "\<not> lenient env \<and> \<not> IS_HEADER_CHAR (xch ?x)"
    | "xpos x < pe" "xch ?x \<noteq> CR" "xch ?x \<noteq> LF" "\<not> (\<not> lenient env \<and> \<not> IS_HEADER_CHAR (xch ?x))"
    using "1.prems" by linarith
  then show ?case
  proof cases
    case 1
    then show ?thesis by (subst scan_general.simps) (simp add: ex_bool_eq)
  next
    case 2
    then have "scan_general env x pe = Inr (True, x\<lparr>xpos := xpos x - 1, xch := data env ! xpos x\<rparr>)"
      using "1.prems" by (subst scan_general.simps) auto
    then show ?thesis
      using 2 by (intro exI [where x = True] exI [where x = "x\<lparr>xpos := xpos x - 1, xch := data env ! xpos x\<rparr>"]) simp
  next
    case 3
    then have "scan_general env x pe = Inr (False, ?x)"
      using "1.prems" by (subst scan_general.simps) auto
    then show ?thesis using 3 by (simp add: ex_bool_eq)
  next
    case 4
    let ?y = "?x\<lparr>xpos := xpos x + 1\<rparr>"
    have "\<exists>b y. scan_general env ?y pe = Inr (b, y) \<and> y = ?y\<lparr>xpos := xpos y, xch := xch y\<rparr> \<and>
        xpos y \<le> pe \<and> (\<not> b \<longrightarrow> xpos y < pe)"
      using "1.IH" [OF _ _ refl] 4 "1.prems" by simp
    then obtain b y where y: "scan_general env ?y pe = Inr (b, y)" "y = ?y\<lparr>xpos := xpos y, xch := xch y\<rparr>"
        "xpos y \<le> pe" "\<not> b \<longrightarrow> xpos y < pe" by blast
    have "?y\<lparr>xpos := k, xch := c\<rparr> = x\<lparr>xpos := k, xch := c\<rparr>" for k c by simp
    with y(2) have "y = x\<lparr>xpos := xpos y, xch := xch y\<rparr>" by (rule trans)
    moreover have "scan_general env x pe = Inr (b, y)"
      using y(1) 4 "1.prems" by (subst scan_general.simps) (auto simp: Let_def)
    ultimately show ?thesis using y(3,4) by blast
  qed
qed

text \<open>Inside a value that started at \<open>start\<close>: the marks lie before it.\<close>

definition in_value :: "'u env \<Rightarrow> nat \<Rightarrow> 'u xstate \<Rightarrow> bool" where
  "in_value env start x \<longleftrightarrow> frame_ok env x \<and> xst x = s_header_value \<and>
     marks_ok s_header_value (x\<lparr>xpos := start\<rparr>) \<and> start \<le> xpos x \<and> xpos x \<le> length (data env) \<and>
     start < length (data env)"

lemma in_value_moved:
  assumes "in_value env start x" and "moved env x y"
  shows "in_value env start y"
proof -
  have "xpos x \<le> xpos y" "xpos y \<le> length (data env)" using assms(2) by (simp_all only: moved_def)
  then show ?thesis
    using assms moved_frame [OF assms(2)] moved_sel [OF assms(2)] by (simp add: in_value_def marks_ok_def)
qed

lemma marks_ok_later: "marks_ok t (x\<lparr>xpos := a\<rparr>) \<Longrightarrow> a \<le> b \<Longrightarrow> marks_ok t (x\<lparr>xpos := b\<rparr>)"
  by (auto simp: marks_ok_def mark_ok_def split: option.splits)

lemma value_exit_ok:
  assumes "frame_ok env x" and "state_inv (xst x) ((xp x)\<lparr>header_state := h\<rparr>)" and "xst x \<noteq> s_chunk_size_start"
    and "marks_ok (xst x) (x\<lparr>xpos := start\<rparr>)" and "start \<le> xpos x" and "xpos x \<le> length (data env)"
    and "start < length (data env)" and "p0 \<le> start"
  shows "ctl_ok env rk p0 (value_exit env start h x)"
proof -
  have m: "marks_ok (xst x) (x\<lparr>xpos := k\<rparr>)" if "start \<le> k" for k
    using marks_ok_later [OF assms(4) that] .
  have "marks_ok (xst x) x" using m [of "xpos x"] assms(5) by simp
  moreover note m
  moreover have "marks_ok t ((x\<lparr>xp := p\<rparr>)\<lparr>xpos := k\<rparr>) = marks_ok t (x\<lparr>xpos := k\<rparr>)" for t p k
    by (simp add: marks_ok_def)
  ultimately show ?thesis
    using assms by (auto simp: value_exit_def Let_def xinv_def frame_ok_def zero_nread_def)
qed

lemma header_value_state_inv: "value_state h \<Longrightarrow> state_inv s_header_value (p\<lparr>header_state := h\<rparr>)"
  by (simp add: state_inv_def set_defs)

lemma value_turn_general:
  assumes "in_value env start x" and "xpos x < length (data env)"
    and "data env ! xpos x \<noteq> CR" "data env ! xpos x \<noteq> LF" and "lenient env \<or> IS_HEADER_CHAR (data env ! xpos x)"
  shows "(\<exists>r. value_turn env start h_general x = Inl r \<and> ctl_ok env rk p0 r) \<or>
         (\<exists>y. value_turn env start h_general x = Inr (h_general, y) \<and> moved env x y \<and> xpos y < length (data env))"
proof -
  let ?x = "x\<lparr>xch := data env ! xpos x\<rparr>"
  have lim: "xpos ?x \<le> field_limit env (xpos x)" "field_limit env (xpos x) \<le> length (data env)"
    using assms(2) by (auto simp: field_limit_def)
  obtain b y where y: "scan_general env ?x (field_limit env (xpos x)) = Inr (b, y)"
      "y = ?x\<lparr>xpos := xpos y, xch := xch y\<rparr>" "xpos y \<le> field_limit env (xpos x)" "\<not> b \<longrightarrow> xpos y < field_limit env (xpos x)"
    using scan_general_ok [OF lim] by blast
  have ge: "xpos x \<le> xpos y" using scan_general_start [OF y(1)] assms(3,4) by simp
  show ?thesis
  proof (cases b)
    case False
    then show ?thesis
      using y lim assms(3-5) by (auto simp: value_turn_def Let_def hard_error_def)
  next
    case True
    let ?y = "if xpos y = length (data env) then y\<lparr>xpos := xpos y - 1\<rparr> else y"
    have "?y = x\<lparr>xp := xp x, xpos := xpos ?y, xch := xch y\<rparr>" by (subst (1 2) y(2)) simp
    moreover have "xpos x \<le> xpos ?y" "xpos ?y < length (data env)" using ge y(3) lim assms(2) by auto
    ultimately have "moved env x ?y"
      using movedI [where y = ?y and x = x and p = "xp x" and k = "xpos ?y" and c = "xch y" and env = env] header_frame_refl less_imp_le by blast
    then show ?thesis
      using True y(1) assms(3-5) \<open>xpos ?y < length (data env)\<close>
      by (intro disjI2 exI [where x = ?y]) (auto simp: value_turn_def Let_def)
  qed
qed

context tame_callbacks
begin

lemma header_value_data_ok:
  assumes "frame_ok env x" and "xpos x < length (data env)" and "marks_ok s_header_value x" and "settings env = s"
    and "plain (xst x)" and "adv \<le> 1"
    and "\<And>t u. ctl_ok env rk p0 (k ((resumed t u x)\<lparr>header_value_mark := None\<rparr>))"
  shows "ctl_ok env rk p0 (data_header_value env adv x k)"
proof -
  have m: "header_value_mark x = Some q \<Longrightarrow> q \<le> xpos x" for q
    using assms(3) by (simp add: marks_ok_def)
  show ?thesis
    unfolding data_header_value_def
    using assms tame_env [OF assms(4)] m
    by (intro data_ok) (auto simp: hard_error_def)
qed

lemma value_turn_ok:
  assumes "in_value env start x" and "value_state h" and "xpos x < length (data env)" and "settings env = s"
    and "p0 \<le> start" and "0 < rk"
  shows "(\<exists>r. value_turn env start h x = Inl r \<and> ctl_ok env rk p0 r) \<or>
         (\<exists>h' y. value_turn env start h x = Inr (h', y) \<and> value_state h' \<and> moved env x y \<and> xpos y < length (data env))"
proof -
  let ?c = "data env ! xpos x"
  let ?x = "x\<lparr>xch := ?c\<rparr>"
  let ?y = "on_parser (\<lambda>p. p\<lparr>header_state := h\<rparr>) (UPDATE_STATE s_header_almost_done ?x)"
  have pl: "plain s_header_almost_done" by (simp add: plain_def set_defs)
  have v: "frame_ok env x" "marks_ok s_header_value (x\<lparr>xpos := start\<rparr>)" "start \<le> xpos x" "start < length (data env)"
    using assms(1) by (auto simp: in_value_def)
  have mk: "marks_ok s_header_value x" using marks_ok_later [OF v(2,3)] by simp
  have nm: "no_marks (x\<lparr>header_value_mark := None\<rparr>)"
    using mk by (simp add: marks_ok_def no_marks_def set_defs)
  have y: "frame_ok env ?y" "marks_ok s_header_value ?y" using v(1) mk by (simp_all add: frame_ok_def)
  consider "?c = CR" | "?c = LF" "?c \<noteq> CR" | "?c \<noteq> CR" "?c \<noteq> LF" "\<not> lenient env \<and> \<not> IS_HEADER_CHAR ?c"
    | "?c \<noteq> CR" "?c \<noteq> LF" "lenient env \<or> IS_HEADER_CHAR ?c" "h = h_general"
    | "?c \<noteq> CR" "?c \<noteq> LF" "lenient env \<or> IS_HEADER_CHAR ?c" "h \<noteq> h_general" by blast
  then show ?thesis
  proof cases
    case 1
    have ex: "ctl_ok env rk p0 (value_exit env start h ((resumed t u ?y)\<lparr>header_value_mark := None\<rparr>))" for t u
      using v nm assms(3,5) pl
      by (intro value_exit_ok) (simp_all add: frame_ok_def no_marks_def plain_not_start)
    have "ctl_ok env rk p0 (data_header_value env 1 ?y (value_exit env start h))"
      using y assms(3,4) pl ex by (intro header_value_data_ok) simp_all
    then show ?thesis using 1 by (simp add: value_turn_def Let_def)
  next
    case 2
    have "ctl_ok env rk p0 (data_header_value env 0
        (on_parser (\<lambda>p. p\<lparr>header_state := h\<rparr>) ((UPDATE_STATE s_header_almost_done ?x)\<lparr>xnread := n\<rparr>)) Reexec)"
      if "n \<le> max_header_size env" for n
      using y assms(3-6) v pl nm that
      by (intro header_value_data_ok) (auto simp: xinv_def frame_ok_def rank_def no_marks_def)
    then show ?thesis
      using 2 assms(3) by (auto simp: value_turn_def Let_def hard_error_def not_less)
  next
    case 3
    then show ?thesis using assms(3) by (simp add: value_turn_def Let_def hard_error_def)
  next
    case 4
    then show ?thesis
      using value_turn_general [OF assms(1,3) 4(1-3), of rk p0] by (auto simp: value_states)
  next
    case 5
    note vr = value_char_ok [OF assms(2), of "xp x" ?c]
    show ?thesis
    proof (cases "value_char ?c h (xp x)")
      case (Inl e)
      then show ?thesis
        using 5 vr assms(3) by (cases e) (auto simp: value_turn_def Let_def hard_error_def value_result_ok_def)
    next
      case (Inr hq)
      obtain h' q where hq: "hq = (h', q)" by (cases hq)
      have "moved env x (?x\<lparr>xp := q\<rparr>)"
        using vr Inr hq assms(3) by (intro movedI [where p = q and k = "xpos x" and c = ?c]) auto
      then show ?thesis
        using 5 Inr hq vr assms(3) by (auto simp: value_turn_def Let_def)
    qed
  qed
qed

lemma value_loop_ok:
  assumes "in_value env start x" and "value_state h" and "settings env = s" and "p0 \<le> start" and "0 < rk"
  shows "ctl_ok env rk p0 (value_loop env start h x)"
  using assms
proof (induction env start h x rule: value_loop.induct)
  case (1 env start h x)
  have le: "xpos x \<le> length (data env)" using "1.prems"(1) by (simp add: in_value_def)
  show ?case
  proof (cases "xpos x = length (data env)")
    case True
    have "ctl_ok env rk p0 (value_exit env start h x)"
      using "1.prems" header_value_state_inv
      by (intro value_exit_ok) (auto simp: in_value_def)
    then show ?thesis using True by (subst value_loop.simps) simp
  next
    case False
    then have lt: "xpos x < length (data env)" using le by simp
    from value_turn_ok [OF "1.prems"(1,2) lt "1.prems"(3-5)] consider
        r where "value_turn env start h x = Inl r" "ctl_ok env rk p0 r"
      | h' y where "value_turn env start h x = Inr (h', y)" "value_state h'" "moved env x y" "xpos y < length (data env)"
      by blast
    then show ?thesis
    proof cases
      case 1
      then show ?thesis using lt by (subst value_loop.simps) simp
    next
      case 2
      let ?y = "y\<lparr>xpos := xpos y + 1\<rparr>"
      have "moved env y ?y"
        using 2(4) by (intro movedI [where p = "xp y" and k = "xpos y + 1" and c = "xch y"]) simp_all
      then have "in_value env start ?y"
        using in_value_moved [OF "1.prems"(1) 2(3)] in_value_moved by blast
      then have "ctl_ok env rk p0 (value_loop env start h' ?y)"
        using "1.IH" [OF False _ 2(1) refl _ 2(2)] lt "1.prems" by simp
      then show ?thesis using 2 lt by (subst value_loop.simps) simp
    qed
  qed
qed

lemma header_value_ok:
  assumes "step_pre env x" and "xst x = s_header_value" and "settings env = s"
  shows "ctl_ok env (rank (xst x)) (xpos x) (case_header_value env x)"
proof -
  have "in_value env (xpos x) x" "value_state (header_state (xp x))"
    using assms(1,2) by (auto simp: step_pre_def xinv_def in_value_def state_inv_def)
  then show ?thesis
    using assms(2,3) by (auto simp: case_header_value_def rank_def intro: value_loop_ok)
qed

lemma header_value_start_ok:
  assumes "frame_ok env x" and "no_marks x" and "xpos x < length (data env)" 
  shows "ctl_ok env rk (xpos x) (case_header_value_start env x)"
proof (cases "value_start (xch x) ((xp x)\<lparr>index := 0\<rparr>)")
  case (Inl e)
  then show ?thesis using value_start_err [OF Inl] assms by (simp add: case_header_value_start_def Let_def)
next
  case (Inr q)
  then show ?thesis
    using value_start_ok [OF Inr] assms header_value_state_inv [of "header_state q" q]
    by (auto simp: case_header_value_start_def Let_def xinv_def frame_ok_def header_frame_def zero_nread_def
        marks_ok_def no_marks_def MARK_def)
qed

lemma header_value_discard_ws_ok:
  assumes "step_pre env x" and "xst x = s_header_value_discard_ws"
  shows "ctl_ok env (rank (xst x)) (xpos x) (case_header_value_discard_ws env x)"
proof -
  have pl: "plain s_header_value_discard_ws" "plain s_header_value_discard_ws_almost_done" "plain s_header_value_discard_lws"
    by (simp_all add: plain_def set_defs)
  then have n: "no_marks x" "frame_ok env x" "xpos x < length (data env)"
    using assms by (auto simp: step_pre_def xinv_def)
  then show ?thesis
    using header_value_start_ok [OF n(2,1,3)] pl assms(2)
    by (auto simp: case_header_value_discard_ws_def xinv_def frame_ok_def)
qed

end

end
