(* ===== verification/Http_Safe_Body.thy ===== *)
theory Http_Safe_Body
  imports Http_Safe_Header
begin

text \<open>
  The cases of the end of the headers, the body and the chunks keep the invariant: the
  assertions on \<open>F_CHUNKED\<close>, \<open>content_length\<close> and \<open>nread\<close> hold, and \<open>content_length\<close> never
  becomes \<open>ULLONG_MAX\<close> by reading digits.
\<close>

section \<open>Numbers\<close>

lemma ULLONG_MAX_max: "w \<le> ULLONG_MAX"
  by (simp add: ULLONG_MAX_def)

lemma digits_below_max:
  fixes w t :: u64
  assumes "\<not> (ULLONG_MAX - 16) div 16 < w" and "0 \<le> d" and "d < 16"
  shows "w * 16 + of_int d \<noteq> ULLONG_MAX"
proof -
  have b: "(ULLONG_MAX - 16) div 16 = 0xFFFFFFFFFFFFFFE"
    by (simp add: ULLONG_MAX_def)
  have w: "unat w \<le> 0xFFFFFFFFFFFFFFE"
    using assms(1) unfolding b not_less word_le_nat_alt by simp
  obtain n where d: "d = int n" using assms(2) by (rule nonneg_int_cases)
  then have n: "d = int n" "n < 16" using assms(3) by simp_all
  have "w * 16 + of_int d = of_nat (unat w * 16 + n)" using n by simp
  then have "unat (w * 16 + of_int d) = (unat w * 16 + n) mod 2 ^ 64"
    by (simp only: unat_of_nat) simp
  also have "\<dots> = unat w * 16 + n" using w n by simp
  finally have "unat (w * 16 + of_int d) < 18446744073709551615" using w n by linarith
  moreover have "unat ULLONG_MAX = 18446744073709551615" by (simp add: ULLONG_MAX_def unsigned_minus_1_eq_mask mask_eq_exp_minus_1)
  ultimately show ?thesis by force
qed

lemma unhex_range: "unhex_of ch \<noteq> -1 \<Longrightarrow> 0 \<le> unhex_of ch \<and> unhex_of ch < 16"
  by (cases "IS_NUM ch"; cases "IS_HEX ch") (auto simp: unhex_iff IS_NUM_def IS_HEX_def split: if_splits)

lemma small_not_max: "0 \<le> d \<Longrightarrow> d < 16 \<Longrightarrow> (of_int d :: u64) \<noteq> ULLONG_MAX"
  using digits_below_max [of 0 d] by (simp add: ULLONG_MAX_def)

lemma unat_sub_of_nat:
  fixes w :: u64
  assumes "n \<le> unat w"
  shows "unat (w - of_nat n) = unat w - n"
proof -
  have "w - of_nat n = of_nat (unat w - n)" using assms by (simp add: of_nat_diff)
  moreover have "unat w < 2 ^ LENGTH(64)" by (rule unsigned_less)
  ultimately show ?thesis by (simp only: unat_of_nat) simp
qed

lemma sub_not_max:
  fixes w :: u64
  assumes "n \<le> unat w" and "w \<noteq> ULLONG_MAX"
  shows "w - of_nat n \<noteq> ULLONG_MAX"
proof
  assume "w - of_nat n = ULLONG_MAX"
  then have "unat ULLONG_MAX \<le> unat w" using unat_sub_of_nat [OF assms(1)] by simp
  then show False using assms(2) ULLONG_MAX_max [of w] by (simp add: word_le_nat_alt [symmetric])
qed

section \<open>The cases\<close>

lemma finish_flag_sel [simp]:
  "nread (finish_flag p) = nread p" "http_errno (finish_flag p) = http_errno p" "pstate (finish_flag p) = pstate p"
  by (simp_all add: finish_flag_def split: header_states.splits)

lemma plain_states [simp]:
  "plain s_header_field_start" "plain s_header_value_lws" "plain s_header_almost_done" "plain s_header_value_start"
  "plain s_header_value_discard_ws" "plain s_header_value_discard_ws_almost_done" "plain s_header_value_discard_lws"
  "plain s_headers_almost_done" "plain s_headers_done" "plain s_message_done" "plain s_dead" "plain s_start_req"
  "plain s_start_res"
  by (simp_all add: plain_def set_defs)

lemma new_message_plain [simp]: "plain (NEW_MESSAGE p)"
  by (simp add: NEW_MESSAGE_def start_state_def)

lemma step_plain:
  "step_pre env x \<Longrightarrow> plain (xst x) \<Longrightarrow> no_marks x \<and> frame_ok env x \<and> xpos x < length (data env)"
  by (simp add: step_pre_def xinv_def)

context tame_callbacks
begin

lemma header_almost_done_ok:
  "step_pre env x \<Longrightarrow> xst x = s_header_almost_done \<Longrightarrow>
   ctl_ok env (rank (xst x)) (xpos x) (case_header_almost_done env x)"
  by (simp add: case_header_almost_done_def step_pre_def xinv_def frame_ok_def hard_error_def)

lemma header_value_lws_ok:
  assumes "step_pre env x" and "xst x = s_header_value_lws"
  shows "ctl_ok env (rank (xst x)) (xpos x) (case_header_value_lws env x)"
  using assms by (simp add: case_header_value_lws_def Let_def step_pre_def xinv_def frame_ok_def rank_def)

lemma header_value_discard_ws_almost_done_ok:
  "step_pre env x \<Longrightarrow> xst x = s_header_value_discard_ws_almost_done \<Longrightarrow>
   ctl_ok env (rank (xst x)) (xpos x) (case_header_value_discard_ws_almost_done env x)"
  by (simp add: case_header_value_discard_ws_almost_done_def step_pre_def xinv_def frame_ok_def)

lemma header_value_discard_lws_ok:
  assumes "step_pre env x" and "xst x = s_header_value_discard_lws" and "settings env = s"
  shows "ctl_ok env (rank (xst x)) (xpos x) (case_header_value_discard_lws env x)"
proof -
  have n: "no_marks x" "frame_ok env x" "xpos x < length (data env)" using step_plain [OF assms(1)] assms(2) by auto
  let ?y = "UPDATE_STATE s_header_field_start ((on_parser finish_flag x)
        \<lparr>header_value_mark := MARK (header_value_mark x) (xpos x)\<rparr>)"
  have "ctl_ok env 4 (xpos x) (data_header_value env 0 ?y Reexec)"
    using n assms(3)
    by (intro header_value_data_ok) (auto simp: frame_ok_def marks_ok_def no_marks_def MARK_def xinv_def rank_def)
  then show ?thesis
    using n assms(2)
    by (simp add: case_header_value_discard_lws_def Let_def xinv_def frame_ok_def hard_error_def rank_def)
qed

lemma set_flag_frame: "frame_ok env x \<Longrightarrow> frame_ok env (on_parser (set_flag f) x)"
  by (simp add: frame_ok_def)

text \<open>After \<open>on_headers_complete\<close>: the parser as it was, apart from \<open>flags\<close>, \<open>upgrade\<close> and the error.\<close>

lemma headers_complete_ok:
  assumes "settings env = s" and "no_marks x" and "frame_ok env x" and "xpos x < length (data env)"
    and "xst x = s_headers_done"
    and "\<And>p u. nread p = nread (xp x) \<Longrightarrow> ctl_ok env rk (xpos x) (k (x\<lparr>xp := p, xusr := u\<rparr>))"
  shows "ctl_ok env rk (xpos x) (headers_complete env x k)"
proof (cases "on_headers_complete (settings env)")
  case None
  have "ctl_ok env rk (xpos x) (k (x\<lparr>xp := xp x, xusr := xusr x\<rparr>))" by (rule assms(6)) simp
  then show ?thesis using None by (simp add: headers_complete_def)
next
  case (Some f)
  obtain r p' u' where f: "f (xp x) (xusr x) = (r, p', u')" by (cases rule: prod_cases3)
  then obtain e where "p' = (xp x)\<lparr>http_errno := e\<rparr>"
    using tame_env(6) [OF assms(1)] Some unfolding tame_cb_def by blast
  then have p': "nread p' = nread (xp x)" by simp
  have k: "ctl_ok env rk (xpos x) (k (x\<lparr>xp := q, xusr := u'\<rparr>))" if "nread q = nread p'" for q
    using assms(6) that p' by simp
  have swap: "x\<lparr>xusr := u', xp := q\<rparr> = x\<lparr>xp := q, xusr := u'\<rparr>" for q by simp
  show ?thesis
    using f Some k [of p'] k [of "set_flag F_SKIPBODY p'"] k [of "set_flag F_SKIPBODY (p'\<lparr>upgrade := True\<rparr>)"] assms(4)
    by (auto simp: headers_complete_def Let_def swap RETURN_def SET_ERRNO_def final_ok_def parser_ok_def)
qed

lemma headers_almost_done_ok:
  assumes "step_pre env x" and "xst x = s_headers_almost_done" and "settings env = s"
  shows "ctl_ok env (rank (xst x)) (xpos x) (case_headers_almost_done env x)"
proof -
  have n: "no_marks x" "frame_ok env x" "xpos x < length (data env)" using step_plain [OF assms(1)] assms(2) by auto
  have trailing: "ctl_ok env 2 (xpos x) (CALLBACK_NOTIFY_NOADVANCE (on_chunk_complete (settings env))
      HPE_CB_chunk_complete (UPDATE_STATE s_message_done x) Reexec)"
    using n tame_env [OF assms(3)]
    by (intro notify_ok) (auto simp: frame_ok_def hard_error_def xinv_def rank_def)
  let ?y = "on_parser (\<lambda>p. p\<lparr>upgrade := upgrade_of p\<rparr>) (UPDATE_STATE s_headers_done x)"
  let ?k = "\<lambda>x. if http_errno (xp x) \<noteq> HPE_OK then RETURN (xpos x) x else Reexec x"
  have k: "ctl_ok env 2 (xpos ?y) (?k (?y\<lparr>xp := p, xusr := u\<rparr>))" if "nread p = nread (xp ?y)" for p u
    using that n by (simp add: RETURN_def final_ok_def parser_ok_def frame_ok_def xinv_def rank_def)
  have "frame_ok env ?y" using n by (simp add: frame_ok_def)
  then have "ctl_ok env 2 (xpos ?y) (headers_complete env ?y ?k)"
    using n k by (intro headers_complete_ok [OF assms(3)]) simp_all
  then show ?thesis
    using trailing n assms(2) by (simp add: case_headers_almost_done_def Let_def rank_def hard_error_def)
qed

lemma finish_message_ok:
  assumes "settings env = s" and "no_marks x" and "frame_ok env x" and "xpos x < length (data env)"
    and "\<And>t u. ctl_ok env rk p0 (k (UPDATE_STATE (NEW_MESSAGE (xp x)) (resumed t u x)))"
  shows "ctl_ok env rk p0 (finish_message env x k)"
proof -
  have "ctl_ok env rk p0 (k (resumed t u (UPDATE_STATE (NEW_MESSAGE (xp x)) x)))" for t u
  proof -
    have "resumed t u (UPDATE_STATE (NEW_MESSAGE (xp x)) x) = UPDATE_STATE (NEW_MESSAGE (xp x)) (resumed t u x)"
      by simp
    then show ?thesis using assms(5) by metis
  qed
  then show ?thesis
    unfolding finish_message_def
    using assms(2-4) tame_env [OF assms(1)]
    by (intro notify_ok) (auto simp: frame_ok_def hard_error_def)
qed

lemma headers_done_ok:
  assumes "step_pre env x" and "xst x = s_headers_done" and "settings env = s"
  shows "ctl_ok env rk (xpos x) (case_headers_done env x)"
proof -
  have n: "no_marks x" "frame_ok env x" "xpos x < length (data env)" using step_plain [OF assms(1)] assms(2) by auto
  let ?y = "(on_parser (\<lambda>p. p\<lparr>nread := 0\<rparr>) x)\<lparr>xnread := 0\<rparr>"
  have y: "no_marks ?y" "frame_ok env ?y" "xpos ?y < length (data env)" using n by (simp_all add: frame_ok_def)
  have br: "ctl_ok env rk (xpos x) (finish_message env ?y Break)"
    using y n by (intro finish_message_ok [OF assms(3)]) (auto simp: xinv_def frame_ok_def)
  have ret: "ctl_ok env rk (xpos x) (finish_message env ?y (\<lambda>x. RETURN (xpos x + 1) x))" if "upgrade (xp ?y)"
    using y n that
    by (intro finish_message_ok [OF assms(3)])
       (auto simp: RETURN_def final_ok_def parser_ok_def frame_ok_def dest!: plain_not_start)
  have chunk: "ctl_ok env rk (xpos x) (Break (UPDATE_STATE s_chunk_size_start ?y))" if "has_flag (xp ?y) F_CHUNKED"
    using n that by (auto simp: xinv_def frame_ok_def zero_nread_def state_inv_def marks_ok_def no_marks_def set_defs)
  have eof: "ctl_ok env rk (xpos x) (Break (UPDATE_STATE s_body_identity_eof ?y))"
    using n by (auto simp: xinv_def frame_ok_def zero_nread_def state_inv_def marks_ok_def no_marks_def set_defs)
  have ident: "ctl_ok env rk (xpos x) (Break (UPDATE_STATE s_body_identity ?y))"
    if "content_length (xp ?y) \<noteq> 0" "content_length (xp ?y) \<noteq> ULLONG_MAX"
    using n that by (auto simp: xinv_def frame_ok_def zero_nread_def state_inv_def marks_ok_def no_marks_def set_defs)
  have te: "ctl_ok env rk (xpos x) (RETURN (xpos ?y) (SET_ERRNO HPE_INVALID_TRANSFER_ENCODING ?y))"
    using n by (simp add: RETURN_def final_ok_def parser_ok_def)
  show ?thesis
    using n br ret chunk eof ident te
    by (simp add: case_headers_done_def Let_def split del: if_split) (auto simp: RETURN_def)
qed

section \<open>The body\<close>

lemma body_pre:
  assumes "step_pre env x" and "xst x \<in> {s_body_identity, s_body_identity_eof, s_chunk_data, s_chunk_data_almost_done}"
  shows "frame_ok env x" "xpos x < length (data env)" "marks_ok s_body_identity x"
  using assms by (auto simp: step_pre_def xinv_def marks_ok_def set_defs)

lemma take_body_ok:
  assumes "frame_ok env x" and "xpos x < length (data env)" and "marks_ok s_body_identity x"
    and "content_length (xp x) \<noteq> 0" and "content_length (xp x) \<noteq> ULLONG_MAX"
  shows "frame_ok env (take_body env x)" "marks_ok s_body_identity (take_body env x)"
    "xpos x \<le> xpos (take_body env x)" "xpos (take_body env x) < length (data env)"
    "content_length (xp (take_body env x)) \<noteq> ULLONG_MAX" "flags (xp (take_body env x)) = flags (xp x)"
    "xst (take_body env x) = xst x" "nread (xp (take_body env x)) = nread (xp x)"
    "body_mark (take_body env x) \<noteq> None"
proof -
  let ?n = "to_read env x"
  have "0 < unat (content_length (xp x))" using assms(4) by (simp add: unat_gt_0)
  then have n: "1 \<le> ?n" "?n \<le> unat (content_length (xp x))" "xpos x + ?n \<le> length (data env)"
    using assms(2) by (auto simp: to_read_def)
  show "frame_ok env (take_body env x)" using assms(1) by (simp add: take_body_def Let_def frame_ok_def)
  show "xpos x \<le> xpos (take_body env x)" "xpos (take_body env x) < length (data env)"
    using n by (simp_all add: take_body_def Let_def)
  show "marks_ok s_body_identity (take_body env x)"
    using assms(3) n by (auto simp: take_body_def Let_def marks_ok_def set_defs MARK_def mark_ok_def split: option.splits)
  show "content_length (xp (take_body env x)) \<noteq> ULLONG_MAX"
    using sub_not_max [OF n(2) assms(5)] by (simp add: take_body_def Let_def)
qed (simp_all add: take_body_def Let_def MARK_def split: option.split)

lemma body_data_ok:
  assumes "frame_ok env x" and "xpos x < length (data env)" and "marks_ok s_body_identity x" and "settings env = s"
    and "plain (xst x) \<or> xst x = s_chunk_data_done \<and> has_flag (xp x) F_CHUNKED"
    and "stop = xpos x \<or> stop = xpos x + 1" and "er \<le> length (data env)"
    and "\<And>t u. ctl_ok env rk p0 (k ((resumed t u x)\<lparr>body_mark := None\<rparr>))"
  shows "ctl_ok env rk p0 (data_body env stop er x k)"
proof -
  have m: "body_mark x = Some q \<Longrightarrow> q \<le> stop" for q
    using assms(3,6) by (auto simp: marks_ok_def)
  have "state_inv (xst x) (xp x) \<and> zero_nread x"
    using assms(5)
  proof
    assume "plain (xst x)"
    then show ?thesis by simp
  qed (simp add: state_inv_def set_defs zero_nread_def)
  then show ?thesis
    unfolding data_body_def
    using assms tame_env [OF assms(4)] m
    by (intro data_ok) (auto simp: hard_error_def)
qed

lemma body_identity_ok:
  assumes "step_pre env x" and "xst x = s_body_identity" and "settings env = s"
  shows "ctl_ok env (rank (xst x)) (xpos x) (case_body_identity env x)"
proof -
  have pre: "frame_ok env x" "xpos x < length (data env)" "marks_ok s_body_identity x"
    using body_pre [OF assms(1)] assms(2) by auto
  have cl: "content_length (xp x) \<noteq> 0" "content_length (xp x) \<noteq> ULLONG_MAX"
    using assms(1,2) by (auto simp: step_pre_def xinv_def state_inv_def)
  note tb = take_body_ok [OF pre cl]
  let ?y = "UPDATE_STATE s_message_done (take_body env x)"
  have "no_marks ((take_body env x)\<lparr>body_mark := None\<rparr>)"
    using tb(2) by (simp add: marks_ok_def no_marks_def set_defs)
  then have "ctl_ok env 1 (xpos x) (data_body env (xpos ?y + 1) (xpos ?y) ?y Reexec)"
    using tb assms(3) by (intro body_data_ok) (auto simp: frame_ok_def xinv_def rank_def no_marks_def)
  then show ?thesis
    using cl tb assms(2) pre
    by (auto simp: case_body_identity_def Let_def rank_def xinv_def state_inv_def set_defs zero_nread_def)
qed

lemma body_identity_eof_ok:
  assumes "step_pre env x" and "xst x = s_body_identity_eof"
  shows "ctl_ok env (rank (xst x)) (xpos x) (case_body_identity_eof env x)"
proof -
  have "frame_ok env x" "xpos x < length (data env)" "marks_ok s_body_identity x"
    using body_pre [OF assms(1)] assms(2) by auto
  then show ?thesis
    using assms(2)
    by (auto simp: case_body_identity_eof_def xinv_def frame_ok_def state_inv_def marks_ok_def set_defs zero_nread_def
        MARK_def mark_ok_def split: option.splits)
qed

lemma message_done_ok:
  assumes "step_pre env x" and "xst x = s_message_done" and "settings env = s"
  shows "ctl_ok env (rank (xst x)) (xpos x) (case_message_done env x)"
proof -
  have n: "no_marks x" "frame_ok env x" "xpos x < length (data env)" using step_plain [OF assms(1)] assms(2) by auto
  moreover have "NEW_MESSAGE (xp x) \<noteq> s_chunk_size_start" using plain_not_start [OF new_message_plain] .
  ultimately show ?thesis
    unfolding case_message_done_def
    by (intro finish_message_ok [OF assms(3)])
       (auto simp: xinv_def frame_ok_def RETURN_def final_ok_def parser_ok_def dest!: plain_not_start)
qed

section \<open>Chunks\<close>

lemma chunk_pre:
  assumes "step_pre env x" and "xst x \<in> chunk_states"
  shows "frame_ok env x" "xpos x < length (data env)" "has_flag (xp x) F_CHUNKED" "state_inv (xst x) (xp x)"
  using assms by (auto simp: step_pre_def xinv_def state_inv_def)

lemma chunk_no_marks:
  assumes "step_pre env x" and "xst x \<in> {s_chunk_size_start, s_chunk_size, s_chunk_parameters, s_chunk_size_almost_done, s_chunk_data_done}"
  shows "no_marks x"
  using assms by (auto simp: step_pre_def xinv_def marks_ok_def no_marks_def set_defs)

lemma chunk_size_start_ok:
  assumes "step_pre env x" and "xst x = s_chunk_size_start"
  shows "ctl_ok env rk (xpos x) (case_chunk_size_start env x)"
proof -
  have pre: "frame_ok env x" "xpos x < length (data env)" "has_flag (xp x) F_CHUNKED" "no_marks x" "xnread x = 1"
    using chunk_pre [OF assms(1)] chunk_no_marks [OF assms(1)] assms by (auto simp: step_pre_def set_defs)
  have "of_int (unhex_of (xch x)) \<noteq> ULLONG_MAX" if "unhex_of (xch x) \<noteq> -1"
    using unhex_range [OF that] small_not_max by blast
  then show ?thesis
    using pre
    by (auto simp: case_chunk_size_start_def Let_def hard_error_def xinv_def frame_ok_def state_inv_def zero_nread_def
        marks_ok_def no_marks_def has_flag_def set_defs)
qed

lemma chunk_size_ok:
  assumes "step_pre env x" and "xst x = s_chunk_size"
  shows "ctl_ok env rk (xpos x) (case_chunk_size env x)"
proof -
  have pre: "frame_ok env x" "xpos x < length (data env)" "has_flag (xp x) F_CHUNKED" "no_marks x"
      "content_length (xp x) \<noteq> ULLONG_MAX"
    using chunk_pre [OF assms(1)] chunk_no_marks [OF assms(1)] assms(2) by (auto simp: state_inv_def set_defs)
  have dig: "content_length (xp x) * 16 + of_int (unhex_of (xch x)) \<noteq> ULLONG_MAX"
    if "unhex_of (xch x) \<noteq> -1" "\<not> (ULLONG_MAX - 16) div 16 < content_length (xp x)"
    using unhex_range [OF that(1)] digits_below_max [OF that(2)] by blast
  have st: "xinv env (UPDATE_STATE t (x\<lparr>xp := p\<rparr>))" "zero_nread (UPDATE_STATE t (x\<lparr>xp := p\<rparr>))"
    if "t \<in> chunk_line_states" "http_errno p = HPE_OK" "nread p = nread (xp x)" "flags p = flags (xp x)"
      "content_length p \<noteq> ULLONG_MAX" for t p
    using that pre
    by (auto simp: xinv_def frame_ok_def state_inv_def zero_nread_def marks_ok_def no_marks_def has_flag_def set_defs)
  have self: "x\<lparr>xp := p\<rparr> = UPDATE_STATE s_chunk_size (x\<lparr>xp := p\<rparr>)" for p using assms(2) by simp
  have line: "s_chunk_size \<in> chunk_line_states" "s_chunk_parameters \<in> chunk_line_states"
      "s_chunk_size_almost_done \<in> chunk_line_states" by (simp_all add: chunk_line_states_def)
  let ?p = "(xp x)\<lparr>content_length := content_length (xp x) * 16 + of_int (unhex_of (xch x))\<rparr>"
  have ok: "http_errno (xp x) = HPE_OK" using pre(1) by (simp add: frame_ok_def)
  have brk: "ctl_ok env rk (xpos x) (Break (UPDATE_STATE t x))" if "t \<in> chunk_line_states" for t
    using st [of t "xp x"] that pre ok by simp
  have "ctl_ok env rk (xpos x) (Break (x\<lparr>xp := ?p\<rparr>))"
    if "unhex_of (xch x) \<noteq> -1" "\<not> (ULLONG_MAX - 16) div 16 < content_length (xp x)"
    using st [OF line(1), of ?p] dig [OF that] ok pre(2) by (subst self) simp
  then show ?thesis
    using brk [OF line(2)] brk [OF line(3)] pre
    by (simp add: case_chunk_size_def Let_def hard_error_def)
qed

lemma chunk_parameters_ok:
  assumes "step_pre env x" and "xst x = s_chunk_parameters"
  shows "ctl_ok env rk (xpos x) (case_chunk_parameters env x)"
proof -
  have pre: "frame_ok env x" "xpos x < length (data env)" "has_flag (xp x) F_CHUNKED" "no_marks x"
      "content_length (xp x) \<noteq> ULLONG_MAX"
    using chunk_pre [OF assms(1)] chunk_no_marks [OF assms(1)] assms(2) by (auto simp: state_inv_def set_defs)
  then show ?thesis
    using assms(2)
    by (auto simp: case_chunk_parameters_def xinv_def frame_ok_def state_inv_def zero_nread_def
        marks_ok_def no_marks_def set_defs)
qed

lemma chunk_size_almost_done_ok:
  assumes "step_pre env x" and "xst x = s_chunk_size_almost_done" and "settings env = s"
  shows "ctl_ok env rk (xpos x) (case_chunk_size_almost_done env x)"
proof -
  have pre: "frame_ok env x" "xpos x < length (data env)" "has_flag (xp x) F_CHUNKED" "no_marks x"
      "content_length (xp x) \<noteq> ULLONG_MAX"
    using chunk_pre [OF assms(1)] chunk_no_marks [OF assms(1)] assms(2) by (auto simp: state_inv_def set_defs)
  let ?x = "(on_parser (\<lambda>p. p\<lparr>nread := 0\<rparr>) x)\<lparr>xnread := 0\<rparr>"
  let ?y = "if content_length (xp ?x) = 0
            then UPDATE_STATE s_header_field_start (on_parser (set_flag F_TRAILING) ?x)
            else UPDATE_STATE s_chunk_data ?x"
  have y: "frame_ok env ?y" "xpos ?y = xpos x" "no_marks ?y" "zero_nread ?y"
    using pre by (auto simp: frame_ok_def no_marks_def zero_nread_def)
  have inv: "state_inv (xst ?y) ((xp ?y)\<lparr>pstate := t\<rparr>)" for t
    using pre by (auto simp: state_inv_def set_defs has_flag_def)
  have mk: "marks_ok (xst ?y) ?y" using y(3) by (simp add: marks_ok_def no_marks_def)
  have "ctl_ok env rk (xpos x) (CALLBACK_NOTIFY (on_chunk_header (settings env)) HPE_CB_chunk_header ?y Break)"
  proof (rule notify_ok)
    show "state_inv (xst ?y) (xp ?y)" using inv [of "pstate (xp ?y)"] by simp
    show "ctl_ok env rk (xpos x) (Break (resumed t u ?y))" for t u
      using y mk inv pre(2) by (auto simp: xinv_def frame_ok_def zero_nread_def)
  qed (use y pre(2) tame_env [OF assms(3)] in \<open>simp_all add: hard_error_def\<close>)
  then show ?thesis
    using pre by (simp add: case_chunk_size_almost_done_def Let_def)
qed

lemma chunk_data_ok:
  assumes "step_pre env x" and "xst x = s_chunk_data"
  shows "ctl_ok env rk (xpos x) (case_chunk_data env x)"
proof -
  have pre: "frame_ok env x" "xpos x < length (data env)" "marks_ok s_body_identity x"
    using body_pre [OF assms(1)] assms(2) by auto
  have cl: "content_length (xp x) \<noteq> 0" "content_length (xp x) \<noteq> ULLONG_MAX" "has_flag (xp x) F_CHUNKED"
    using assms(1,2) by (auto simp: step_pre_def xinv_def state_inv_def set_defs)
  note tb = take_body_ok [OF pre cl(1,2)]
  have fl: "has_flag (xp (take_body env x)) F_CHUNKED" using cl(3) tb(6) has_flag_cong by metis
  have mk: "marks_ok s_chunk_data (take_body env x)" "marks_ok s_chunk_data_almost_done (take_body env x)"
    using tb(2) by (simp_all add: marks_ok_def set_defs)
  show ?thesis
    using cl tb fl mk assms(2)
    by (simp add: case_chunk_data_def Let_def xinv_def frame_ok_def zero_nread_def state_inv_def set_defs)
qed

lemma chunk_data_almost_done_ok:
  assumes "step_pre env x" and "xst x = s_chunk_data_almost_done" and "settings env = s"
  shows "ctl_ok env rk (xpos x) (case_chunk_data_almost_done env x)"
proof -
  have pre: "frame_ok env x" "xpos x < length (data env)" "marks_ok s_body_identity x"
    using body_pre [OF assms(1)] assms(2) by auto
  have cl: "content_length (xp x) = 0" "has_flag (xp x) F_CHUNKED"
    using assms(1,2) by (auto simp: step_pre_def xinv_def state_inv_def set_defs)
  let ?y = "UPDATE_STATE s_chunk_data_done x"
  have nm: "no_marks (x\<lparr>body_mark := None\<rparr>)" using pre(3) by (simp add: marks_ok_def no_marks_def set_defs)
  have "ctl_ok env rk (xpos x) (data_body env (xpos ?y) (xpos ?y + 1) ?y Break)"
    using pre cl nm assms(3)
    by (intro body_data_ok)
       (auto simp: frame_ok_def xinv_def state_inv_def zero_nread_def has_flag_def no_marks_def marks_ok_def set_defs)
  then show ?thesis using pre cl by (simp add: case_chunk_data_almost_done_def Let_def)
qed

lemma chunk_data_done_ok:
  assumes "step_pre env x" and "xst x = s_chunk_data_done" and "settings env = s"
  shows "ctl_ok env rk (xpos x) (case_chunk_data_done env x)"
proof -
  have pre: "frame_ok env x" "xpos x < length (data env)" "has_flag (xp x) F_CHUNKED" "no_marks x"
    using chunk_pre [OF assms(1)] chunk_no_marks [OF assms(1)] assms(2) by (auto simp: set_defs)
  let ?y = "UPDATE_STATE s_chunk_size_start ((on_parser (\<lambda>p. p\<lparr>nread := 0\<rparr>) x)\<lparr>xnread := 0\<rparr>)"
  have "ctl_ok env rk (xpos x) (CALLBACK_NOTIFY (on_chunk_complete (settings env)) HPE_CB_chunk_complete ?y Break)"
    using pre tame_env [OF assms(3)]
    by (intro notify_ok)
       (auto simp: frame_ok_def hard_error_def xinv_def state_inv_def zero_nread_def has_flag_def no_marks_def
         marks_ok_def set_defs)
  then show ?thesis using pre by (simp add: case_chunk_data_done_def Let_def)
qed

end

end
