(* ===== verification/Http_Safe.thy ===== *)
theory Http_Safe
  imports Http_Safe_Body
begin

text \<open>
  The parser as a whole: the switch, the loop and \<open>http_parser_execute\<close> keep the invariant,
  fail no assertion and end, for all tame callbacks.
\<close>

section \<open>The switch and the loop\<close>

lemma line_states_plain:
  "plain s_res_H" "plain s_res_HT" "plain s_res_HTT" "plain s_res_HTTP" "plain s_res_http_major"
  "plain s_res_http_dot" "plain s_res_http_minor" "plain s_res_http_end" "plain s_res_line_almost_done"
  "plain s_req_http_H" "plain s_req_http_HT" "plain s_req_http_HTT" "plain s_req_http_HTTP" "plain s_req_http_I"
  "plain s_req_http_IC" "plain s_req_http_major" "plain s_req_http_dot" "plain s_req_http_minor" "plain s_req_http_end"
  by (simp_all add: plain_def set_defs)

context tame_callbacks
begin

lemma execute_case_ok:
  assumes "step_pre env x" and "settings env = s"
  shows "ctl_ok env (rank (xst x)) (xpos x) (execute_case env x)"
proof -
  note one = dead_ok [OF assms(1)] res_or_resp_H_ok [OF assms(1)] res_http_end_ok [OF assms(1)]
    res_first_status_code_ok [OF assms(1)] res_status_code_ok [OF assms(1)] res_status_start_ok [OF assms(1)]
    req_method_ok [OF assms(1)] req_spaces_before_url_ok [OF assms(1)] req_schema_ok [OF assms(1)]
    req_http_start_ok [OF assms(1)] req_http_end_ok [OF assms(1)] req_line_almost_done_ok [OF assms(1)]
    header_field_start_ok [OF assms(1)] header_value_discard_ws_ok [OF assms(1)] header_almost_done_ok [OF assms(1)]
    header_value_lws_ok [OF assms(1)] header_value_discard_ws_almost_done_ok [OF assms(1)]
    body_identity_eof_ok [OF assms(1)]
  note two = start_req_or_res_ok [OF assms(1) _ assms(2)] start_res_ok [OF assms(1) _ assms(2)]
    res_status_ok [OF assms(1) _ assms(2)] start_req_ok [OF assms(1) _ assms(2)] req_url_ok [OF assms(1) _ assms(2)]
    header_field_ok [OF assms(1) _ assms(2)] header_value_ok [OF assms(1) _ assms(2)]
    header_value_discard_lws_ok [OF assms(1) _ assms(2)] headers_almost_done_ok [OF assms(1) _ assms(2)]
    body_identity_ok [OF assms(1) _ assms(2)] message_done_ok [OF assms(1) _ assms(2)]
  note free = expect_ok [OF assms(1)] http_major_ok [OF assms(1)] http_minor_ok [OF assms(1)] http_dot_ok [OF assms(1)]
    headers_done_ok [OF assms(1) _ assms(2)] chunk_size_start_ok [OF assms(1)] chunk_size_ok [OF assms(1)]
    chunk_parameters_ok [OF assms(1)] chunk_size_almost_done_ok [OF assms(1) _ assms(2)] chunk_data_ok [OF assms(1)]
    chunk_data_almost_done_ok [OF assms(1) _ assms(2)] chunk_data_done_ok [OF assms(1) _ assms(2)]
  have start: "xst x = s_header_value_start \<Longrightarrow> ctl_ok env rk (xpos x) (case_header_value_start env x)" for rk
    using header_value_start_ok step_plain [OF assms(1)] by auto
  show ?thesis
    using one two
    by (cases "xst x") (simp_all add: execute_case_def free start line_states_plain url_states_def)
qed

lemma reexecute_ok:
  assumes "step_pre env x" and "settings env = s" and "rank (xst x) < n" and "p0 \<le> xpos x"
  shows "ctl_ok env 0 p0 (reexecute n env x)"
  using assms
proof (induction n arbitrary: x)
  case 0
  then show ?case by simp
next
  case (Suc n)
  note ok = execute_case_ok [OF Suc.prems(1,2)]
  show ?case
  proof (cases "execute_case env x")
    case (Reexec y)
    then have "step_pre env y" "rank (xst y) < n" "p0 \<le> xpos y"
      using ok Suc.prems(3,4) by (simp_all add: step_pre_def)
    then show ?thesis using Suc.IH Suc.prems(2) Reexec by simp
  qed (use ok Suc.prems(4) in simp_all)
qed

lemma rank_limit: "rank t < reexec_limit"
  by (simp add: rank_def reexec_limit_def)

lemma execute_byte_ok:
  assumes "xinv env x" and "zero_nread x" and "xpos x < length (data env)" and "settings env = s"
  shows "ctl_ok env 0 (xpos x) (execute_byte env x)"
proof (cases "PARSING_HEADER (xst x)")
  case True
  let ?x = "x\<lparr>xch := data env ! xpos x, xnread := xnread x + 1\<rparr>"
  have "step_pre env ?x" if "\<not> max_header_size env < xnread x + 1"
    using assms(1-3) that by (auto simp: step_pre_def xinv_def frame_ok_def zero_nread_def)
  then show ?thesis
    using True assms(3,4) reexecute_ok [of env ?x reexec_limit "xpos x"] rank_limit
    by (simp add: execute_byte_def Let_def)
next
  case False
  let ?x = "x\<lparr>xch := data env ! xpos x\<rparr>"
  have "xst x \<noteq> s_chunk_size_start" using False by (auto simp: header_states_before_body)
  then have "step_pre env ?x" using assms(1,3) by (simp add: step_pre_def xinv_def frame_ok_def)
  then show ?thesis
    using False assms(4) reexecute_ok [of env ?x reexec_limit "xpos x"] rank_limit
    by (simp add: execute_byte_def Let_def)
qed

section \<open>The end of the data\<close>

fun leaves :: "'u ctl \<Rightarrow> bool" where
  "leaves (Return n x) = True"
| "leaves (Abort e) = True"
| "leaves _ = False"

lemma leaves_data: "(\<And>y. leaves (k y)) \<Longrightarrow> leaves (CALLBACK_DATA0 env cb e mark clear stop er x k)"
  by (auto simp: CALLBACK_DATA0_def ASSERT_def after_callback_def Let_def split: option.split prod.split)

lemma leaves_flush: "leaves (flush_marks env x)"
  by (auto simp: flush_marks_def ASSERT_def data_header_field_def data_header_value_def data_url_def data_body_def
      data_status_def RETURN_def intro!: leaves_data)

definition at_end :: "'u env \<Rightarrow> 'u xstate \<Rightarrow> bool" where
  "at_end env x \<longleftrightarrow> xinv env x \<and> zero_nread x \<and> xpos x = length (data env)"

lemma at_end_resumed: "at_end env x \<Longrightarrow> at_end env (resumed t u x)"
  by (simp add: at_end_def xinv_def frame_ok_def zero_nread_def)

lemma at_end_clear:
  "at_end env x \<Longrightarrow> at_end env (x\<lparr>header_field_mark := None\<rparr>)"
  "at_end env x \<Longrightarrow> at_end env (x\<lparr>header_value_mark := None\<rparr>)"
  "at_end env x \<Longrightarrow> at_end env (x\<lparr>url_mark := None\<rparr>)"
  "at_end env x \<Longrightarrow> at_end env (x\<lparr>body_mark := None\<rparr>)"
  "at_end env x \<Longrightarrow> at_end env (x\<lparr>status_mark := None\<rparr>)"
  by (auto simp: at_end_def xinv_def frame_ok_def zero_nread_def marks_ok_def)

lemma at_end_data:
  assumes "at_end env x" and "tame_data_cb cb" and "hard_error e" and "\<And>q. mark = Some q \<Longrightarrow> q \<le> xpos x"
    and "mark = None \<Longrightarrow> clear x = x"
    and "\<And>y. at_end env y \<Longrightarrow> at_end env (clear y)" and "\<And>y. at_end env y \<Longrightarrow> ctl_ok env rk p0 (k y)"
  shows "ctl_ok env rk p0 (CALLBACK_DATA0 env cb e mark clear (xpos x) (length (data env)) x k)"
  using assms at_end_resumed [OF assms(1)] by (intro data_ok) (auto simp: at_end_def xinv_def)

lemma at_end_marks:
  assumes "at_end env x"
  shows "header_field_mark x = Some q \<Longrightarrow> q \<le> xpos x" "header_value_mark x = Some q \<Longrightarrow> q \<le> xpos x"
    "url_mark x = Some q \<Longrightarrow> q \<le> xpos x" "body_mark x = Some q \<Longrightarrow> q \<le> xpos x"
    "status_mark x = Some q \<Longrightarrow> q \<le> xpos x"
  using assms by (auto simp: at_end_def xinv_def marks_ok_def)

lemma at_end_return: "at_end env x \<Longrightarrow> ctl_ok env rk p0 (RETURN (length (data env)) x)"
  by (auto simp: at_end_def xinv_def frame_ok_def zero_nread_def RETURN_def final_ok_def parser_ok_def)

lemma mark_count_one: "at_end env x \<Longrightarrow> mark_count x \<le> 1"
  by (auto simp: at_end_def xinv_def marks_ok_def mark_ok_def mark_count_def set_defs split: option.splits)

lemma flush_marks_ok:
  assumes "at_end env x" and "settings env = s"
  shows "ctl_ok env rk p0 (flush_marks env x)"
proof -
  note t = tame_env [OF assms(2)]
  have pos: "xpos y + 0 = length (data env)" if "at_end env y" for y using that by (simp add: at_end_def)
  have e: "hard_error HPE_CB_header_field" "hard_error HPE_CB_header_value" "hard_error HPE_CB_url"
    "hard_error HPE_CB_body" "hard_error HPE_CB_status" by (simp_all add: hard_error_def)
  have st: "ctl_ok env rk p0 (data_status env 0 y (\<lambda>x. RETURN (length (data env)) x))" if "at_end env y" for y
    unfolding data_status_def pos [OF that]
    by (rule at_end_data [OF that t(3) e(5)]) (use that at_end_clear at_end_return at_end_marks in auto)
  have bo: "ctl_ok env rk p0 (data_body env (xpos y) (xpos y) y k)"
    if "at_end env y" "\<And>y. at_end env y \<Longrightarrow> ctl_ok env rk p0 (k y)" for y k
  proof -
    have "xpos y = length (data env)" using that(1) by (simp add: at_end_def)
    then have "data_body env (xpos y) (xpos y) y k =
        CALLBACK_DATA0 env (on_body (settings env)) HPE_CB_body (body_mark y) (\<lambda>x. x\<lparr>body_mark := None\<rparr>)
          (xpos y) (length (data env)) y k"
      by (simp add: data_body_def)
    moreover have "ctl_ok env rk p0 (CALLBACK_DATA0 env (on_body (settings env)) HPE_CB_body (body_mark y)
        (\<lambda>x. x\<lparr>body_mark := None\<rparr>) (xpos y) (length (data env)) y k)"
      by (rule at_end_data [OF that(1) t(7) e(4)]) (use that at_end_clear at_end_marks in auto)
    ultimately show ?thesis by simp
  qed
  have ur: "ctl_ok env rk p0 (data_url env 0 y k)"
    if "at_end env y" "\<And>y. at_end env y \<Longrightarrow> ctl_ok env rk p0 (k y)" for y k
    unfolding data_url_def pos [OF that(1)]
    by (rule at_end_data [OF that(1) t(2) e(3)]) (use that at_end_clear at_end_marks in auto)
  have hv: "ctl_ok env rk p0 (data_header_value env 0 y k)"
    if "at_end env y" "\<And>y. at_end env y \<Longrightarrow> ctl_ok env rk p0 (k y)" for y k
    unfolding data_header_value_def pos [OF that(1)]
    by (rule at_end_data [OF that(1) t(5) e(2)]) (use that at_end_clear at_end_marks in auto)
  have hf: "ctl_ok env rk p0 (data_header_field env 0 y k)"
    if "at_end env y" "\<And>y. at_end env y \<Longrightarrow> ctl_ok env rk p0 (k y)" for y k
    unfolding data_header_field_def pos [OF that(1)]
    by (rule at_end_data [OF that(1) t(4) e(1)]) (use that at_end_clear at_end_marks in auto)
  show ?thesis
    unfolding flush_marks_def ctl_ok_ASSERT
    using mark_count_one [OF assms(1)] by (blast intro: hf [OF assms(1)] hv ur bo st)
qed

lemma execute_loop_ok:
  assumes "xinv env x" and "zero_nread x" and "xpos x \<le> length (data env)" and "settings env = s"
    and "length (data env) - xpos x < n"
  shows "\<exists>k y. execute_loop n env x = Return k y \<and> final_ok env k (xp y)"
  using assms
proof (induction n arbitrary: x)
  case 0
  then show ?case by simp
next
  case (Suc n)
  show ?case
  proof (cases "xpos x = length (data env)")
    case True
    then have "ctl_ok env 0 0 (flush_marks env x)"
      using Suc.prems by (intro flush_marks_ok) (simp_all add: at_end_def)
    then show ?thesis using True leaves_flush [of env x] by (cases "flush_marks env x") auto
  next
    case False
    then have lt: "xpos x < length (data env)" using Suc.prems(3) by simp
    note ok = execute_byte_ok [OF Suc.prems(1,2) lt Suc.prems(4)]
    show ?thesis
    proof (cases "execute_byte env x")
      case (Break y)
      let ?y = "y\<lparr>xpos := xpos y + 1\<rparr>"
      have y: "xinv env y" "zero_nread y" "xpos x \<le> xpos y" "xpos y < length (data env)" using ok Break by auto
      have "marks_ok (xst y) ?y" using y(1) marks_ok_later [where t = "xst y" and x = y and a = "xpos y" and b = "xpos y + 1"] by (simp add: xinv_def)
      then have "xinv env ?y" "zero_nread ?y" using y by (simp_all add: xinv_def frame_ok_def zero_nread_def)
      then show ?thesis
        using Suc.IH [of ?y] y(3,4) Suc.prems(4,5) Break lt by simp
    next
      case (Goto_error y)
      then show ?thesis
        using ok lt by (simp add: error_exit_def Let_def hard_error_def RETURN_def final_ok_def parser_ok_def)
    qed (use ok lt in auto)
  qed
qed

section \<open>The function\<close>

lemma initial_inv:
  assumes "parser_ok mhs p" and "http_errno p = HPE_OK" and "max_header_size env = mhs"
  shows "xinv env (initial_xstate p u)" "zero_nread (initial_xstate p u)"
  using assms
  by (auto simp: initial_xstate_def parser_ok_def xinv_def frame_ok_def zero_nread_def marks_ok_def)

lemma execute_ok:
  assumes "parser_ok mhs p"
  shows "\<exists>n q v. http_parser_execute s mhs p d u = Inr (n, q, v) \<and> parser_ok mhs q \<and>
     (d \<noteq> [] \<longrightarrow> n \<le> length d) \<and> (http_errno q = HPE_OK \<and> d \<noteq> [] \<longrightarrow> n = length d \<or> upgrade q)"
proof (cases "http_errno p = HPE_OK")
  case False
  then show ?thesis using assms by (simp add: http_parser_execute_def)
next
  case True
  let ?env = "make_env s mhs p d" and ?x = "initial_xstate p u"
  have env: "settings ?env = s" "max_header_size ?env = mhs" "data ?env = d" by (simp_all add: make_env_def)
  note inv = initial_inv [OF assms True env(2), of u]
  show ?thesis
  proof (cases "d = []")
    case False
    have "\<exists>k y. execute_loop (Suc (length d)) ?env ?x = Return k y \<and> final_ok ?env k (xp y)"
      using inv env by (intro execute_loop_ok) (auto simp: initial_xstate_def)
    then show ?thesis
      using False True env by (auto simp: http_parser_execute_def Let_def final_ok_def)
  next
    case empty: True
    let ?eof = "CALLBACK_NOTIFY_NOADVANCE (on_message_complete (settings ?env)) HPE_CB_message_complete ?x (Return 0)"
    have "\<exists>k y. ?eof = Return k y \<and> parser_ok mhs (xp y)" if "pstate p = s_body_identity_eof"
    proof -
      have "ctl_ok ?env 0 0 ?eof"
        using inv env tame_env(8) [OF env(1)] that
        by (intro notify_state_ok)
           (auto simp: xinv_def hard_error_def initial_xstate_def final_ok_def parser_ok_def frame_ok_def empty)
      moreover have "leaves ?eof"
        by (auto simp: CALLBACK_NOTIFY0_def ASSERT_def after_callback_def Let_def split: option.split prod.split)
      ultimately show ?thesis using env by (cases ?eof) (auto simp: final_ok_def)
    qed
    moreover have "parser_ok mhs (xp (SET_ERRNO HPE_INVALID_EOF_STATE ?x))" by (simp add: parser_ok_def)
    moreover have "xst ?x = pstate p" "xp ?x = p" by (simp_all add: initial_xstate_def)
    ultimately show ?thesis
      using empty True assms by (auto simp: http_parser_execute_def Let_def execute_eof_def)
  qed
qed

end

section \<open>Sequences of calls\<close>

datatype parser_op = Feed string | Pause bool

fun parser_step ::
  "'u http_parser_settings \<Rightarrow> u32 \<Rightarrow> http_parser \<times> 'u \<Rightarrow> parser_op \<Rightarrow> fault + nat \<times> http_parser \<times> 'u" where
  "parser_step s mhs (p, u) (Feed d) = http_parser_execute s mhs p d u"
| "parser_step s mhs (p, u) (Pause b) = bind_run (http_parser_pause p b) (\<lambda>q. Inr (0, q, u))"

text \<open>\<open>http_parser_pause\<close> asserts that the parser is not in error.\<close>

fun parser_op_ok :: "http_parser \<times> 'u \<Rightarrow> parser_op \<Rightarrow> bool" where
  "parser_op_ok m (Feed d) = True"
| "parser_op_ok m (Pause b) = (http_errno (fst m) = HPE_OK \<or> http_errno (fst m) = HPE_PAUSED)"

lemma parser_init_ok: "parser_ok mhs (http_parser_init t)"
  by (simp add: parser_ok_def http_parser_init_def state_inv_def set_defs)

lemma parser_step_ok:
  assumes "tame_callbacks s" and "parser_ok mhs (fst m)" and "parser_op_ok m x"
  shows "\<exists>n m'. parser_step s mhs m x = Inr (n, m') \<and> parser_ok mhs (fst m')"
proof (cases m)
  case (Pair p u)
  show ?thesis
  proof (cases x)
    case (Feed d)
    then show ?thesis
      using tame_callbacks.execute_ok [OF assms(1), of mhs p d u] assms(2) Pair by auto
  next
    case (Pause b)
    then show ?thesis using assms(2,3) Pair by (auto simp: http_parser_pause_def parser_ok_def)
  qed
qed

lemma no_callbacks_tame: "tame_callbacks http_parser_settings_init"
  by unfold_locales (simp_all add: http_parser_settings_init_def)

text \<open>
  C1. From a new parser, whatever bytes it is fed, in whatever pieces, paused and resumed in
  between: with callbacks that change of the parser at most its error number, no call fails an
  assertion, reads outside an array, or loops for ever, and the invariant of the parser holds
  after every call.
\<close>

theorem parser_never_faults:
  assumes "tame_callbacks s"
    and "\<forall>k < length ops. \<forall>outs m. run_with (parser_step s mhs) (http_parser_init t, u) (take k ops) = Inr (outs, m)
           \<longrightarrow> parser_op_ok m (ops ! k)"
  shows "\<exists>outs m. run_with (parser_step s mhs) (http_parser_init t, u) ops = Inr (outs, m) \<and> parser_ok mhs (fst m)"
proof (rule run_with_safe [where I = "\<lambda>m. parser_ok mhs (fst m)" and ok = parser_op_ok])
  show "\<exists>out m'. parser_step s mhs m x = Inr (out, m') \<and> parser_ok mhs (fst m')"
    if "parser_ok mhs (fst m)" "parser_op_ok m x" for m x
    using parser_step_ok [OF assms(1) that] by blast
qed (use assms(2) parser_init_ok in auto)

theorem parser_never_faults_witness:
  "\<exists>outs m. run_with (parser_step http_parser_settings_init HTTP_MAX_HEADER_SIZE) (http_parser_init HTTP_REQUEST, ())
      [Pause True, Feed ''GET / HTTP/1.1'', Pause False, Feed ''GE'', Feed ''T /''] = Inr (outs, m) \<and>
    parser_ok HTTP_MAX_HEADER_SIZE (fst m)"
proof (rule parser_never_faults [OF no_callbacks_tame])
  show "\<forall>k < length [Pause True, Feed ''GET / HTTP/1.1'', Pause False, Feed ''GE'', Feed ''T /''].
      \<forall>outs m. run_with (parser_step http_parser_settings_init HTTP_MAX_HEADER_SIZE) (http_parser_init HTTP_REQUEST, ())
        (take k [Pause True, Feed ''GET / HTTP/1.1'', Pause False, Feed ''GE'', Feed ''T /'']) = Inr (outs, m) \<longrightarrow>
      parser_op_ok m ([Pause True, Feed ''GET / HTTP/1.1'', Pause False, Feed ''GE'', Feed ''T /''] ! k)"
    by (auto simp: less_Suc_eq numeral_2_eq_2 http_parser_pause_def http_parser_init_def http_parser_execute_def)
qed

text \<open>
  C2. The return value tells the caller how much was parsed: never more than it passed, and
  all of it unless the parser is in error or paused, or has met a message that switches the
  protocol.
\<close>

theorem execute_accounts_for_bytes:
  assumes "tame_callbacks s" and "parser_ok mhs p" and "http_errno p = HPE_OK" and "d \<noteq> []"
  shows "\<exists>n q v. http_parser_execute s mhs p d u = Inr (n, q, v) \<and> n \<le> length d \<and>
     (http_errno q = HPE_OK \<and> \<not> upgrade q \<longrightarrow> n = length d) \<and>
     (http_errno q = HPE_OK \<longrightarrow> nread q \<le> mhs)"
  using tame_callbacks.execute_ok [OF assms(1,2), of d u] assms(4) by (auto simp: parser_ok_def)

theorem execute_accounts_for_bytes_witness:
  "\<exists>n q v. http_parser_execute http_parser_settings_init HTTP_MAX_HEADER_SIZE (http_parser_init HTTP_REQUEST) ''PUT'' () =
       Inr (n, q, v) \<and> n \<le> 3"
proof -
  have "http_errno (http_parser_init HTTP_REQUEST) = HPE_OK" by (simp add: http_parser_init_def)
  from execute_accounts_for_bytes [OF no_callbacks_tame parser_init_ok this, of "''PUT''" HTTP_MAX_HEADER_SIZE "()"]
  show ?thesis by auto
qed

end
