(* ===== verification/Http11_Parser.thy ===== *)
theory Http11_Parser
  imports Http_Message Http_User Http_Safe
begin

text \<open>
  \<open>src/http/http11_parser.cpp\<close> and \<open>src/http/http11_parser.h\<close>: the callbacks that fill an
  \<open>HttpRequest\<close> or an \<open>HttpResponse\<close> while the parser runs.

  \<open>parser->data\<close> is the object that owns the parser; what the callbacks use of it, the message
  and the flag \<open>isFinish\<close>, is the user's state of the parser.  The warning that \<open>execute\<close>
  logs is left out.
\<close>

section \<open>Requests\<close>

record request_data =
  reqData :: http_request
  reqFinish :: bool

abbreviation on_req :: "(http_request \<Rightarrow> http_request) \<Rightarrow> request_data \<Rightarrow> request_data" where
  "on_req f d \<equiv> d\<lparr>reqData := f (reqData d)\<rparr>"

definition request_url_callback ::
  "http_parser \<Rightarrow> string \<Rightarrow> request_data \<Rightarrow> int \<times> http_parser \<times> request_data" where
  "request_url_callback parser buf d = (0, parser, on_req (req_setPath buf) d)"

definition request_body_callback ::
  "http_parser \<Rightarrow> string \<Rightarrow> request_data \<Rightarrow> int \<times> http_parser \<times> request_data" where
  "request_body_callback parser buf d = (0, parser, on_req (req_setBody buf) d)"

definition request_header_field_callback ::
  "http_parser \<Rightarrow> string \<Rightarrow> request_data \<Rightarrow> int \<times> http_parser \<times> request_data" where
  "request_header_field_callback parser buf d = (0, parser, on_req (req_setTmpHeader buf) d)"

definition request_header_value_callback ::
  "http_parser \<Rightarrow> string \<Rightarrow> request_data \<Rightarrow> int \<times> http_parser \<times> request_data" where
  "request_header_value_callback parser buf d =
     (let key = reqTmpHeader (reqData d);
          d = (if strcasecmp key ''connection'' = 0
               then on_req (req_setKeepAlive (if strcasecmp buf ''close'' = 0 then False else True)) d else d)
      in (0, parser, on_req (req_addHeader key buf) d))"

text \<open>\<open>http_major\<close> and \<open>http_minor\<close> are 16-bit fields.\<close>

definition version_text :: "http_parser \<Rightarrow> string" where
  "version_text parser = to_dec (http_major parser mod 65536) @ ''.'' @ to_dec (http_minor parser mod 65536)"

definition request_header_complete ::
  "http_parser \<Rightarrow> request_data \<Rightarrow> int \<times> http_parser \<times> request_data" where
  "request_header_complete parser d =
     (let d = on_req (req_setMethod (meth parser)) d
      in (0, parser, on_req (req_setVersion (version_text parser)) d))"

definition request_body_complete ::
  "http_parser \<Rightarrow> request_data \<Rightarrow> int \<times> http_parser \<times> request_data" where
  "request_body_complete parser d = (0, parser, d\<lparr>reqFinish := True\<rparr>)"

definition request_settings :: "request_data http_parser_settings" where
  "request_settings = http_parser_settings_init
     \<lparr>on_url := Some request_url_callback, on_body := Some request_body_callback,
      on_header_field := Some request_header_field_callback,
      on_header_value := Some request_header_value_callback,
      on_headers_complete := Some request_header_complete,
      on_message_complete := Some request_body_complete\<rparr>"

record request_parser =
  rqParser :: http_parser
  rqData :: request_data

definition newHttpRequestParser :: request_parser where
  "newHttpRequestParser =
     \<lparr>rqParser = http_parser_init HTTP_REQUEST,
      rqData = \<lparr>reqData = newHttpRequest ''1.1'' False, reqFinish = False\<rparr>\<rparr>"

definition request_execute :: "request_parser \<Rightarrow> string \<Rightarrow> fault + nat \<times> request_parser" where
  "request_execute rp buf =
     bind_run (http_parser_execute request_settings HTTP_MAX_HEADER_SIZE (rqParser rp) buf (rqData rp))
       (\<lambda>(offset, p, d). Inr (offset, \<lparr>rqParser = p, rqData = d\<rparr>))"

section \<open>Responses\<close>

record response_data =
  resData :: http_response
  resFinish :: bool

abbreviation on_res :: "(http_response \<Rightarrow> http_response) \<Rightarrow> response_data \<Rightarrow> response_data" where
  "on_res f d \<equiv> d\<lparr>resData := f (resData d)\<rparr>"

definition response_body_callback ::
  "http_parser \<Rightarrow> string \<Rightarrow> response_data \<Rightarrow> int \<times> http_parser \<times> response_data" where
  "response_body_callback parser buf d = (0, parser, on_res (res_setBody buf) d)"

text \<open>The status is read from \<open>parser->state\<close>.\<close>

definition response_header_complete ::
  "http_parser \<Rightarrow> response_data \<Rightarrow> int \<times> http_parser \<times> response_data" where
  "response_header_complete parser d =
     (let d = on_res (res_setVersion (version_text parser)) d
      in (0, parser, on_res (res_setStatus (int (state_num (pstate parser)))) d))"

definition response_body_complete ::
  "http_parser \<Rightarrow> response_data \<Rightarrow> int \<times> http_parser \<times> response_data" where
  "response_body_complete parser d = (0, parser, d\<lparr>resFinish := True\<rparr>)"

definition response_header_field_callback ::
  "http_parser \<Rightarrow> string \<Rightarrow> response_data \<Rightarrow> int \<times> http_parser \<times> response_data" where
  "response_header_field_callback parser buf d = (0, parser, on_res (res_setTmpHeader buf) d)"

definition response_header_value_callback ::
  "http_parser \<Rightarrow> string \<Rightarrow> response_data \<Rightarrow> int \<times> http_parser \<times> response_data" where
  "response_header_value_callback parser buf d =
     (let key = resTmpHeader (resData d);
          d = (if strncasecmp ''connection'' key 10 = 0
               then on_res (res_setKeepAlive (if strncasecmp ''close'' buf 5 = 0 then False else True)) d else d)
      in (0, parser, on_res (res_addHeader key buf) d))"

text \<open>\<open>on_message_complete\<close> is not registered.\<close>

definition response_settings :: "response_data http_parser_settings" where
  "response_settings = http_parser_settings_init
     \<lparr>on_body := Some response_body_callback,
      on_header_field := Some response_header_field_callback,
      on_header_value := Some response_header_value_callback,
      on_headers_complete := Some response_header_complete\<rparr>"

record response_parser =
  rsParser :: http_parser
  rsData :: response_data

definition newHttpResponseParser :: response_parser where
  "newHttpResponseParser =
     \<lparr>rsParser = http_parser_init HTTP_RESPONSE,
      rsData = \<lparr>resData = newHttpResponse ''1.1'' False, resFinish = False\<rparr>\<rparr>"

definition response_execute :: "response_parser \<Rightarrow> string \<Rightarrow> fault + nat \<times> response_parser" where
  "response_execute rp buf =
     bind_run (http_parser_execute response_settings HTTP_MAX_HEADER_SIZE (rsParser rp) buf (rsData rp))
       (\<lambda>(offset, p, d). Inr (offset, \<lparr>rsParser = p, rsData = d\<rparr>))"

section \<open>The contract of the callbacks\<close>

lemmas request_callback_defs = request_url_callback_def request_body_callback_def
  request_header_field_callback_def request_header_value_callback_def request_header_complete_def
  request_body_complete_def

lemmas response_callback_defs = response_body_callback_def response_header_field_callback_def
  response_header_value_callback_def response_header_complete_def response_body_complete_def

lemma tame_callbacks_intro:
  "(\<And>p u. fst (snd (f p u)) = p) \<Longrightarrow> tame_cb (Some f)"
  "(\<And>p s u. fst (snd (g p s u)) = p) \<Longrightarrow> tame_data_cb (Some g)"
  unfolding tame_cb_def tame_data_cb_def
  by (metis fst_conv http_parser.surjective http_parser.update_convs(15) option.inject snd_conv)+

interpretation request: tame_callbacks request_settings
  by unfold_locales
    (simp_all add: request_settings_def http_parser_settings_init_def tame_callbacks_intro request_callback_defs Let_def)

interpretation response: tame_callbacks response_settings
  by unfold_locales
    (simp_all add: response_settings_def http_parser_settings_init_def tame_callbacks_intro response_callback_defs Let_def)

lemma eof_count:
  assumes "http_parser_execute s mhs p [] u = Inr (n, q, v)"
  shows "n \<le> 1"
proof -
  let ?x = "initial_xstate p u" and ?env = "make_env s mhs p []"
  have "m \<le> 1" if "CALLBACK_NOTIFY_NOADVANCE cb e ?x (Return 0) = Return m y" for cb e m y
    using that by (auto simp: CALLBACK_NOTIFY0_def after_callback_def ASSERT_def initial_xstate_def Let_def
        split: if_splits option.splits prod.splits)
  then have "m \<le> 1" if "execute_eof ?env ?x = Return m y" for m y
    using that by (auto simp: execute_eof_def split: if_splits)
  then show ?thesis using assms
    by (auto simp: http_parser_execute_def Let_def split: if_splits ctl.splits)
qed

lemma request_execute_ok:
  assumes "parser_ok HTTP_MAX_HEADER_SIZE (rqParser rp)"
  shows "\<exists>n rp'. request_execute rp buf = Inr (n, rp') \<and> parser_ok HTTP_MAX_HEADER_SIZE (rqParser rp') \<and>
    n \<le> max 1 (length buf) \<and>
    (http_errno (rqParser rp') = HPE_OK \<and> buf \<noteq> [] \<longrightarrow> n = length buf \<or> upgrade (rqParser rp'))"
  using request.execute_ok [OF assms, of buf "rqData rp"] eof_count [of request_settings _ "rqParser rp" "rqData rp"]
  by (cases "buf = []") (fastforce simp: request_execute_def)+

lemma newHttpRequestParser_ok: "parser_ok HTTP_MAX_HEADER_SIZE (rqParser newHttpRequestParser)"
  by (simp add: newHttpRequestParser_def parser_init_ok)

section \<open>What the callbacks keep\<close>

text \<open>
  The header map of a request stays ordered, a parsed request is never a web socket, and its
  version is short.
\<close>

definition request_ok :: "http_request \<Rightarrow> bool" where
  "request_ok r \<longleftrightarrow> map_sorted CaseInsensitiveLess (reqHeaders r) \<and> \<not> reqWebSocket r \<and> length (reqVersion r) \<le> 11"

definition request_inv :: "request_data \<Rightarrow> bool" where
  "request_inv d \<longleftrightarrow> request_ok (reqData d)"

lemma length_version_text: "length (version_text p) \<le> 11"
proof -
  have "length (to_dec (n mod 65536)) \<le> 5" for n
    using mod_less_divisor [of 65536 n] by (intro length_to_dec) simp_all
  from add_mono [OF this this] show ?thesis by (simp add: version_text_def)
qed

interpretation request_inv: user_invariant request_settings request_inv
  using length_version_text
  by unfold_locales
    (auto simp: request_settings_def http_parser_settings_init_def keeps_cb_def keeps_data_cb_def request_callback_defs
      request_inv_def request_ok_def Let_def req_setPath_def req_setBody_def req_setTmpHeader_def req_setKeepAlive_def
      req_addHeader_def req_setMethod_def req_setVersion_def ci.assign_sorted)

lemma request_execute_inv:
  "request_execute rp buf = Inr (n, rp') \<Longrightarrow> request_inv (rqData rp) \<Longrightarrow> request_inv (rqData rp')"
  by (auto simp: request_execute_def bind_run_Inr_iff dest: request_inv.execute_usr)

lemma newHttpRequestParser_inv: "request_inv (rqData newHttpRequestParser)"
  by (simp add: newHttpRequestParser_def request_inv_def request_ok_def newHttpRequest_def)

text \<open>The status of a response is the initial 200 or the number of a parser state.\<close>

definition response_inv :: "response_data \<Rightarrow> bool" where
  "response_inv d \<longleftrightarrow> (resStatus (resData d) = 200 \<or> (\<exists>s. resStatus (resData d) = int (state_num s))) \<and> \<not> resFinish d"

interpretation response_inv: user_invariant response_settings response_inv
  by unfold_locales
    (auto simp: response_settings_def http_parser_settings_init_def keeps_cb_def keeps_data_cb_def response_callback_defs
      response_inv_def Let_def res_setBody_def res_setTmpHeader_def res_setKeepAlive_def res_addHeader_def
      res_setStatus_def res_setVersion_def)

text \<open>Whatever bytes an \<open>HttpResponseParser\<close> is fed, in whatever pieces.\<close>

lemma response_run_inv:
  "\<exists>outs rp. run_with response_execute newHttpResponseParser bufs = Inr (outs, rp) \<and> response_inv (rsData rp)"
proof -
  let ?I = "\<lambda>rp. parser_ok HTTP_MAX_HEADER_SIZE (rsParser rp) \<and> response_inv (rsData rp)"
  have "\<exists>n rp'. response_execute rp buf = Inr (n, rp') \<and> ?I rp'" if "?I rp" for rp buf
    using response.execute_ok [of HTTP_MAX_HEADER_SIZE "rsParser rp" buf "rsData rp"] that
    by (auto simp: response_execute_def dest: response_inv.execute_usr)
  moreover have "?I newHttpResponseParser"
    by (simp add: newHttpResponseParser_def response_inv_def newHttpResponse_def parser_init_ok)
  ultimately show ?thesis
    using run_with_safe [where I = ?I and ok = "\<lambda>_ _. True" and f = response_execute] by blast
qed

end
