(* ===== verification/Http_Servlet.thy ===== *)
theory Http_Servlet
  imports Http_Message
begin

text \<open>
  The servlets of \<open>src/http/http_servlet.h\<close> and \<open>src/http/http_servlet.cpp\<close>: the two built-in
  ones, the functions of the user, and the dispatch by path.

  A servlet changes the request and the response it is given; the function behind a
  \<open>FuncServlet\<close> is code of the user of the library and returns both.  A \<open>Servlet::ptr\<close> may be
  null (\<open>None\<close>).
\<close>

type_synonym servlet_callback = "http_request \<Rightarrow> http_response \<Rightarrow> int \<times> http_request \<times> http_response"

datatype servlet = NotFoundServlet | DefaultServlet | FuncServlet servlet_callback

record servlet_dispatch =
  mDatas :: "string \<rightharpoonup> servlet option"
  mNotFound :: "servlet option"

definition newServletDispatch :: servlet_dispatch where
  "newServletDispatch = \<lparr>mDatas = [''/'' \<mapsto> Some DefaultServlet], mNotFound = Some NotFoundServlet\<rparr>"

definition not_found_body :: string where
  "not_found_body =
     ''<html><head><title>404 Not Found'' @
     ''</title></head><body><center><h1>404 Not Found</h1></center>'' @
     ''<hr><center>Jerry Han</center></body></html>''"

definition default_body :: string where
  "default_body =
     ''<html><head><title>Jerry han'' @ [char_of (39 :: nat)] @ ''s Server'' @
     ''</title></head><body><center><h1>Welcome to JerryHan'' @ [char_of (39 :: nat)] @ ''s server</h1></center>'' @
     ''<hr><center>Jerry Han</center></body></html>''"

text \<open>What both built-in servlets do with the response.\<close>

definition fill_response :: "int \<Rightarrow> string \<Rightarrow> http_request \<Rightarrow> http_response \<Rightarrow> http_response" where
  "fill_response status body req res =
     (let res = res_setStatus status res;
          res = res_setVersion (reqVersion req) res;
          res = res_setKeepAlive (reqKeepAlive req) res;
          res = res_setBody body res
      in res_addHeader ''content-length'' (to_dec (length body)) res)"

definition not_found_handle :: servlet_callback where
  "not_found_handle req res = (0, req, fill_response 404 not_found_body req res)"

definition default_handle :: servlet_callback where
  "default_handle req res =
     (0, req, res_addHeader ''content-type'' ''text/html'' (fill_response 200 default_body req res))"

fun servlet_handle :: "servlet \<Rightarrow> servlet_callback" where
  "servlet_handle NotFoundServlet = not_found_handle"
| "servlet_handle DefaultServlet = default_handle"
| "servlet_handle (FuncServlet cb) = cb"

definition addServlet_func :: "string \<Rightarrow> servlet_callback \<Rightarrow> servlet_dispatch \<Rightarrow> servlet_dispatch" where
  "addServlet_func uri cb d = d\<lparr>mDatas := (mDatas d)(uri \<mapsto> Some (FuncServlet cb))\<rparr>"

definition addServlet_ptr :: "string \<Rightarrow> servlet option \<Rightarrow> servlet_dispatch \<Rightarrow> servlet_dispatch" where
  "addServlet_ptr uri slt d = d\<lparr>mDatas := (mDatas d)(uri \<mapsto> slt)\<rparr>"

definition getServlet :: "servlet_dispatch \<Rightarrow> string \<Rightarrow> servlet option" where
  "getServlet d uri = (case mDatas d uri of Some slt \<Rightarrow> slt | None \<Rightarrow> mNotFound d)"

definition dispatch_handle ::
  "servlet_dispatch \<Rightarrow> http_request \<Rightarrow> http_response \<Rightarrow> fault + int \<times> http_request \<times> http_response" where
  "dispatch_handle d req res =
     (case getServlet d (reqPath req) of
        None \<Rightarrow> Inl Null_Deref
      | Some slt \<Rightarrow> Inr (servlet_handle slt req res))"

section \<open>Routing\<close>

lemma fill_response_sel [simp]:
  "resStatus (fill_response st b req res) = st" "resVersion (fill_response st b req res) = reqVersion req"
  "resKeepAlive (fill_response st b req res) = reqKeepAlive req"
  "resBody (fill_response st b req res) = resBody res @ b"
  "resWebSocket (fill_response st b req res) = resWebSocket res"
  "resHeaders (fill_response st b req res) =
     map_assign CaseInsensitiveLess ''content-length'' (to_dec (length b)) (resHeaders res)"
  by (simp_all add: fill_response_def Let_def res_setStatus_def res_setVersion_def res_setKeepAlive_def
      res_setBody_def res_addHeader_def)

lemma fold_addServlet:
  "mDatas (fold (\<lambda>(uri, cb). addServlet_func uri cb) routes d) =
     mDatas d ++ map_of (rev (map (\<lambda>(uri, cb). (uri, Some (FuncServlet cb))) routes))"
  "mNotFound (fold (\<lambda>(uri, cb). addServlet_func uri cb) routes d) = mNotFound d"
  by (induction routes arbitrary: d) (auto simp: addServlet_func_def)

lemma map_of_routes:
  "map_of (rev (map (\<lambda>(uri, cb). (uri, Some (FuncServlet cb))) routes)) uri =
     map_option (\<lambda>cb. Some (FuncServlet cb)) (map_of (rev routes) uri)"
proof -
  have "map_of (map (\<lambda>(uri, cb). (uri, Some (FuncServlet cb))) rs) uri =
     map_option (\<lambda>cb. Some (FuncServlet cb)) (map_of rs uri)" for rs
    by (induction rs) auto
  then show ?thesis by (simp add: rev_map)
qed

text \<open>
  C21. Routing.  Whatever functions are added to a new dispatch, a request runs the function
  added last for exactly its path; a request for \<open>/\<close> without one gets the default page, and
  any other path the servlet for unknown paths.
\<close>

theorem dispatch_routes:
  "dispatch_handle (fold (\<lambda>(uri, cb). addServlet_func uri cb) routes newServletDispatch) req res =
     Inr ((case map_of (rev routes) (reqPath req) of
             Some cb \<Rightarrow> cb
           | None \<Rightarrow> if reqPath req = ''/'' then default_handle else not_found_handle) req res)"
  by (simp add: dispatch_handle_def getServlet_def fold_addServlet newServletDispatch_def map_add_def
      map_of_routes split: option.splits)

text \<open>
  An unknown path is answered with status 404, the version and the keep-alive flag of the
  request, and a body whose length is what the \<open>content-length\<close> header says, in any spelling
  of the header's name.
\<close>

theorem not_found_answer:
  "\<exists>res. not_found_handle req (newHttpResponse v k) = (0, req, res) \<and> resStatus res = 404 \<and>
     resVersion res = reqVersion req \<and> resKeepAlive res = reqKeepAlive req \<and>
     res_getHeader res ''Content-Length'' '''' = to_dec (length (resBody res))"
proof -
  have "same_name ''Content-Length'' ''content-length''" by code_simp
  then show ?thesis
    by (simp add: not_found_handle_def res_getHeader_def mss_get_def newHttpResponse_def ci.find_assign
        CaseInsensitiveLess_iff)
qed

text \<open>The built-in servlets keep a response printable.\<close>

lemma fill_response_sorted:
  "map_sorted CaseInsensitiveLess (resHeaders res) \<Longrightarrow>
   map_sorted CaseInsensitiveLess (resHeaders (fill_response st b req res))"
  by (simp add: ci.assign_sorted)

end
