(* ===== verification/Net_Conn.thy ===== *)
theory Net_Conn
  imports Prelude
begin

text \<open>
  A connected \<open>Socket\<close> of \<open>src/socket/socket.cpp\<close> and \<open>src/socket/socket.h\<close> as the servers use
  it, and the reply loop of the base class \<open>TcpServer\<close> (\<open>src/tcp_server/tcp_server.cpp\<close>).

  The kernel is a script: what the next calls of \<open>recv\<close> return and what the next calls of
  \<open>send\<close> return.  At the end of a script the call has not returned: the fiber waits, and the
  function that makes the call gives \<open>Waiting\<close>.  \<open>wire\<close> collects what the kernel took.
\<close>

section \<open>Sockets\<close>

datatype recv_result = Received string | Eof | Recv_Error

record client_sock =
  recvs :: "recv_result list"
  sends :: "int list"
  wire :: string
  isConnected :: bool
  closes :: nat

text \<open>A socket returned by \<open>accept\<close>.\<close>

definition accepted :: "recv_result list \<Rightarrow> int list \<Rightarrow> client_sock" where
  "accepted rs ns = \<lparr>recvs = rs, sends = ns, wire = '''', isConnected = True, closes = 0\<rparr>"

definition sock_close :: "client_sock \<Rightarrow> client_sock" where
  "sock_close c = c\<lparr>isConnected := False, closes := closes c + 1\<rparr>"

text \<open>
  \<open>send\<close> returns how many bytes it took, at most all of them, or -1.  The script holds how many
  the kernel has room for, or a negative number for a failure.
\<close>

definition send_result :: "int \<Rightarrow> string \<Rightarrow> int" where
  "send_result n buf = (if n < 0 then -1 else min n (int (length buf)))"

definition sock_send :: "string \<Rightarrow> client_sock \<Rightarrow> (int \<times> client_sock) option" where
  "sock_send buf c =
     (case sends c of [] \<Rightarrow> None
      | n # ns \<Rightarrow> Some (send_result n buf, c\<lparr>sends := ns, wire := wire c @ take (nat n) buf\<rparr>))"

definition sock_recv :: "client_sock \<Rightarrow> (recv_result \<times> client_sock) option" where
  "sock_recv c = (case recvs c of [] \<Rightarrow> None | r # rs \<Rightarrow> Some (r, c\<lparr>recvs := rs\<rparr>))"

text \<open>How a handler ends: it returned, or it waits in a system call.\<close>

datatype progress = Returned | Waiting

section \<open>The base server\<close>

definition tcp_reply :: string where
  "tcp_reply = ''HTTP/1.0 200 OK'' @ [char_of (13 :: nat), char_of (10 :: nat)] @ ''connection:keep-alive'' @
     [char_of (13 :: nat), char_of (10 :: nat), char_of (13 :: nat), char_of (10 :: nat)]"

function tcp_handleClient :: "client_sock \<Rightarrow> progress \<times> client_sock" where
  "tcp_handleClient c =
     (case sock_recv c of
        None \<Rightarrow> (Waiting, c)
      | Some (Eof, c) \<Rightarrow> (Returned, sock_close (sock_close c))
      | Some (Recv_Error, c) \<Rightarrow> (Returned, sock_close c)
      | Some (Received bs, c) \<Rightarrow>
          (case sock_send tcp_reply c of
             None \<Rightarrow> (Waiting, c)
           | Some (len, c) \<Rightarrow> tcp_handleClient c))"
  by pat_completeness auto
termination
  by (relation "measure (\<lambda>c. length (recvs c))")
    (auto simp: sock_recv_def sock_send_def split: list.splits)

declare tcp_handleClient.simps [simp del]

text \<open>
  The base server answers every read with the same reply and, when the peer closes, closes
  the descriptor twice; by the second call the number may belong to another connection.
\<close>

theorem tcp_eof_closes_twice:
  assumes "recvs c = map Received bufs @ [Eof]" and "sends c = map int ns" and "length ns = length bufs"
    and "\<forall>n\<in>set ns. n = length tcp_reply"
  shows "\<exists>c'. tcp_handleClient c = (Returned, c') \<and> closes c' = closes c + 2 \<and>
    wire c' = wire c @ concat (replicate (length bufs) tcp_reply)"
  using assms
proof (induction bufs arbitrary: c ns)
  case Nil
  then show ?case by (subst tcp_handleClient.simps) (simp add: sock_recv_def sock_close_def)
next
  case (Cons b bufs)
  obtain n ns' where ns: "ns = n # ns'" using Cons.prems(3) by (cases ns) auto
  let ?c = "c\<lparr>recvs := map Received bufs @ [Eof], sends := map int ns', wire := wire c @ tcp_reply\<rparr>"
  have step: "tcp_handleClient c = tcp_handleClient ?c"
    using Cons.prems ns by (subst tcp_handleClient.simps) (simp add: sock_recv_def sock_send_def)
  have "\<exists>c'. tcp_handleClient ?c = (Returned, c') \<and> closes c' = closes ?c + 2 \<and>
      wire c' = wire ?c @ concat (replicate (length bufs) tcp_reply)"
    using Cons.prems ns by (intro Cons.IH [of _ ns']) simp_all
  then show ?case using step by simp
qed

theorem tcp_eof_closes_twice_witness:
  "\<exists>c'. tcp_handleClient (accepted [Received ''hi'', Eof] [42]) = (Returned, c') \<and> closes c' = 2 \<and> wire c' = tcp_reply"
proof -
  have len: "length tcp_reply = 42" by (simp add: tcp_reply_def)
  show ?thesis
    using tcp_eof_closes_twice [of "accepted [Received ''hi'', Eof] [42]" "[''hi'']" "[42]"] len
    by (simp add: accepted_def numeral_2_eq_2)
qed

end
