(* ===== verification/Http_Server.thy ===== *)
theory Http_Server
  imports Http11_Parser Http_Servlet Net_Conn
begin

text \<open>
  \<open>HttpServer\<close> of \<open>src/http/http_server.cpp\<close>: the loop that reads a request, dispatches it and
  sends the response.

  A read fills an array of 1024 bytes that was cleared before; the code takes the text up to
  the first NUL of the array (\<open>strlen\<close>) instead of the number of bytes read.
\<close>

section \<open>Reading a request\<close>

definition BUF_SIZE :: nat where "BUF_SIZE = 1024"

text \<open>What \<open>strlen(buf)\<close> and \<open>buf\<close> give after a read; without a NUL it reads past the array.\<close>

definition read_text :: "string \<Rightarrow> fault + string" where
  "read_text bs =
     (let buf = bs @ replicate (BUF_SIZE - length bs) NUL
      in if BUF_SIZE < length bs then Inl Out_Of_Range
         else if (\<forall>c\<in>set buf. byte c \<noteq> 0) then Inl Out_Of_Range
         else Inr (c_str buf))"

datatype read_outcome = Parsed request_parser | Closed | Blocked

fun read_request :: "request_parser \<Rightarrow> recv_result list \<Rightarrow> fault + read_outcome \<times> recv_result list" where
  "read_request rp [] = Inr (Blocked, [])"
| "read_request rp (Eof # rs) = Inr (Closed, rs)"
| "read_request rp (Recv_Error # rs) = Inr (Closed, rs)"
| "read_request rp (Received bs # rs) =
     bind_run (read_text bs) (\<lambda>buf.
       bind_run (request_execute rp buf) (\<lambda>(t, rp).
         if t \<noteq> length buf then Inr (Closed, rs)
         else if reqFinish (rqData rp) then Inr (Parsed rp, rs)
         else read_request rp rs))"

section \<open>Sending the response\<close>

text \<open>\<open>offset += n\<close> on a \<open>size_t\<close>.\<close>

definition add_size :: "nat \<Rightarrow> int \<Rightarrow> nat" where
  "add_size off n = nat ((int off + n) mod 2 ^ 64)"

text \<open>
  The loop until \<open>offset\<close> is the size; the results of \<open>send\<close> come from the script.  \<open>False\<close>:
  the script ended while a \<open>send\<close> was due.
\<close>

fun send_loop :: "string \<Rightarrow> nat \<Rightarrow> int list \<Rightarrow> string \<Rightarrow> fault + bool \<times> int list \<times> string" where
  "send_loop buf off [] out =
     (if off = length buf then Inr (True, [], out)
      else if length buf < off then Inl Out_Of_Range else Inr (False, [], out))"
| "send_loop buf off (n # ns) out =
     (if off = length buf then Inr (True, n # ns, out)
      else if length buf < off then Inl Out_Of_Range
      else send_loop buf (add_size off (send_result n (drop off buf))) ns (out @ take (nat n) (drop off buf)))"

definition send_response :: "string \<Rightarrow> client_sock \<Rightarrow> fault + bool \<times> client_sock" where
  "send_response buf c =
     bind_run (send_loop buf 0 (sends c) (wire c)) (\<lambda>(done, ns, out).
       Inr (done, c\<lparr>sends := ns, wire := out\<rparr>))"

section \<open>The connection\<close>

definition answer :: "servlet_dispatch \<Rightarrow> http_request \<Rightarrow> fault + http_request \<times> string" where
  "answer d req =
     bind_run (dispatch_handle d req (newHttpResponse (reqVersion req) (reqKeepAlive req)))
       (\<lambda>(r, req, res). Inr (req, res_toString res))"

lemma read_request_shorter:
  "read_request rp rs = Inr (r, rs') \<Longrightarrow> length rs' \<le> length rs \<and> (r = Blocked \<or> length rs' < length rs)"
proof (induction rp rs rule: read_request.induct)
  case (4 rp bs rs)
  from "4.prems" "4.IH" show ?case
    by (fastforce simp: bind_run_Inr_iff split: if_splits prod.splits)
qed auto

lemma send_response_recvs: "send_response text c = Inr (b, c') \<Longrightarrow> recvs c' = recvs c \<and> isConnected c' = isConnected c \<and> closes c' = closes c"
  by (auto simp: send_response_def bind_run_Inr_iff)

function handleClient :: "servlet_dispatch \<Rightarrow> client_sock \<Rightarrow> fault + progress \<times> client_sock" where
  "handleClient d c =
     (case read_request newHttpRequestParser (recvs c) of
        Inl e \<Rightarrow> Inl e
      | Inr (Blocked, rs) \<Rightarrow> Inr (Waiting, c\<lparr>recvs := rs\<rparr>)
      | Inr (Closed, rs) \<Rightarrow> Inr (Returned, sock_close (c\<lparr>recvs := rs\<rparr>))
      | Inr (Parsed rp, rs) \<Rightarrow>
          (case answer d (reqData (rqData rp)) of
             Inl e \<Rightarrow> Inl e
           | Inr (req, text) \<Rightarrow>
               (case send_response text (c\<lparr>recvs := rs\<rparr>) of
                  Inl e \<Rightarrow> Inl e
                | Inr (False, c') \<Rightarrow> Inr (Waiting, c')
                | Inr (True, c') \<Rightarrow>
                    if \<not> isConnected c' \<or> \<not> reqKeepAlive req then Inr (Returned, sock_close c')
                    else handleClient d c')))"
  by pat_completeness auto
termination
  by (relation "measure (\<lambda>(d, c). length (recvs c))") (auto dest!: read_request_shorter send_response_recvs)

declare handleClient.simps [simp del]

text \<open>The constructor; \<open>addServlet\<close> is declared but has no definition in the sources.\<close>

record http_server =
  mDispatch :: servlet_dispatch

definition newHttpServer :: http_server where
  "newHttpServer = \<lparr>mDispatch = newServletDispatch\<rparr>"

section \<open>Sending\<close>

lemma add_size_result:
  assumes "0 \<le> n" and "off \<le> length buf" and "length buf < 2 ^ 64"
  shows "add_size off (send_result n (drop off buf)) = off + min (nat n) (length buf - off)"
proof -
  have "int off + send_result n (drop off buf) = int (off + min (nat n) (length buf - off))"
    using assms(1,2) by (simp add: send_result_def)
  moreover have "int (off + min (nat n) (length buf - off)) < 2 ^ 64" using assms(2,3) by simp
  ultimately show ?thesis by (simp only: add_size_def mod_pos_pos_trivial of_nat_0_le_iff nat_int)
qed

lemma send_loop_ok:
  assumes "off \<le> length buf" and "length buf < 2 ^ 64" and "\<forall>n\<in>set ns. 0 \<le> n"
  shows "\<exists>b ns' k. send_loop buf off ns out = Inr (b, ns', out @ take k (drop off buf)) \<and>
     (b \<longrightarrow> length buf \<le> off + k) \<and> set ns' \<subseteq> set ns"
  using assms
proof (induction ns arbitrary: off out)
  case Nil
  then show ?case by (auto intro: exI [of _ 0])
next
  case (Cons n ns)
  show ?case
  proof (cases "off = length buf")
    case True
    then show ?thesis by (auto intro!: exI [of _ True] exI [of _ "n # ns"])
  next
    case False
    let ?k = "min (nat n) (length buf - off)"
    have add: "add_size off (send_result n (drop off buf)) = off + ?k"
      using add_size_result [of n off buf] Cons.prems by simp
    have "off + ?k \<le> length buf" "\<forall>n\<in>set ns. 0 \<le> n" using Cons.prems by auto
    from Cons.IH [OF this(1) Cons.prems(2) this(2), of "out @ take (nat n) (drop off buf)"]
    obtain b ns' k where r: "send_loop buf (off + ?k) ns (out @ take (nat n) (drop off buf)) =
         Inr (b, ns', (out @ take (nat n) (drop off buf)) @ take k (drop (off + ?k) buf))"
        "b \<longrightarrow> length buf \<le> off + ?k + k" "set ns' \<subseteq> set ns"
      by blast
    have "take (nat n) (drop off buf) @ take k (drop (off + ?k) buf) = take (?k + k) (drop off buf)"
      by (simp add: take_add min_def) (simp add: add.commute)
    with r False Cons.prems(1) add show ?thesis
      by (intro exI [of _ b] exI [of _ ns'] exI [of _ "?k + k"]) auto
  qed
qed

lemma send_response_ok:
  assumes "length resp < 2 ^ 64" and "\<forall>n\<in>set (sends c). 0 \<le> n"
  shows "\<exists>b c'. send_response resp c = Inr (b, c') \<and> set (sends c') \<subseteq> set (sends c) \<and>
     (\<exists>k. wire c' = wire c @ take k resp \<and> (b \<longrightarrow> length resp \<le> k))"
proof -
  obtain b ns' k where "send_loop resp 0 (sends c) (wire c) = Inr (b, ns', wire c @ take k resp)"
      "b \<longrightarrow> length resp \<le> k" "set ns' \<subseteq> set (sends c)"
    using send_loop_ok [of 0 resp "sends c" "wire c"] assms by auto
  then show ?thesis by (auto simp: send_response_def)
qed

text \<open>
  C17. When no \<open>send\<close> fails, the response is sent exactly once, each byte in its place, however
  the kernel cuts it: what is on the wire is a prefix of the response, and all of it when the
  loop ends.
\<close>

theorem response_sent_exactly:
  assumes "length resp < 2 ^ 64" and "\<forall>n\<in>set (sends c). 0 \<le> n"
  shows "\<exists>b c' k. send_response resp c = Inr (b, c') \<and> wire c' = wire c @ take k resp \<and>
    (b \<longrightarrow> wire c' = wire c @ resp)"
proof -
  obtain b c' k where "send_response resp c = Inr (b, c')" "wire c' = wire c @ take k resp" "b \<longrightarrow> length resp \<le> k"
    using send_response_ok [OF assms] by blast
  then show ?thesis by (intro exI [of _ b] exI [of _ c'] exI [of _ k]) simp
qed

theorem response_sent_exactly_witness:
  "\<exists>b c' k. send_response ''hello'' (accepted [] [2, 0, 9]) = Inr (b, c') \<and> wire c' = '''' @ take k ''hello''"
  using response_sent_exactly [of "''hello''" "accepted [] [2, 0, 9]"] by (auto simp: accepted_def)

text \<open>
  A \<open>send\<close> that fails is not noticed: its -1 is added to the offset.  When the first call
  fails, the next one is given a pointer far outside the response; when the second one fails
  after a single byte, that byte is sent twice.
\<close>

theorem failed_send_unchecked:
  assumes "2 \<le> length resp" and "length resp < 2 ^ 63"
  shows "send_response resp (c\<lparr>sends := -1 # ns\<rparr>) = Inl Out_Of_Range \<and>
    (\<exists>c'. send_response resp (c\<lparr>sends := [1, -1, int (length resp)]\<rparr>) = Inr (True, c') \<and>
      wire c' = wire c @ hd resp # resp)"
proof -
  have ne: "resp \<noteq> []" using assms(1) by auto
  have wrap: "add_size 0 (-1) = 2 ^ 64 - 1" "add_size (Suc 0) (-1) = 0" by (simp_all add: add_size_def)
  have "send_loop resp (2 ^ 64 - 1) ns out = Inl Out_Of_Range" for out
    using assms by (cases ns) auto
  then have "send_response resp (c\<lparr>sends := -1 # ns\<rparr>) = Inl Out_Of_Range"
    using assms ne wrap by (simp add: send_response_def send_result_def)
  moreover have "\<exists>c'. send_response resp (c\<lparr>sends := [1, -1, int (length resp)]\<rparr>) = Inr (True, c') \<and>
      wire c' = wire c @ hd resp # resp"
    using assms wrap add_size_result [of 1 0 resp] add_size_result [of "int (length resp)" 0 resp]
    by (cases resp) (auto simp: send_response_def send_result_def)
  ultimately show ?thesis ..
qed

theorem failed_send_unchecked_witness:
  "send_response ''hi'' (accepted [] [-1]) = Inl Out_Of_Range"
  using failed_send_unchecked [of "''hi''" "[]" "accepted [] []"] by (simp add: accepted_def)

section \<open>The connection\<close>

lemma read_text_ok: "length bs < BUF_SIZE \<Longrightarrow> read_text bs = Inr (c_str bs)"
proof -
  assume len: "length bs < BUF_SIZE"
  then obtain k where k: "BUF_SIZE - length bs = Suc k" by (cases "BUF_SIZE - length bs") auto
  have nul: "byte NUL = 0" by (simp add: byte_def NUL_def)
  have "c_str (bs @ replicate (Suc k) NUL) = c_str bs"
    by (induction bs) (simp_all add: c_str_def nul)
  then show ?thesis using len k nul by (simp add: read_text_def)
qed

definition reads_fit :: "recv_result list \<Rightarrow> bool" where
  "reads_fit rs \<longleftrightarrow> (\<forall>bs. Received bs \<in> set rs \<longrightarrow> length bs < BUF_SIZE)"

lemma read_request_ok:
  assumes "reads_fit rs" and "parser_ok HTTP_MAX_HEADER_SIZE (rqParser rp)" and "request_inv (rqData rp)"
  shows "\<exists>r rs'. read_request rp rs = Inr (r, rs') \<and> set rs' \<subseteq> set rs \<and>
    (\<forall>rp'. r = Parsed rp' \<longrightarrow> request_inv (rqData rp'))"
  using assms
proof (induction rp rs rule: read_request.induct)
  case (4 rp bs rs)
  have len: "length bs < BUF_SIZE" and rs: "reads_fit rs" using "4.prems"(1) by (auto simp: reads_fit_def)
  obtain n rp1 where one: "request_execute rp (c_str bs) = Inr (n, rp1)" "parser_ok HTTP_MAX_HEADER_SIZE (rqParser rp1)"
    using request_execute_ok [OF "4.prems"(2)] by blast
  have inv: "request_inv (rqData rp1)" using request_execute_inv [OF one(1) "4.prems"(3)] .
  show ?case
    using "4.IH" [of n "c_str bs" rp1] one rs inv read_text_ok [OF len]
    by (cases "n = length (c_str bs)"; cases "reqFinish (rqData rp1)") auto
qed auto

text \<open>What the connection needs of the servlets: none is null, and responses fit the memory.\<close>

definition serves :: "servlet_dispatch \<Rightarrow> bool" where
  "serves d \<longleftrightarrow> (\<forall>req. request_ok req \<longrightarrow> (\<exists>req' resp. answer d req = Inr (req', resp) \<and> length resp < 2 ^ 64))"

lemma handleClient_ok:
  assumes "serves d" and "reads_fit (recvs c)" and "\<forall>n\<in>set (sends c). 0 \<le> n" and "isConnected c"
  shows "\<exists>pr c'. handleClient d c = Inr (pr, c') \<and>
    (pr = Returned \<longrightarrow> closes c' = closes c + 1 \<and> \<not> isConnected c') \<and>
    (pr = Waiting \<longrightarrow> closes c' = closes c \<and> isConnected c') \<and> (\<exists>w. wire c' = wire c @ w)"
  using assms
proof (induction d c rule: handleClient.induct)
  case (1 d c)
  obtain r rs where read: "read_request newHttpRequestParser (recvs c) = Inr (r, rs)" "set rs \<subseteq> set (recvs c)"
      "\<forall>rp'. r = Parsed rp' \<longrightarrow> request_inv (rqData rp')"
    using read_request_ok [OF "1.prems"(2) newHttpRequestParser_ok newHttpRequestParser_inv] by blast
  show ?case
  proof (cases r)
    case (Parsed rp)
    then have "request_ok (reqData (rqData rp))" using read(3) by (simp add: request_inv_def)
    then obtain req resp where ans: "answer d (reqData (rqData rp)) = Inr (req, resp)" "length resp < 2 ^ 64"
      using "1.prems"(1) unfolding serves_def by blast
    obtain b c1 where sent: "send_response resp (c\<lparr>recvs := rs\<rparr>) = Inr (b, c1)"
        "set (sends c1) \<subseteq> set (sends c)" "\<exists>w. wire c1 = wire c @ w"
      using send_response_ok [OF ans(2), of "c\<lparr>recvs := rs\<rparr>"] "1.prems"(3) by auto
    have c1: "recvs c1 = rs" "isConnected c1" "closes c1 = closes c"
      using send_response_recvs [OF sent(1)] "1.prems"(4) by auto
    show ?thesis
    proof (cases "b \<and> reqKeepAlive req")
      case True
      have "reads_fit (recvs c1)" "\<forall>n\<in>set (sends c1). 0 \<le> n"
        using "1.prems"(2,3) read(2) c1(1) sent(2) by (auto simp: reads_fit_def)
      with "1.IH" [OF read(1) refl _ ans(1) refl sent(1) refl _ _ "1.prems"(1)] Parsed True c1 sent(3)
      obtain pr c' where rec: "handleClient d c1 = Inr (pr, c')"
        "pr = Returned \<longrightarrow> closes c' = closes c + 1 \<and> \<not> isConnected c'"
        "pr = Waiting \<longrightarrow> closes c' = closes c \<and> isConnected c'" "\<exists>w. wire c' = wire c @ w"
        by (metis (no_types, lifting) append.assoc)
      then show ?thesis using True Parsed read(1) ans(1) sent(1) c1
        by (subst handleClient.simps) simp
    next
      case False
      then show ?thesis using Parsed read(1) ans(1) sent(1,3) c1 "1.prems"(4)
        by (subst handleClient.simps) (cases b; auto simp: sock_close_def)
    qed
  qed (use read(1) "1.prems"(4) in \<open>subst handleClient.simps; simp add: sock_close_def\<close>)+
qed

lemma print_headers_assign:
  "length (print_headers ws (map_assign lt k v m)) \<le> length (print_headers ws m) + length k + length v + 3"
  by (induction m) (auto simp: CRLF_def)

lemma print_body_length: "length (print_body m b) \<le> length (to_dec (length b)) + length b + 19"
  by (simp add: print_body_def CRLF_def)

lemma toString_length:
  "length (res_toString r) \<le> length (resVersion r) + length (int_to_dec (resStatus r)) +
     length (httpStatusToString (resStatus r)) + length (print_headers (resWebSocket r) (resHeaders r)) +
     length (print_body (resHeaders r) (resBody r)) + 40"
  by (simp add: res_toString_def print_connection_def CRLF_def)

lemma answer_ok: "serves newServletDispatch"
proof -
  have bodies: "length default_body \<le> 200" "length not_found_body \<le> 200"
    by (simp_all add: default_body_def not_found_body_def)
  have st: "length (int_to_dec 200) \<le> 3" "length (int_to_dec 404) \<le> 3"
    by (simp_all add: int_to_dec_def length_to_dec)
  have msg: "httpStatusToString 200 = ''OK''" "httpStatusToString 404 = ''Not Found''" by code_simp+
  have len: "length (res_toString r) < 2 ^ 64"
    if "length (resVersion r) \<le> 11" "length (resBody r) \<le> 200" "resStatus r = 200 \<or> resStatus r = 404"
      "length (print_headers (resWebSocket r) (resHeaders r)) \<le> 100" for r
  proof -
    have "length (to_dec (length (resBody r))) \<le> 3" using that(2) by (intro length_to_dec) simp_all
    then have "length (res_toString r) \<le> 1000"
      using toString_length [of r] that st msg print_body_length [of "resHeaders r" "resBody r"] by auto
    then show ?thesis by simp
  qed
  have cl: "length (print_headers False (map_assign CaseInsensitiveLess ''content-length'' (to_dec (length body)) [])) \<le> 20"
    if "length body \<le> 200" for body :: string
  proof -
    have "length (to_dec (length body)) \<le> 3" using that by (intro length_to_dec) simp_all
    with print_headers_assign [of False CaseInsensitiveLess "''content-length''" "to_dec (length body)" "[]"]
    show ?thesis by simp
  qed
  have fit: "length (res_toString (snd (snd (h req (newHttpResponse v k))))) < 2 ^ 64"
    if "length (reqVersion req) \<le> 11" "h = default_handle \<or> h = not_found_handle" for h req v k
    using that(2)
  proof
    assume h: "h = not_found_handle"
    show ?thesis using that(1) bodies cl [OF bodies(2)]
      by (intro len) (simp_all add: h not_found_handle_def newHttpResponse_def)
  next
    assume h: "h = default_handle"
    show ?thesis using that(1) bodies cl [OF bodies(1)]
        print_headers_assign [of False CaseInsensitiveLess "''content-type''" "''text/html''"
          "map_assign CaseInsensitiveLess ''content-length'' (to_dec (length default_body)) []"]
      by (intro len) (simp_all add: h default_handle_def res_addHeader_def newHttpResponse_def)
  qed
  show ?thesis unfolding serves_def
  proof (intro allI impI)
    fix req assume "request_ok req"
    then have "length (reqVersion req) \<le> 11" by (simp add: request_ok_def)
    from fit [OF this, of default_handle] fit [OF this, of not_found_handle]
    show "\<exists>req' resp. answer newServletDispatch req = Inr (req', resp) \<and> length resp < 2 ^ 64"
      by (cases "reqPath req = ''/''")
        (simp_all add: answer_def dispatch_handle_def getServlet_def newServletDispatch_def case_prod_beta)
  qed
qed

text \<open>
  C16. While reads are shorter than the buffer and no \<open>send\<close> fails, a connection never runs into
  undefined behaviour, with servlets that are not null.  The handler returns or waits for the
  peer; when it returns it has closed the descriptor exactly once, and while it waits the
  descriptor is open.
\<close>

theorem connection_closed_once:
  assumes "serves d" and "reads_fit rs" and "\<forall>n\<in>set ns. 0 \<le> n"
  shows "\<exists>pr c'. handleClient d (accepted rs ns) = Inr (pr, c') \<and>
    (pr = Returned \<longrightarrow> closes c' = 1 \<and> \<not> isConnected c') \<and> (pr = Waiting \<longrightarrow> closes c' = 0 \<and> isConnected c')"
  using handleClient_ok [of d "accepted rs ns"] assms by (simp add: accepted_def)

theorem connection_closed_once_witness:
  "\<exists>pr c'. handleClient newServletDispatch (accepted [Received ''GET / HTTP/1.1'', Eof] [7]) = Inr (pr, c') \<and>
    (pr = Returned \<longrightarrow> closes c' = 1 \<and> \<not> isConnected c') \<and> (pr = Waiting \<longrightarrow> closes c' = 0 \<and> isConnected c')"
  by (rule connection_closed_once [OF answer_ok]) (simp_all add: reads_fit_def BUF_SIZE_def)

text \<open>
  C35. A read that fills the buffer of 1024 bytes and holds no NUL leaves no terminator, and
  \<open>strlen\<close> reads past the end of the array.
\<close>

theorem full_read_overruns:
  assumes "length bs = 1024" and "\<forall>c\<in>set bs. byte c \<noteq> 0"
  shows "handleClient d (accepted (Received bs # rs) ns) = Inl Out_Of_Range"
  using assms by (subst handleClient.simps) (simp add: accepted_def read_text_def BUF_SIZE_def)

theorem full_read_overruns_witness:
  "handleClient newServletDispatch (accepted [Received (replicate 1024 (CHR ''a''))] []) = Inl Out_Of_Range"
  by (rule full_read_overruns) (simp_all add: byte_def)

end
