(* ===== verification/Url_Parser.thy ===== *)
theory Url_Parser
  imports Http_Exec Std_Lib
begin

text \<open>
  \<open>http_parser_parse_url\<close> and \<open>http_parse_host\<close> of \<open>src/http/http_parser.cpp\<close>: the splitting
  of a URL into schema, user, host, port, path, query and fragment.

  \<open>struct http_parser_url\<close> holds offsets and lengths of 16 bits, which wrap on longer URLs;
  the fields of \<open>field_data\<close> that are not in \<open>field_set\<close> keep whatever the caller had there.
  The \<open>int\<close> result is a truth value: \<open>True\<close> is failure.
\<close>

section \<open>The structure\<close>

datatype (plugins only: code) url_field =
    UF_SCHEMA | UF_HOST | UF_PORT | UF_PATH | UF_QUERY | UF_FRAGMENT | UF_USERINFO | UF_MAX

definition uf_num :: "url_field \<Rightarrow> nat" where
  "uf_num f = (case f of UF_SCHEMA \<Rightarrow> 0 | UF_HOST \<Rightarrow> 1 | UF_PORT \<Rightarrow> 2 | UF_PATH \<Rightarrow> 3 | UF_QUERY \<Rightarrow> 4
                       | UF_FRAGMENT \<Rightarrow> 5 | UF_USERINFO \<Rightarrow> 6 | UF_MAX \<Rightarrow> 7)"

record url_data =
  off :: u16
  len :: u16

record http_parser_url =
  field_set :: u16
  url_port :: u16
  field_data :: "url_data list"

definition uf_bit :: "url_field \<Rightarrow> u16" where
  "uf_bit f = push_bit (uf_num f) 1"

definition has_field :: "http_parser_url \<Rightarrow> url_field \<Rightarrow> bool" where
  "has_field u f \<longleftrightarrow> field_set u AND uf_bit f \<noteq> 0"

definition http_parser_url_init :: http_parser_url where
  "http_parser_url_init = \<lparr>field_set = 0, url_port = 0, field_data = replicate 7 \<lparr>off = 0, len = 0\<rparr>\<rparr>"

definition get_field :: "http_parser_url \<Rightarrow> url_field \<Rightarrow> url_data" where
  "get_field u f = field_data u ! uf_num f"

definition set_field :: "url_field \<Rightarrow> url_data \<Rightarrow> http_parser_url \<Rightarrow> http_parser_url" where
  "set_field f d u = u\<lparr>field_data := (field_data u)[uf_num f := d]\<rparr>"

definition inc_len :: "url_field \<Rightarrow> http_parser_url \<Rightarrow> http_parser_url" where
  "inc_len f u = set_field f ((get_field u f)\<lparr>len := len (get_field u f) + 1\<rparr>) u"

definition mark_field :: "url_field \<Rightarrow> http_parser_url \<Rightarrow> http_parser_url" where
  "mark_field f u = u\<lparr>field_set := field_set u OR uf_bit f\<rparr>"

section \<open>The host\<close>

definition http_parse_host_char :: "http_host_state \<Rightarrow> char \<Rightarrow> http_host_state" where
  "http_parse_host_char s ch =
     (case s of
        s_http_userinfo \<Rightarrow> (if ch = CHR ''@'' then s_http_host_start
                            else if IS_USERINFO_CHAR ch then s_http_userinfo else s_http_host_dead)
      | s_http_userinfo_start \<Rightarrow> (if ch = CHR ''@'' then s_http_host_start
                            else if IS_USERINFO_CHAR ch then s_http_userinfo else s_http_host_dead)
      | s_http_host_start \<Rightarrow> (if ch = CHR ''['' then s_http_host_v6_start
                            else if IS_HOST_CHAR ch then s_http_host else s_http_host_dead)
      | s_http_host \<Rightarrow> (if IS_HOST_CHAR ch then s_http_host
                            else if ch = CHR '':'' then s_http_host_port_start else s_http_host_dead)
      | s_http_host_v6_end \<Rightarrow> (if ch = CHR '':'' then s_http_host_port_start else s_http_host_dead)
      | s_http_host_v6 \<Rightarrow> (if ch = CHR '']'' then s_http_host_v6_end
                            else if IS_HEX ch \<or> ch = CHR '':'' \<or> ch = CHR ''.'' then s_http_host_v6
                            else if ch = CHR ''%'' then s_http_host_v6_zone_start else s_http_host_dead)
      | s_http_host_v6_start \<Rightarrow> (if IS_HEX ch \<or> ch = CHR '':'' \<or> ch = CHR ''.'' then s_http_host_v6
                            else s_http_host_dead)
      | s_http_host_v6_zone \<Rightarrow> (if ch = CHR '']'' then s_http_host_v6_end
                            else if IS_ALPHANUM ch \<or> ch = CHR ''%'' \<or> ch = CHR ''.'' \<or> ch = CHR ''-'' \<or>
                                    ch = CHR ''_'' \<or> ch = CHR 0x7E then s_http_host_v6_zone else s_http_host_dead)
      | s_http_host_v6_zone_start \<Rightarrow> (if IS_ALPHANUM ch \<or> ch = CHR ''%'' \<or> ch = CHR ''.'' \<or> ch = CHR ''-'' \<or>
                                    ch = CHR ''_'' \<or> ch = CHR 0x7E then s_http_host_v6_zone else s_http_host_dead)
      | s_http_host_port \<Rightarrow> (if IS_NUM ch then s_http_host_port else s_http_host_dead)
      | s_http_host_port_start \<Rightarrow> (if IS_NUM ch then s_http_host_port else s_http_host_dead)
      | s_http_host_dead \<Rightarrow> s_http_host_dead)"

text \<open>The switch over \<open>new_s\<close>: what the byte at \<open>p\<close> does to the structure.\<close>

definition start_field :: "url_field \<Rightarrow> nat \<Rightarrow> http_parser_url \<Rightarrow> http_parser_url" where
  "start_field f p u = mark_field f (set_field f \<lparr>off = of_nat p, len = 0\<rparr> u)"

definition host_field :: "http_host_state \<Rightarrow> http_host_state \<Rightarrow> nat \<Rightarrow> http_parser_url \<Rightarrow> http_parser_url" where
  "host_field s new_s p u =
     (case new_s of
        s_http_host \<Rightarrow>
          inc_len UF_HOST (if s \<noteq> s_http_host
            then set_field UF_HOST ((get_field u UF_HOST)\<lparr>off := of_nat p\<rparr>) u else u)
      | s_http_host_v6 \<Rightarrow>
          inc_len UF_HOST (if s \<noteq> s_http_host_v6
            then set_field UF_HOST ((get_field u UF_HOST)\<lparr>off := of_nat p\<rparr>) u else u)
      | s_http_host_v6_zone_start \<Rightarrow> inc_len UF_HOST u
      | s_http_host_v6_zone \<Rightarrow> inc_len UF_HOST u
      | s_http_host_port \<Rightarrow> inc_len UF_PORT (if s \<noteq> s_http_host_port then start_field UF_PORT p u else u)
      | s_http_userinfo \<Rightarrow> inc_len UF_USERINFO (if s \<noteq> s_http_userinfo then start_field UF_USERINFO p u else u)
      | _ \<Rightarrow> u)"

text \<open>The loop; \<open>None\<close> is the early \<open>return 1\<close>.\<close>

function host_loop :: "string \<Rightarrow> nat \<Rightarrow> nat \<Rightarrow> http_host_state \<Rightarrow> http_parser_url \<Rightarrow>
    fault + http_host_state option \<times> http_parser_url" where
  "host_loop buf p stop s u =
     (if p < stop
      then (if length buf \<le> p then Inl Out_Of_Range
            else let new_s = http_parse_host_char s (buf ! p)
                 in if new_s = s_http_host_dead then Inr (None, u)
                    else host_loop buf (p + 1) stop new_s (host_field s new_s p u))
      else Inr (Some s, u))"
  by pat_completeness auto
termination by (relation "measure (\<lambda>(buf, p, stop, s, u). stop - p)") auto

declare host_loop.simps [simp del]

definition host_incomplete :: "http_host_state \<Rightarrow> bool" where
  "host_incomplete s \<longleftrightarrow>
     s \<in> {s_http_host_start, s_http_host_v6_start, s_http_host_v6, s_http_host_v6_zone_start,
          s_http_host_v6_zone, s_http_host_port_start, s_http_userinfo, s_http_userinfo_start}"

definition http_parse_host :: "string \<Rightarrow> http_parser_url \<Rightarrow> bool \<Rightarrow> fault + bool \<times> http_parser_url" where
  "http_parse_host buf u found_at =
     (let h = get_field u UF_HOST; stop = unat (off h) + unat (len h)
      in if \<not> has_field u UF_HOST then Inl Assert_Failed
         else bind_run
                (host_loop buf (unat (off h)) stop (if found_at then s_http_userinfo_start else s_http_host_start)
                   (set_field UF_HOST (h\<lparr>len := 0\<rparr>) u))
                (\<lambda>(r, u). case r of None \<Rightarrow> Inr (True, u) | Some s \<Rightarrow> Inr (host_incomplete s, u)))"

section \<open>The URL\<close>

text \<open>The field a state belongs to: \<open>None\<close> for the delimiters, which are skipped.\<close>

datatype (plugins only: code) field_step = Url_Error | Delimiter | Unexpected | In_Field url_field

definition field_of_state :: "parser_state \<Rightarrow> field_step" where
  "field_of_state s =
     (case s of
        s_dead \<Rightarrow> Url_Error
      | s_req_schema_slash \<Rightarrow> Delimiter
      | s_req_schema_slash_slash \<Rightarrow> Delimiter
      | s_req_server_start \<Rightarrow> Delimiter
      | s_req_query_string_start \<Rightarrow> Delimiter
      | s_req_fragment_start \<Rightarrow> Delimiter
      | s_req_schema \<Rightarrow> In_Field UF_SCHEMA
      | s_req_server_with_at \<Rightarrow> In_Field UF_HOST
      | s_req_server \<Rightarrow> In_Field UF_HOST
      | s_req_path \<Rightarrow> In_Field UF_PATH
      | s_req_query_string \<Rightarrow> In_Field UF_QUERY
      | s_req_fragment \<Rightarrow> In_Field UF_FRAGMENT
      | _ \<Rightarrow> Unexpected)"

definition url_field_step :: "url_field \<Rightarrow> url_field \<Rightarrow> nat \<Rightarrow> http_parser_url \<Rightarrow> http_parser_url" where
  "url_field_step uf old_uf p u =
     (if uf = old_uf then inc_len uf u
      else mark_field uf (set_field uf \<lparr>off = of_nat p, len = 1\<rparr> u))"

text \<open>The loop over the bytes: \<open>None\<close> is \<open>return 1\<close>, otherwise \<open>found_at\<close>.\<close>

fun url_loop :: "string \<Rightarrow> nat \<Rightarrow> parser_state \<Rightarrow> url_field \<Rightarrow> bool \<Rightarrow> http_parser_url \<Rightarrow>
    fault + bool option \<times> http_parser_url" where
  "url_loop [] p s old_uf found_at u = Inr (Some found_at, u)"
| "url_loop (c # cs) p s old_uf found_at u =
     (let s = parse_url_char s c
      in case field_of_state s of
           Url_Error \<Rightarrow> Inr (None, u)
         | Delimiter \<Rightarrow> url_loop cs (p + 1) s old_uf found_at u
         | Unexpected \<Rightarrow> Inl Assert_Failed
         | In_Field uf \<Rightarrow>
             url_loop cs (p + 1) s uf (found_at \<or> s = s_req_server_with_at) (url_field_step uf old_uf p u))"

text \<open>\<open>*p - '0'\<close> with a signed \<open>char\<close>, added to an \<open>unsigned long\<close>.\<close>

definition char_value :: "char \<Rightarrow> int" where
  "char_value c = (if byte c < 128 then int (byte c) else int (byte c) - 256)"

fun port_loop :: "string \<Rightarrow> u64 \<Rightarrow> u64 option" where
  "port_loop [] v = Some v"
| "port_loop (c # cs) v =
     (let v = v * 10 + of_int (char_value c - 0x30)
      in if 0xFFFF < v then None else port_loop cs v)"

definition parse_port :: "string \<Rightarrow> http_parser_url \<Rightarrow> fault + bool \<times> http_parser_url" where
  "parse_port buf u =
     (let d = get_field u UF_PORT; o' = unat (off d); l = unat (len d)
      in if length buf < o' + l then Inl Assert_Failed
         else case port_loop (take l (drop o' buf)) 0 of
                None \<Rightarrow> Inr (True, u)
              | Some v \<Rightarrow> Inr (False, u\<lparr>url_port := ucast v\<rparr>))"

definition http_parser_parse_url ::
  "string \<Rightarrow> bool \<Rightarrow> http_parser_url \<Rightarrow> fault + bool \<times> http_parser_url" where
  "http_parser_parse_url buf is_connect u =
     (if buf = [] then Inr (True, u)
      else bind_run
        (url_loop buf 0 (if is_connect then s_req_server_start else s_req_spaces_before_url) UF_MAX False
           (u\<lparr>url_port := 0, field_set := 0\<rparr>))
        (\<lambda>(r, u). case r of
            None \<Rightarrow> Inr (True, u)
          | Some found_at \<Rightarrow>
              if has_field u UF_SCHEMA \<and> \<not> has_field u UF_HOST then Inr (True, u)
              else bind_run (if has_field u UF_HOST then http_parse_host buf u found_at else Inr (False, u))
                (\<lambda>(bad, u).
                  if bad then Inr (True, u)
                  else if is_connect \<and> field_set u \<noteq> uf_bit UF_HOST OR uf_bit UF_PORT then Inr (True, u)
                  else if has_field u UF_PORT then parse_port buf u
                  else Inr (False, u))))"

section \<open>Reading and writing the fields\<close>

lemma uf_num_inj: "uf_num f = uf_num g \<longleftrightarrow> f = g"
  by (cases f; cases g) (simp_all add: uf_num_def)

lemma uf_num_less: "f \<noteq> UF_MAX \<Longrightarrow> uf_num f < 7"
  by (cases f) (simp_all add: uf_num_def)

lemma uf_num_small: "uf_num f < 16"
  by (cases f) (simp_all add: uf_num_def)

lemma has_field_bit: "has_field u f \<longleftrightarrow> bit (field_set u) (uf_num f)"
  by (simp add: has_field_def uf_bit_def push_bit_eq_mult and_exp_eq_0_iff_not_bit)

lemma has_mark_field [simp]: "has_field (mark_field f u) g \<longleftrightarrow> f = g \<or> has_field u g"
proof -
  have "bit (push_bit (uf_num f) 1 :: u16) (uf_num g) \<longleftrightarrow> f = g"
    using uf_num_small [of g] by (simp add: bit_exp_iff possible_bit_word uf_num_inj eq_commute [of g f])
  then show ?thesis by (auto simp: has_field_bit mark_field_def uf_bit_def bit_or_iff)
qed

lemma has_field_sel [simp]:
  "has_field (set_field f d u) g = has_field u g" "has_field (inc_len f u) g = has_field u g"
  "has_field (u\<lparr>url_port := w\<rparr>) g = has_field u g"
  by (simp_all add: has_field_def set_field_def inc_len_def)

definition fields_ok :: "http_parser_url \<Rightarrow> bool" where
  "fields_ok u \<longleftrightarrow> length (field_data u) = 7"

lemma fields_ok_sel [simp]:
  "fields_ok (set_field f d u) = fields_ok u" "fields_ok (inc_len f u) = fields_ok u"
  "fields_ok (mark_field f u) = fields_ok u" "fields_ok (u\<lparr>url_port := w\<rparr>) = fields_ok u"
  "fields_ok (u\<lparr>field_set := b\<rparr>) = fields_ok u"
  by (simp_all add: fields_ok_def set_field_def inc_len_def mark_field_def)

lemma get_set_field: "fields_ok u \<Longrightarrow> f \<noteq> UF_MAX \<Longrightarrow> get_field (set_field f d u) g = (if f = g then d else get_field u g)"
  using uf_num_less [of f] uf_num_inj [of f g] by (auto simp: fields_ok_def get_field_def set_field_def nth_list_update)

lemma get_mark_field [simp]: "get_field (mark_field f u) g = get_field u g"
  by (simp add: get_field_def mark_field_def)

lemma get_inc_len:
  "fields_ok u \<Longrightarrow> f \<noteq> UF_MAX \<Longrightarrow>
   get_field (inc_len f u) g = (if f = g then (get_field u f)\<lparr>len := len (get_field u f) + 1\<rparr> else get_field u g)"
  by (simp add: inc_len_def get_set_field)

section \<open>The fields stay inside the buffer\<close>

text \<open>The end of a field, in the unbounded numbers the 16-bit ones stand for.\<close>

definition field_end :: "http_parser_url \<Rightarrow> url_field \<Rightarrow> nat" where
  "field_end u f = unat (off (get_field u f)) + unat (len (get_field u f))"

lemma unat_inc16: "unat (w + 1 :: u16) \<le> unat w + 1"
proof -
  have "w + 1 = of_nat (unat w + 1)" by simp
  then have "unat (w + 1) = (unat w + 1) mod 2 ^ LENGTH(16)" by (simp only: unat_of_nat)
  then show ?thesis by (metis mod_less_eq_dividend)
qed

lemma unat_of_nat16: "unat (of_nat p :: u16) \<le> p"
  by (metis mod_less_eq_dividend unat_of_nat)

lemma field_end_inc: "fields_ok u \<Longrightarrow> f \<noteq> UF_MAX \<Longrightarrow> field_end (inc_len f u) f \<le> field_end u f + 1"
  using unat_inc16 [of "len (get_field u f)"] by (simp add: field_end_def get_inc_len)

lemma field_end_other:
  "fields_ok u \<Longrightarrow> f \<noteq> UF_MAX \<Longrightarrow> g \<noteq> f \<Longrightarrow> field_end (inc_len f u) g = field_end u g"
  "fields_ok u \<Longrightarrow> f \<noteq> UF_MAX \<Longrightarrow> g \<noteq> f \<Longrightarrow> field_end (set_field f d u) g = field_end u g"
  "field_end (mark_field f u) g = field_end u g"
  by (simp_all add: field_end_def get_inc_len get_set_field)

lemma field_end_new: "fields_ok u \<Longrightarrow> f \<noteq> UF_MAX \<Longrightarrow> field_end (set_field f \<lparr>off = of_nat p, len = w\<rparr> u) f \<le> p + unat w"
  using unat_of_nat16 [of p] by (simp add: field_end_def get_set_field)

lemma url_field_step_end:
  assumes "fields_ok u" and "uf \<noteq> UF_MAX" and "field_end u uf \<le> p \<or> uf \<noteq> old"
  shows "field_end (url_field_step uf old p u) uf \<le> p + 1"
    and "g \<noteq> uf \<Longrightarrow> field_end (url_field_step uf old p u) g = field_end u g"
    and "fields_ok (url_field_step uf old p u)"
    and "has_field u uf \<or> uf \<noteq> old \<Longrightarrow> has_field (url_field_step uf old p u) g \<longleftrightarrow> g = uf \<or> has_field u g"
  using assms field_end_inc [of u uf] field_end_new [of u uf p 1]
  by (auto simp: url_field_step_def field_end_other)

lemma field_of_state_url:
  "s \<in> url_states \<Longrightarrow> \<exists>f. field_of_state s = Delimiter \<or>
     (field_of_state s = In_Field f \<and> f \<noteq> UF_MAX \<and> f \<noteq> UF_PORT \<and> f \<noteq> UF_USERINFO)"
  by (auto simp: url_states_def field_of_state_def)

lemma url_loop_ok:
  assumes "fields_ok u" and "\<forall>f. has_field u f \<longrightarrow> f \<noteq> UF_MAX \<longrightarrow> field_end u f \<le> p"
    and "old \<noteq> UF_MAX \<longrightarrow> has_field u old" and "\<not> has_field u UF_PORT" and "\<not> has_field u UF_USERINFO"
  shows "\<exists>r v. url_loop cs p s old fa u = Inr (r, v) \<and> fields_ok v \<and>
     (\<forall>f. has_field v f \<longrightarrow> f \<noteq> UF_MAX \<longrightarrow> field_end v f \<le> p + length cs) \<and>
     \<not> has_field v UF_PORT \<and> \<not> has_field v UF_USERINFO"
  using assms
proof (induction cs arbitrary: p s old fa u)
  case Nil
  then show ?case by simp
next
  case (Cons c cs)
  let ?s = "parse_url_char s c"
  consider "?s = s_dead" | "?s \<in> url_states" using parse_url_char_range by blast
  then show ?case
  proof cases
    case 1
    then show ?thesis using Cons.prems by (auto simp: field_of_state_def trans_le_add1)
  next
    case 2
    from field_of_state_url [OF 2] consider "field_of_state ?s = Delimiter"
      | f where "field_of_state ?s = In_Field f" "f \<noteq> UF_MAX" "f \<noteq> UF_PORT" "f \<noteq> UF_USERINFO" by blast
    then show ?thesis
    proof cases
      case 1
      have "\<forall>f. has_field u f \<longrightarrow> f \<noteq> UF_MAX \<longrightarrow> field_end u f \<le> p + 1" using Cons.prems(2) by force
      from Cons.IH [OF Cons.prems(1) this Cons.prems(3-5), of ?s fa] show ?thesis using 1 by simp
    next
      case (2 f)
      let ?u = "url_field_step f old p u"
      have pre: "field_end u f \<le> p \<or> f \<noteq> old" "has_field u f \<or> f \<noteq> old" using Cons.prems(2,3) 2(2) by auto
      note st = url_field_step_end [OF Cons.prems(1) 2(2) pre(1)]
      have has: "has_field ?u g \<longleftrightarrow> g = f \<or> has_field u g" for g using st(4) pre(2) by blast
      have "\<forall>g. has_field ?u g \<longrightarrow> g \<noteq> UF_MAX \<longrightarrow> field_end ?u g \<le> p + 1"
      proof (intro allI impI)
        fix g assume g: "has_field ?u g" "g \<noteq> UF_MAX"
        show "field_end ?u g \<le> p + 1"
        proof (cases "g = f")
          case False
          then have "field_end u g \<le> p" using g has Cons.prems(2) by blast
          then show ?thesis using st(2) [OF False] by simp
        qed (use st(1) in simp)
      qed
      from Cons.IH [OF st(3) this, of f ?s "fa \<or> ?s = s_req_server_with_at"] show ?thesis
        using 2 has Cons.prems(4,5) by (simp add: Let_def)
    qed
  qed
qed

text \<open>
  In the loop over the host: the fields it writes end at or before \<open>p\<close>, and the length of the
  host is 0 until its first byte.
\<close>

definition before_host :: "http_host_state \<Rightarrow> bool" where
  "before_host s \<longleftrightarrow> s \<in> {s_http_userinfo_start, s_http_userinfo, s_http_host_start, s_http_host_v6_start}"

definition host_inv :: "nat \<Rightarrow> nat \<Rightarrow> http_host_state \<Rightarrow> http_parser_url \<Rightarrow> bool" where
  "host_inv n p s u \<longleftrightarrow> fields_ok u \<and> has_field u UF_HOST \<and> field_end u UF_HOST \<le> p \<and>
     (before_host s \<longrightarrow> len (get_field u UF_HOST) = 0) \<and>
     (has_field u UF_PORT \<longrightarrow> field_end u UF_PORT \<le> p) \<and>
     (s = s_http_host_port \<longrightarrow> has_field u UF_PORT) \<and>
     (has_field u UF_USERINFO \<longrightarrow> field_end u UF_USERINFO \<le> p) \<and>
     (s = s_http_userinfo \<longrightarrow> has_field u UF_USERINFO) \<and>
     (\<forall>f. f \<noteq> UF_MAX \<longrightarrow> has_field u f \<longrightarrow> f \<notin> {UF_HOST, UF_PORT, UF_USERINFO} \<longrightarrow> field_end u f \<le> n)"

lemma host_enters:
  assumes "http_parse_host_char s c = t" and "t = s_http_host \<or> t = s_http_host_v6" and "s \<noteq> t"
  shows "before_host s"
  using assms by (cases s) (auto simp: http_parse_host_char_def before_host_def split: if_splits)

lemma host_before:
  assumes "http_parse_host_char s c = t" and "before_host t"
  shows "before_host s"
  using assms by (cases s) (auto simp: http_parse_host_char_def before_host_def split: if_splits)

lemma host_len_zero:
  assumes "fields_ok u" and "len (get_field u UF_HOST) = 0"
  shows "field_end (set_field UF_HOST ((get_field u UF_HOST)\<lparr>off := of_nat p\<rparr>) u) UF_HOST \<le> p"
  using assms unat_of_nat16 [of p] by (simp add: field_end_def get_set_field)

lemma start_field_sel:
  assumes "fields_ok u" and "f \<noteq> UF_MAX"
  shows "field_end (start_field f p u) f \<le> p" "g \<noteq> f \<Longrightarrow> field_end (start_field f p u) g = field_end u g"
    "g \<noteq> f \<Longrightarrow> get_field (start_field f p u) g = get_field u g"
    "has_field (start_field f p u) g \<longleftrightarrow> f = g \<or> has_field u g" "fields_ok (start_field f p u)"
  using assms field_end_new [OF assms, of p 0]
  by (simp_all add: start_field_def field_end_other get_set_field)

lemma host_inv_mono:
  assumes "host_inv n p s u" and "t \<notin> {s_http_host_port, s_http_userinfo}" and "before_host t \<longrightarrow> before_host s"
  shows "host_inv n (p + 1) t u"
  using assms by (auto simp: host_inv_def)

text \<open>One more byte of a field that is already being read.\<close>

lemma host_inv_inc:
  assumes "host_inv n p s u" and "f \<in> {UF_HOST, UF_PORT, UF_USERINFO}" and "has_field u f"
    and "f = UF_HOST \<longrightarrow> \<not> before_host t" and "before_host t \<longrightarrow> before_host s"
    and "t = s_http_host_port \<longrightarrow> has_field u UF_PORT" and "t = s_http_userinfo \<longrightarrow> has_field u UF_USERINFO"
  shows "host_inv n (p + 1) t (inc_len f u)"
proof -
  have ok: "fields_ok u" "f \<noteq> UF_MAX" using assms(1,2) by (auto simp: host_inv_def)
  have e: "field_end (inc_len f u) f \<le> field_end u f + 1" by (rule field_end_inc [OF ok])
  have o: "field_end (inc_len f u) g = field_end u g" "get_field (inc_len f u) g = get_field u g" if "g \<noteq> f" for g
    using field_end_other(1) [OF ok that] get_inc_len [OF ok, of g] that by auto
  have ends: "field_end (inc_len f u) g \<le> p + 1" if "g \<in> {UF_HOST, UF_PORT, UF_USERINFO}" "has_field u g" for g
  proof -
    have "field_end u g \<le> p" using assms(1) that unfolding host_inv_def by blast
    then show ?thesis using e o(1) [of g] by (cases "g = f") simp_all
  qed
  have rest: "field_end (inc_len f u) g = field_end u g" if "g \<notin> {UF_HOST, UF_PORT, UF_USERINFO}" for g
    using o(1) [of g] assms(2) that by auto
  have inv: "fields_ok (inc_len f u)" "has_field (inc_len f u) g \<longleftrightarrow> has_field u g" for g
    using ok by simp_all
  have len: "before_host t \<longrightarrow> len (get_field (inc_len f u) UF_HOST) = 0"
    using assms(1,4,5) o(2) [of UF_HOST] by (auto simp: host_inv_def)
  have other: "field_end (inc_len f u) g \<le> n" if "g \<noteq> UF_MAX" "has_field u g" "g \<notin> {UF_HOST, UF_PORT, UF_USERINFO}" for g
    using assms(1) rest [OF that(3)] that by (simp add: host_inv_def)
  have host: "has_field u UF_HOST" using assms(1) by (simp add: host_inv_def)
  show ?thesis
    unfolding host_inv_def inv(2) using inv(1) len other host ends assms(6,7) by blast
qed

lemma host_field_inv:
  assumes inv: "host_inv n p s u" and t: "http_parse_host_char s c = t" and live: "t \<noteq> s_http_host_dead"
  shows "host_inv n (p + 1) t (host_field s t p u)"
proof -
  have ok: "fields_ok u" "has_field u UF_HOST" using inv by (auto simp: host_inv_def)
  have before: "before_host t \<longrightarrow> before_host s" using host_before [OF t] by blast
  let ?h = "set_field UF_HOST ((get_field u UF_HOST)\<lparr>off := of_nat p\<rparr>) u"
  have enter: "host_inv n p s ?h" if "before_host s"
    using inv that host_len_zero [OF ok(1), of p] field_end_other(2) [OF ok(1), of UF_HOST]
    by (auto simp: host_inv_def get_set_field)
  have start: "host_inv n p s (start_field f p u)" if "f = UF_PORT \<or> f = UF_USERINFO" for f
  proof -
    have "f \<noteq> UF_MAX" "UF_HOST \<noteq> f" using that by auto
    note sel = start_field_sel(1) [OF ok(1) this(1)] start_field_sel(2,3) [OF ok(1) this(1), of _ p]
      start_field_sel(4,5) [OF ok(1) this(1)] this(2)
    from inv that sel show ?thesis unfolding host_inv_def by (elim disjE) simp_all
  qed
  have host: "host_inv n (p + 1) t (inc_len UF_HOST (if s \<noteq> t then ?h else u))" if "t = s_http_host \<or> t = s_http_host_v6"
  proof -
    have "host_inv n p s (if s \<noteq> t then ?h else u)" using inv enter host_enters [OF t that] by auto
    then show ?thesis using that ok(2) by (intro host_inv_inc) (auto simp: before_host_def)
  qed
  have zone: "host_inv n (p + 1) t (inc_len UF_HOST u)" if "t = s_http_host_v6_zone_start \<or> t = s_http_host_v6_zone"
    using inv that ok(2) by (intro host_inv_inc) (auto simp: before_host_def)
  have port: "host_inv n (p + 1) t (inc_len UF_PORT (if s \<noteq> t then start_field UF_PORT p u else u))" if "t = s_http_host_port"
  proof -
    have "has_field (if s \<noteq> t then start_field UF_PORT p u else u) UF_PORT"
      using inv that start_field_sel(4) [OF ok(1), of UF_PORT p UF_PORT] by (auto simp: host_inv_def)
    moreover have "host_inv n p s (if s \<noteq> t then start_field UF_PORT p u else u)" using inv start by auto
    ultimately show ?thesis using that by (intro host_inv_inc) (auto simp: before_host_def)
  qed
  have user: "host_inv n (p + 1) t (inc_len UF_USERINFO (if s \<noteq> t then start_field UF_USERINFO p u else u))"
    if "t = s_http_userinfo"
  proof -
    have "has_field (if s \<noteq> t then start_field UF_USERINFO p u else u) UF_USERINFO"
      using inv that start_field_sel(4) [OF ok(1), of UF_USERINFO p UF_USERINFO] by (auto simp: host_inv_def)
    moreover have "host_inv n p s (if s \<noteq> t then start_field UF_USERINFO p u else u)" using inv start by auto
    ultimately show ?thesis using that before by (intro host_inv_inc) auto
  qed
  have same: "host_inv n (p + 1) t u" if "t \<notin> {s_http_host_port, s_http_userinfo}"
    using host_inv_mono [OF inv that before] .
  show ?thesis using host zone port user same live by (cases t) (simp_all add: host_field_def)
qed

lemma host_loop_ok:
  assumes "host_inv n p s u" and "p \<le> stop" and "stop \<le> length buf"
  shows "\<exists>r v. host_loop buf p stop s u = Inr (r, v) \<and>
     (\<forall>t. r = Some t \<longrightarrow> host_inv n stop t v)"
  using assms
proof (induction buf p stop s u rule: host_loop.induct)
  case (1 buf p stop s u)
  show ?case
  proof (cases "p < stop")
    case True
    then have "p < length buf" using "1.prems" by simp
    show ?thesis
    proof (cases "http_parse_host_char s (buf ! p) = s_http_host_dead")
      case False
      note host_field_inv [OF "1.prems"(1) refl False]
      from "1.IH" [OF True _ refl False this] show ?thesis
        using True False \<open>p < length buf\<close> "1.prems"(3) by (subst host_loop.simps) (simp add: Let_def)
    qed (use True \<open>p < length buf\<close> in \<open>subst host_loop.simps, simp\<close>)
  next
    case False
    then show ?thesis using "1.prems" by (subst host_loop.simps) simp
  qed
qed

lemma host_inv_fields:
  assumes "host_inv n stop t v" and "stop \<le> n"
  shows "fields_ok v" "has_field v UF_HOST" "\<forall>f. has_field v f \<longrightarrow> f \<noteq> UF_MAX \<longrightarrow> field_end v f \<le> n"
  using assms by (force simp: host_inv_def)+

lemma http_parse_host_ok:
  assumes "fields_ok u" and "has_field u UF_HOST" and ends: "\<forall>f. has_field u f \<longrightarrow> f \<noteq> UF_MAX \<longrightarrow> field_end u f \<le> length buf"
    and "\<not> has_field u UF_PORT" and "\<not> has_field u UF_USERINFO"
  shows "\<exists>bad v. http_parse_host buf u fa = Inr (bad, v) \<and>
    (\<not> bad \<longrightarrow> fields_ok v \<and> has_field v UF_HOST \<and>
       (\<forall>f. has_field v f \<longrightarrow> f \<noteq> UF_MAX \<longrightarrow> field_end v f \<le> length buf))"
proof -
  let ?h = "get_field u UF_HOST"
  let ?p = "unat (off ?h)" and ?s = "if fa then s_http_userinfo_start else s_http_host_start"
  let ?u = "set_field UF_HOST (?h\<lparr>len := 0\<rparr>) u"
  have stop: "?p + unat (len ?h) \<le> length buf" using ends assms(2) by (force simp: field_end_def)
  have "host_inv (length buf) ?p ?s ?u"
    using assms field_end_other(2) [OF assms(1), of UF_HOST]
    by (auto simp: host_inv_def field_end_def get_set_field)
  from host_loop_ok [OF this _ stop] obtain r v where
    v: "host_loop buf ?p (?p + unat (len ?h)) ?s ?u = Inr (r, v)"
       "\<forall>t. r = Some t \<longrightarrow> host_inv (length buf) (?p + unat (len ?h)) t v"
    by auto
  show ?thesis
    using v host_inv_fields [OF _ stop, of _ v] assms(2)
    by (cases r) (auto simp: http_parse_host_def Let_def)
qed

lemma parse_port_ok:
  assumes "has_field u UF_PORT" and "\<forall>f. has_field u f \<longrightarrow> f \<noteq> UF_MAX \<longrightarrow> field_end u f \<le> length buf"
  shows "parse_port buf u = Inr (True, u) \<or> (\<exists>w. parse_port buf u = Inr (False, u\<lparr>url_port := w\<rparr>))"
proof -
  have "field_end u UF_PORT \<le> length buf" using assms by blast
  then show ?thesis by (auto simp: parse_port_def Let_def field_end_def split: option.splits)
qed

text \<open>
  C8. \<open>http_parser_parse_url\<close> never fails an assertion and never reads outside the buffer, also
  when its 16-bit offsets wrap.  When it succeeds, every field it reports lies inside the
  buffer, a URL with a schema has a host, and a CONNECT target is exactly a host and a port.
\<close>

theorem parse_url_in_bounds:
  assumes "length (field_data u0) = 7"
  shows "\<exists>r u. http_parser_parse_url buf is_connect u0 = Inr (r, u) \<and>
    (\<not> r \<longrightarrow> (\<forall>f. has_field u f \<longrightarrow> f \<noteq> UF_MAX \<longrightarrow> field_end u f \<le> length buf) \<and>
            (has_field u UF_SCHEMA \<longrightarrow> has_field u UF_HOST) \<and>
            (is_connect \<longrightarrow> field_set u = uf_bit UF_HOST OR uf_bit UF_PORT))"
proof (cases "buf = []")
  case True
  then show ?thesis by (intro exI [where x = True]) (simp add: http_parser_parse_url_def)
next
  case False
  let ?u0 = "u0\<lparr>url_port := 0, field_set := 0\<rparr>"
  let ?s = "if is_connect then s_req_server_start else s_req_spaces_before_url"
  have "fields_ok ?u0" "\<not> has_field ?u0 f" for f using assms by (auto simp: fields_ok_def has_field_def)
  then obtain r u where u: "url_loop buf 0 ?s UF_MAX False ?u0 = Inr (r, u)" "fields_ok u"
      "\<forall>f. has_field u f \<longrightarrow> f \<noteq> UF_MAX \<longrightarrow> field_end u f \<le> length buf" "\<not> has_field u UF_PORT" "\<not> has_field u UF_USERINFO"
    using url_loop_ok [of ?u0 0 UF_MAX buf ?s False] by auto
  show ?thesis
  proof (cases "r = None \<or> has_field u UF_SCHEMA \<and> \<not> has_field u UF_HOST")
    case True
    then show ?thesis using u(1) False
      by (intro exI [where x = True]) (auto simp: http_parser_parse_url_def split: option.splits)
  next
    case live: False
    then obtain fa where r: "r = Some fa" by auto
    have host: "(has_field u UF_SCHEMA \<and> \<not> has_field u UF_HOST) = False" using live by blast
    obtain bad v where v: "(if has_field u UF_HOST then http_parse_host buf u fa else Inr (False, u)) = Inr (bad, v)"
        "\<not> bad \<longrightarrow> (has_field v UF_SCHEMA \<longrightarrow> has_field v UF_HOST) \<and>
           (\<forall>f. has_field v f \<longrightarrow> f \<noteq> UF_MAX \<longrightarrow> field_end v f \<le> length buf)"
      using http_parse_host_ok [OF u(2) _ u(3-5), of fa] u(3) live r by (cases "has_field u UF_HOST") auto
    have eval: "http_parser_parse_url buf is_connect u0 =
        (if bad then Inr (True, v)
         else if is_connect \<and> field_set v \<noteq> uf_bit UF_HOST OR uf_bit UF_PORT then Inr (True, v)
         else if has_field v UF_PORT then parse_port buf v else Inr (False, v))"
      using False u(1) r host v(1) by (simp only: http_parser_parse_url_def bind_run.simps prod.case option.case if_False simp_thms)
    show ?thesis
      using v(2) parse_port_ok [of v buf] unfolding eval
      by (cases bad) (auto simp: field_end_def get_field_def ex_bool_eq)
  qed
qed

theorem parse_url_in_bounds_witness:
  "\<exists>r u. http_parser_parse_url ''http://u@h:80/p'' False http_parser_url_init = Inr (r, u) \<and>
    (\<not> r \<longrightarrow> (\<forall>f. has_field u f \<longrightarrow> f \<noteq> UF_MAX \<longrightarrow> field_end u f \<le> 15) \<and>
            (has_field u UF_SCHEMA \<longrightarrow> has_field u UF_HOST) \<and>
            (False \<longrightarrow> field_set u = uf_bit UF_HOST OR uf_bit UF_PORT))"
  using parse_url_in_bounds [of http_parser_url_init "''http://u@h:80/p''" False]
  by (simp only: http_parser_url_init_def) (simp add: numeral_eq_Suc)

section \<open>The port\<close>

lemma dec_value_mono: "v \<le> dec_value v ds"
proof (induction ds arbitrary: v)
  case (Cons c cs)
  have "v \<le> v * 10 + (byte c - 48)" by simp
  also note Cons [of "v * 10 + (byte c - 48)"]
  finally show ?case by simp
qed simp

lemma port_digit:
  assumes "IS_NUM c" and "unat v \<le> 0xFFFF"
  shows "v * 10 + of_int (char_value c - 0x30) = (of_nat (unat v * 10 + (byte c - 48)) :: u64)"
    and "unat v * 10 + (byte c - 48) < 2 ^ 64"
proof -
  have c: "48 \<le> byte c" "byte c \<le> 57" using assms(1) by (auto simp: IS_NUM_def)
  then have "char_value c - 0x30 = int (byte c - 48)" by (simp add: char_value_def)
  then show "v * 10 + of_int (char_value c - 0x30) = (of_nat (unat v * 10 + (byte c - 48)) :: u64)" by simp
  show "unat v * 10 + (byte c - 48) < 2 ^ 64" using assms(2) c by simp
qed

lemma port_loop_decimal:
  assumes "\<forall>c\<in>set ds. IS_NUM c" and "unat v \<le> 0xFFFF"
  shows "port_loop ds v = (if dec_value (unat v) ds \<le> 0xFFFF then Some (of_nat (dec_value (unat v) ds)) else None)"
  using assms
proof (induction ds arbitrary: v)
  case Nil
  then show ?case by simp
next
  case (Cons c cs)
  let ?n = "unat v * 10 + (byte c - 48)"
  have step: "v * 10 + of_int (char_value c - 0x30) = (of_nat ?n :: u64)" and n: "?n < 2 ^ 64"
    using port_digit [of c v] Cons.prems by auto
  have un: "unat (of_nat ?n :: u64) = ?n" using n by (simp only: unat_of_nat) simp
  have le: "(0xFFFF < (of_nat ?n :: u64)) \<longleftrightarrow> 0xFFFF < ?n" by (simp only: word_less_nat_alt un) simp
  show ?case
  proof (cases "?n \<le> 0xFFFF")
    case True
    with Cons.IH [of "of_nat ?n"] Cons.prems show ?thesis
      by (simp only: port_loop.simps step Let_def le un dec_value.simps) simp
  next
    case False
    with dec_value_mono [of ?n cs] show ?thesis by (simp only: port_loop.simps step Let_def le dec_value.simps) simp
  qed
qed

lemma of_nat_ucast16: "ucast (of_nat n :: u64) = (of_nat n :: u16)"
  by (simp only: unsigned_of_nat word_of_nat_eq_iff) (simp add: min_def)

text \<open>
  C9. A port field of digits inside the buffer is read as the decimal number it spells: the
  port is that number when it fits 16 bits, and the URL is rejected when it does not, however
  many digits there are.
\<close>

theorem parse_port_value:
  assumes "field_end u UF_PORT \<le> length buf"
    and "ds = take (unat (len (get_field u UF_PORT))) (drop (unat (off (get_field u UF_PORT))) buf)"
    and "\<forall>c\<in>set ds. IS_NUM c"
  shows "parse_port buf u =
    (if dec_value 0 ds \<le> 0xFFFF then Inr (False, u\<lparr>url_port := of_nat (dec_value 0 ds)\<rparr>) else Inr (True, u))"
proof -
  have "(ucast (of_nat n :: u64) :: u16) = of_nat n" if "n \<le> 0xFFFF" for n
    by (simp add: of_nat_ucast16)
  then show ?thesis
    using assms(1) port_loop_decimal [OF assms(3), of 0] unfolding assms(2)
    by (simp add: parse_port_def field_end_def Let_def)
qed

theorem parse_port_value_witness:
  "parse_port ''h:8080'' (set_field UF_PORT \<lparr>off = 2, len = 4\<rparr> http_parser_url_init) =
    Inr (False, (set_field UF_PORT \<lparr>off = 2, len = 4\<rparr> http_parser_url_init)\<lparr>url_port := 8080\<rparr>)"
proof -
  let ?u = "set_field UF_PORT \<lparr>off = 2, len = 4\<rparr> http_parser_url_init"
  have d: "get_field ?u UF_PORT = \<lparr>off = 2, len = 4\<rparr>"
    by (simp add: get_set_field fields_ok_def http_parser_url_init_def)
  have "dec_value 0 ''8080'' = 8080" by code_simp
  then show ?thesis
    using parse_port_value [of ?u "''h:8080''" "''8080''"] d
    by (simp add: field_end_def IS_NUM_def byte_def)
qed

end
