(* ===== verification/Net_Address.thy ===== *)
theory Net_Address
  imports Prelude
begin

text \<open>
  IPv4 addresses: \<open>src/socket/address.cpp\<close> and \<open>src/socket/address.h\<close>.

  A \<open>sockaddr_in\<close> holds the port and the address in network byte order; the host is little
  endian, as the code's comment on the masks assumes.  \<open>inet_addr\<close> and \<open>inet_ntop\<close> are
  arguments.
\<close>

record address =
  sin_family :: int
  sin_port :: u16
  s_addr :: u32

definition AF_INET :: int where "AF_INET = 2"
definition INADDR_ANY :: u32 where "INADDR_ANY = 0"

section \<open>Byte order\<close>

definition htons :: "u16 \<Rightarrow> u16" where
  "htons w = push_bit 8 w OR drop_bit 8 w"

definition htonl :: "u32 \<Rightarrow> u32" where
  "htonl w = push_bit 24 w OR push_bit 8 (w AND 0xFF00) OR (drop_bit 8 w AND 0xFF00) OR drop_bit 24 w"

text \<open>The bit that byte swapping moves to position \<open>n\<close>.\<close>

definition swap_pos :: "nat \<Rightarrow> nat" where
  "swap_pos n = 8 * (3 - n div 8) + n mod 8"

lemma bit_word32: "bit (w :: u32) n \<Longrightarrow> n < 32"
  using bit_imp_le_length [of w n] by simp

lemma bit_htonl: "bit (htonl w) n \<longleftrightarrow> n < 32 \<and> bit w (swap_pos n)"
proof (cases "n < 32")
  case True
  have high: "\<not> bit w k" if "32 \<le> k" for k using bit_word32 [of w k] that by auto
  from True have "n \<in> set [0..<32]" by simp
  then show ?thesis
    by (simp add: upt_rec htonl_def swap_pos_def bit_simps)
      (elim disjE; simp add: bit_simps high; simp add: eval_nat_numeral)
qed (use bit_word32 in blast)

lemma swap_pos: "n < 32 \<Longrightarrow> swap_pos n < 32" "n < 32 \<Longrightarrow> swap_pos (swap_pos n) = n"
  by (simp_all add: swap_pos_def)

lemma htonl_invol [simp]: "htonl (htonl w) = w"
  by (rule bit_eqI) (use bit_word32 in \<open>auto simp: bit_htonl swap_pos\<close>)

lemma htonl_bitwise:
  "htonl (a OR b) = htonl a OR htonl b" "htonl (a AND b) = htonl a AND htonl b"
  by (rule bit_eqI; auto simp: bit_htonl bit_simps)+

lemma htons_invol [simp]: "htons (htons w) = w"
proof (rule bit_eqI)
  fix n
  have high: "\<not> bit w k" if "16 \<le> k" for k using bit_imp_le_length [of w k] that by auto
  show "bit (htons (htons w)) n \<longleftrightarrow> bit w n"
    using high [of n] by (cases "n < 16") (auto simp: htons_def bit_simps not_less)
qed

lemma unat_htons: "unat (htons w) = unat w mod 256 * 256 + unat w div 256"
proof -
  have low: "unat (push_bit 8 w) = unat w mod 256 * 256"
    using mod_mult_mult2 [of "unat w" 256 256] by (simp add: push_bit_eq_mult unat_word_ariths)
  have high: "unat (drop_bit 8 w) = unat w div 256"
    by (simp add: drop_bit_eq_div unat_div_distrib)
  have "push_bit 8 w AND drop_bit 8 w = 0"
  proof (rule bit_eqI)
    fix n
    show "bit (push_bit 8 w AND drop_bit 8 w) n \<longleftrightarrow> bit (0 :: u16) n"
      using bit_imp_le_length [of w "8 + n"] by (auto simp: bit_simps)
  qed
  then have "htons w = push_bit 8 w + drop_bit 8 w"
    by (simp add: htons_def disjunctive_add_eq_or)
  moreover have "unat w < 65536" using unsigned_less [of w] by simp
  ultimately show ?thesis
    by (simp add: unat_word_ariths low high)
qed

section \<open>Operations\<close>

text \<open>The port is unsigned: the test \<open>port >= 0\<close> always holds.\<close>

definition newAddress :: "(string \<Rightarrow> u32) \<Rightarrow> string \<Rightarrow> u16 \<Rightarrow> address" where
  "newAddress inet_addr ip port =
     (let a = \<lparr>sin_family = AF_INET, sin_port = htons port, s_addr = 0\<rparr>
      in if ip = ''0'' then a\<lparr>s_addr := htonl INADDR_ANY\<rparr> else a\<lparr>s_addr := inet_addr ip\<rparr>)"

text \<open>\<open>1 << (32 - prefix)\<close> and the subtraction are in \<open>int\<close>.\<close>

definition createSubNetMask :: "u32 \<Rightarrow> fault + u32" where
  "createSubNetMask prefix =
     (let k = unat (32 - prefix)
      in if 32 \<le> k then Inl Bad_Shift
         else let one_bit = sint (push_bit k 1 :: u32)
              in if in_int_range (one_bit - 1) then Inr (NOT (of_int (one_bit - 1))) else Inl Signed_Overflow)"

definition broadcastAddress :: "address \<Rightarrow> u32 \<Rightarrow> fault + address option" where
  "broadcastAddress a prefix =
     (if 32 < prefix then Inr None
      else bind_run (createSubNetMask prefix) (\<lambda>m. Inr (Some (a\<lparr>s_addr := s_addr a OR htonl (NOT m)\<rparr>))))"

definition networdAddress :: "address \<Rightarrow> u32 \<Rightarrow> fault + address option" where
  "networdAddress a prefix =
     (if 32 < prefix then Inr None
      else bind_run (createSubNetMask prefix) (\<lambda>m. Inr (Some (a\<lparr>s_addr := s_addr a AND htonl (NOT m)\<rparr>))))"

definition subnetAddress :: "address \<Rightarrow> u32 \<Rightarrow> fault + address option" where
  "subnetAddress a prefix =
     (if 32 < prefix then Inr None
      else bind_run (createSubNetMask prefix) (\<lambda>m. Inr (Some (a\<lparr>s_addr := htonl m\<rparr>))))"

definition getDottedDecimalIP :: "(u32 \<Rightarrow> string) \<Rightarrow> address \<Rightarrow> string" where
  "getDottedDecimalIP inet_ntop a = inet_ntop (s_addr a)"

definition getFamily :: "address \<Rightarrow> int" where "getFamily a = sin_family a"

definition getPort :: "address \<Rightarrow> u16" where "getPort a = htons (sin_port a)"

definition setPort :: "u16 \<Rightarrow> address \<Rightarrow> address" where
  "setPort port a = a\<lparr>sin_port := htons port\<rparr>"

section \<open>The address and the masks in host order\<close>

definition host_order :: "address \<Rightarrow> u32" where
  "host_order a = htonl (s_addr a)"

text \<open>The host part of a prefix: the low \<open>32 - p\<close> bits.\<close>

definition host_bits :: "nat \<Rightarrow> u32" where
  "host_bits p = mask (32 - p)"

lemma createSubNetMask_ok:
  assumes "2 \<le> prefix" and "prefix \<le> 32"
  shows "createSubNetMask prefix = Inr (NOT (host_bits (unat prefix)))"
proof -
  have p: "2 \<le> unat prefix" "unat prefix \<le> 32" using assms by (simp_all add: word_le_nat_alt)
  let ?k = "unat (32 - prefix)"
  have k: "?k = 32 - unat prefix" using assms(2) by (simp add: unat_sub)
  then have k30: "?k \<le> 30" using p by simp
  have "(2 :: int) ^ ?k \<le> 2 ^ 30" using k30 by (intro power_increasing) simp_all
  then have pow: "2 ^ ?k < (2 :: int) ^ 31" by simp
  have one: "sint (push_bit ?k 1 :: u32) = 2 ^ ?k"
  proof -
    have "push_bit ?k 1 = (word_of_int (2 ^ ?k) :: u32)" by (simp add: push_bit_eq_mult)
    moreover have "sint (word_of_int (2 ^ ?k) :: u32) = signed_take_bit 31 (2 ^ ?k)" by (simp only: signed_of_int) simp
    moreover have "signed_take_bit 31 (2 ^ ?k) = (2 ^ ?k :: int)"
      using pow by (intro signed_take_bit_int_eq_self) (auto intro: order_trans [of _ 0])
    ultimately show ?thesis by simp
  qed
  have "in_int_range (2 ^ ?k - 1)" using pow by (simp add: in_int_range_iff) (smt (verit) zero_le_power)
  moreover have "of_int (2 ^ ?k - 1) = (mask ?k :: u32)" by (simp add: mask_eq_exp_minus_1)
  ultimately show ?thesis using k30 one k by (simp add: createSubNetMask_def Let_def host_bits_def)
qed

text \<open>
  C33. For a prefix from 2 to 32, read in host order: the subnet mask is the prefix many high
  bits, the broadcast address is the address with all other bits set, and \<open>networdAddress\<close>
  clears the network part and keeps the host part of the address.
\<close>

theorem address_masks:
  assumes "2 \<le> prefix" and "prefix \<le> 32"
  shows "\<exists>b n s. broadcastAddress a prefix = Inr (Some b) \<and> networdAddress a prefix = Inr (Some n) \<and>
      subnetAddress a prefix = Inr (Some s) \<and>
      (\<forall>i<32. bit (host_order s) i = (32 - unat prefix \<le> i)) \<and>
      (\<forall>i<32. bit (host_order b) i = (bit (host_order a) i \<or> i < 32 - unat prefix)) \<and>
      (\<forall>i<32. bit (host_order n) i = (bit (host_order a) i \<and> i < 32 - unat prefix))"
  using assms createSubNetMask_ok [OF assms]
  by (auto simp: broadcastAddress_def networdAddress_def subnetAddress_def host_order_def htonl_bitwise
      host_bits_def bit_simps)

theorem address_masks_witness:
  "\<exists>b n s. broadcastAddress (newAddress (\<lambda>_. 0x0101A8C0) ''192.168.1.1'' 80) 24 = Inr (Some b) \<and>
     networdAddress (newAddress (\<lambda>_. 0x0101A8C0) ''192.168.1.1'' 80) 24 = Inr (Some n) \<and>
     subnetAddress (newAddress (\<lambda>_. 0x0101A8C0) ''192.168.1.1'' 80) 24 = Inr (Some s)"
  using address_masks [of 24 "newAddress (\<lambda>_. 0x0101A8C0) ''192.168.1.1'' 80"] by auto

text \<open>
  The prefixes 0 and 1 are accepted by the range check and run into undefined behaviour:
  a shift by the width of \<open>int\<close> and the overflow of the smallest \<open>int\<close>.
\<close>

theorem short_prefix_undefined:
  "broadcastAddress a 0 = Inl Bad_Shift \<and> broadcastAddress a 1 = Inl Signed_Overflow"
  by (simp add: broadcastAddress_def createSubNetMask_def in_int_range_iff)

text \<open>
  Ports.  What \<open>setPort\<close> or the constructor stores in network order, \<open>getPort\<close> gives back,
  for each of the 65536 ports; the stored number has its two bytes exchanged.
\<close>

theorem port_roundtrip:
  "getPort (setPort p a) = p \<and> getPort (newAddress f ip p) = p \<and>
   unat (sin_port (setPort p a)) = unat p mod 256 * 256 + unat p div 256"
  by (simp add: getPort_def setPort_def newAddress_def Let_def unat_htons)

end
