(* ===== verification/Log_Format.thy ===== *)
theory Log_Format
  imports Std_Lib
begin

text \<open>
  The log levels and \<open>LogFormatter\<close> of \<open>src/log/logger.h\<close> and \<open>src/log/logger.cpp\<close>: the
  splitting of a pattern into items and the text of an event.

  Patterns are indexed as in the code.  \<open>strftime\<close> applied to the local time is the argument
  \<open>ftime\<close>.
\<close>

section \<open>Levels\<close>

datatype log_level = DEBUG | INFO | WARNING | ERROR | FATAL

definition level_num :: "log_level \<Rightarrow> nat" where
  "level_num l = (case l of DEBUG \<Rightarrow> 0 | INFO \<Rightarrow> 1 | WARNING \<Rightarrow> 2 | ERROR \<Rightarrow> 3 | FATAL \<Rightarrow> 4)"

instantiation log_level :: linorder
begin

definition less_eq_log_level :: "log_level \<Rightarrow> log_level \<Rightarrow> bool" where
  "less_eq_log_level a b \<longleftrightarrow> level_num a \<le> level_num b"

definition less_log_level :: "log_level \<Rightarrow> log_level \<Rightarrow> bool" where
  "less_log_level a b \<longleftrightarrow> level_num a < level_num b"

instance
proof
  fix a b :: log_level
  show "a \<le> b \<Longrightarrow> b \<le> a \<Longrightarrow> a = b"
    by (cases a; cases b) (simp_all add: less_eq_log_level_def level_num_def)
qed (auto simp: less_eq_log_level_def less_log_level_def)

end

definition level_ToString :: "log_level \<Rightarrow> string" where
  "level_ToString l =
     (case l of DEBUG \<Rightarrow> ''DEBUG'' | INFO \<Rightarrow> ''INFO'' | WARNING \<Rightarrow> ''WARNING'' | ERROR \<Rightarrow> ''ERROR'' | FATAL \<Rightarrow> ''FATAL'')"

definition level_FromString :: "string \<Rightarrow> log_level" where
  "level_FromString str =
     (if str = ''debug'' then DEBUG else if str = ''info'' then INFO else if str = ''warn'' then WARNING
      else if str = ''error'' then ERROR else if str = ''fatal'' then FATAL
      else if str = ''DEBUG'' then DEBUG else if str = ''INFO'' then INFO else if str = ''WARN'' then WARNING
      else if str = ''ERROR'' then ERROR else if str = ''FATAL'' then FATAL
      else DEBUG)"

text \<open>
  Reading back the name of a level gives the level, except that \<open>WARNING\<close>, whose name is
  \<open>WARNING\<close> on output and \<open>WARN\<close> on input, is read back as \<open>DEBUG\<close>.
\<close>

theorem level_roundtrip: "level_FromString (level_ToString l) = (if l = WARNING then DEBUG else l)"
  by (cases l) (simp_all add: level_FromString_def level_ToString_def)

section \<open>Events and items\<close>

record log_event =
  evFileName :: string
  evContent :: string
  evLineNum :: int
  evTime :: int

datatype format_item =
    MessageFormatItem | LevelFormatItem | FileNameFormatItem | LineFormatItem | TimeFormatItem string
  | NewLineFormatItem | TabFormatItem | StringFormatItem string

definition newTimeFormatItem :: "string \<Rightarrow> format_item" where
  "newTimeFormatItem str = TimeFormatItem (if str = [] then ''%Y-%m-%d %H:%M:%S'' else str)"

definition item_format :: "(string \<Rightarrow> int \<Rightarrow> string) \<Rightarrow> log_level \<Rightarrow> log_event \<Rightarrow> format_item \<Rightarrow> string" where
  "item_format ftime level event it =
     (case it of
        MessageFormatItem \<Rightarrow> evContent event
      | LevelFormatItem \<Rightarrow> level_ToString level
      | FileNameFormatItem \<Rightarrow> evFileName event
      | LineFormatItem \<Rightarrow> int_to_dec (evLineNum event)
      | TimeFormatItem f \<Rightarrow> ftime f (evTime event)
      | NewLineFormatItem \<Rightarrow> [LF]
      | TabFormatItem \<Rightarrow> [CHR 0x09]
      | StringFormatItem s \<Rightarrow> s)"

section \<open>The pattern\<close>

definition isalpha :: "char \<Rightarrow> bool" where
  "isalpha c \<longleftrightarrow> (0x41 \<le> byte c \<and> byte c \<le> 0x5A) \<or> (0x61 \<le> byte c \<and> byte c \<le> 0x7A)"

definition substr :: "string \<Rightarrow> nat \<Rightarrow> nat \<Rightarrow> string" where
  "substr s pos n = take n (drop pos s)"

text \<open>The inner loop: the name and the format of the escape at \<open>i\<close>, and where it ends.\<close>

function escape_loop :: "string \<Rightarrow> nat \<Rightarrow> nat \<Rightarrow> nat \<Rightarrow> bool \<Rightarrow> string \<Rightarrow> string \<times> string \<times> nat" where
  "escape_loop pat i idx fmtBegin state str =
     (if length pat \<le> idx then (str, '''', idx)
      else if \<not> state \<and> \<not> isalpha (pat ! idx) \<and> pat ! idx \<noteq> CHR ''{''
      then (substr pat (i + 1) (idx - (i + 1)), '''', idx)
      else if \<not> state \<and> pat ! idx = CHR ''{''
      then escape_loop pat i (idx + 1) (idx + 1) True (substr pat (i + 1) (idx - (i + 1)))
      else if state \<and> pat ! idx = CHR ''}''
      then (str, substr pat fmtBegin (idx - fmtBegin), idx + 1)
      else let idx = idx + 1;
               str = (if idx = length pat \<and> str = [] then drop (i + 1) pat else str)
           in escape_loop pat i idx fmtBegin state str)"
  by pat_completeness auto
termination by (relation "measure (\<lambda>(pat, i, idx, b, st, str). length pat - idx)") auto

declare escape_loop.simps [simp del]

lemma escape_loop_end: "idx \<le> snd (snd (escape_loop pat i idx b st str))"
proof (induction pat i idx b st str rule: escape_loop.induct)
  case (1 pat i idx b st str)
  show ?case
    by (subst escape_loop.simps) (use "1.IH" in \<open>auto simp: Let_def intro: Suc_leD\<close>)
qed

lemma escape_loop_after: "i < snd (snd (escape_loop pat i (Suc i) b st str))"
  using escape_loop_end [of "Suc i" pat i b st str] by simp

text \<open>The entries of the vector: a literal text, or an escape with its format.\<close>

datatype pattern_part = Literal string | Escape string string

function split_pattern :: "string \<Rightarrow> nat \<Rightarrow> string \<Rightarrow> pattern_part list \<Rightarrow> pattern_part list" where
  "split_pattern pat i normal vec =
     (if length pat \<le> i then vec @ (if normal \<noteq> [] then [Literal normal] else [])
      else if pat ! i \<noteq> CHR ''%'' then split_pattern pat (i + 1) (normal @ [pat ! i]) vec
      else if i + 1 < length pat \<and> pat ! (i + 1) = CHR ''%''
      then split_pattern pat (i + 1) (normal @ [CHR ''%'']) vec
      else (case escape_loop pat i (i + 1) 0 False [] of (str, fmt, idx) \<Rightarrow>
              split_pattern pat idx [] (vec @ (if normal \<noteq> [] then [Literal normal] else []) @ [Escape str fmt])))"
  by pat_completeness auto
termination
  by (relation "measure (\<lambda>(pat, i, normal, vec). length pat - i)") 
    (auto dest!: arg_cong [where f = "\<lambda>x. snd (snd x)"] intro!: diff_less_mono2 escape_loop_after)

declare split_pattern.simps [simp del]

text \<open>An escape that is not in the table is dropped.\<close>

definition item_of_part :: "pattern_part \<Rightarrow> format_item option" where
  "item_of_part p =
     (case p of
        Literal s \<Rightarrow> Some (StringFormatItem s)
      | Escape str fmt \<Rightarrow>
          (if str = ''m'' then Some MessageFormatItem else if str = ''p'' then Some LevelFormatItem
           else if str = ''d'' then Some (newTimeFormatItem fmt) else if str = ''f'' then Some FileNameFormatItem
           else if str = ''l'' then Some LineFormatItem else if str = ''n'' then Some NewLineFormatItem
           else if str = ''T'' then Some TabFormatItem else None))"

record log_formatter =
  mPattern :: string
  mItem :: "format_item list"

definition formatter_init :: "log_formatter \<Rightarrow> log_formatter" where
  "formatter_init f = f\<lparr>mItem := mItem f @ List.map_filter item_of_part (split_pattern (mPattern f) 0 [] [])\<rparr>"

definition newLogFormatter :: "string \<Rightarrow> log_formatter" where
  "newLogFormatter pattern = formatter_init \<lparr>mPattern = pattern, mItem = []\<rparr>"

definition setPattern :: "string \<Rightarrow> log_formatter \<Rightarrow> log_formatter" where
  "setPattern pattern f = formatter_init (f\<lparr>mPattern := pattern, mItem := []\<rparr>)"

definition formatter_format :: "(string \<Rightarrow> int \<Rightarrow> string) \<Rightarrow> log_formatter \<Rightarrow> log_level \<Rightarrow> log_event \<Rightarrow> string" where
  "formatter_format ftime f level event = concat (map (item_format ftime level event) (mItem f))"

section \<open>The language of patterns\<close>

text \<open>
  The reference: a character that is not \<open>%\<close> stands for itself; \<open>%\<close> before another \<open>%\<close> stands
  for itself, and the second one starts again; otherwise \<open>%\<close>, the letters that follow it and a
  format in braces are an escape.  A brace that is not closed ends the pattern.
\<close>

function pattern_parts :: "string \<Rightarrow> pattern_part list" where
  "pattern_parts [] = []"
| "pattern_parts (c # cs) =
     (if c \<noteq> CHR ''%'' then Literal [c] # pattern_parts cs
      else if cs \<noteq> [] \<and> hd cs = CHR ''%'' then Literal ''%'' # pattern_parts cs
      else let name = takeWhile isalpha cs; rest = dropWhile isalpha cs
           in if rest = [] \<or> hd rest \<noteq> CHR ''{'' then Escape name '''' # pattern_parts rest
              else if CHR ''}'' \<in> set (tl rest)
              then Escape name (takeWhile (\<lambda>c. c \<noteq> CHR ''}'') (tl rest)) #
                   pattern_parts (tl (dropWhile (\<lambda>c. c \<noteq> CHR ''}'') (tl rest)))
              else [Escape name ''''])"
  by pat_completeness auto
termination
  by (relation "measure length")
    (auto simp: le_imp_less_Suc length_dropWhile_le intro!: le_less_trans [OF diff_le_self]
      le_less_trans [OF length_dropWhile_le])

declare pattern_parts.simps [simp del]

text \<open>What an event makes of a part of the pattern.\<close>

definition part_format :: "(string \<Rightarrow> int \<Rightarrow> string) \<Rightarrow> log_level \<Rightarrow> log_event \<Rightarrow> pattern_part \<Rightarrow> string" where
  "part_format ftime level event p =
     (case item_of_part p of None \<Rightarrow> '''' | Some it \<Rightarrow> item_format ftime level event it)"

text \<open>The inner loop after the opening brace.\<close>

lemma drop_Cons: "drop p xs = c # cs \<Longrightarrow> p < length xs \<and> xs ! p = c \<and> drop (Suc p) xs = cs"
  by (metis Cons_nth_drop_Suc drop_eq_Nil linorder_not_less list.discI list.inject)

lemma escape_closed:
  assumes "drop idx pat = w" and "CHR ''}'' \<in> set w" and "b \<le> idx"
  shows "escape_loop pat i idx b True str =
    (str, substr pat b (idx + length (takeWhile (\<lambda>c. c \<noteq> CHR ''}'') w) - b),
     Suc (idx + length (takeWhile (\<lambda>c. c \<noteq> CHR ''}'') w)))"
  using assms
proof (induction w arbitrary: idx)
  case (Cons c w)
  note d = drop_Cons [OF Cons.prems(1)]
  show ?case
  proof (cases "c = CHR ''}''")
    case True
    then show ?thesis using d by (subst escape_loop.simps) simp
  next
    case False
    then have "w \<noteq> []" using Cons.prems(2) by auto
    then have "Suc idx \<noteq> length pat" using d by auto
    then show ?thesis using d False Cons.IH [of "Suc idx"] Cons.prems by (subst escape_loop.simps) simp
  qed
qed simp

lemma escape_open:
  assumes "drop idx pat = w" and "CHR ''}'' \<notin> set w" and "idx \<le> length pat"
  shows "\<exists>str'. escape_loop pat i idx b True str = (str', '''', length pat) \<and>
    (str' = str \<or> str = [] \<and> str' = drop (Suc i) pat)"
  using assms
proof (induction w arbitrary: idx str)
  case Nil
  then show ?case by (subst escape_loop.simps) simp
next
  case (Cons c w)
  note d = drop_Cons [OF Cons.prems(1)]
  let ?s = "if Suc idx = length pat \<and> str = [] then drop (Suc i) pat else str"
  have "escape_loop pat i idx b True str = escape_loop pat i (Suc idx) b True ?s"
    using d Cons.prems(2) by (subst escape_loop.simps) (auto simp: Let_def)
  moreover have "escape_loop pat i (length pat) b True ?s = (?s, '''', length pat)"
    by (subst escape_loop.simps) simp
  ultimately show ?case using Cons.IH [of "Suc idx" ?s] d Cons.prems(2) by (cases "Suc idx = length pat") auto
qed

text \<open>The inner loop while it reads the name.\<close>

lemma escape_name:
  assumes "drop idx pat = w" and "i < idx" and "idx \<le> length pat" and "drop (Suc i) (take idx pat) = name"
    and "idx = length pat \<or> str = []"
  shows "escape_loop pat i idx b False str =
    (let all = name @ takeWhile isalpha w; j = idx + length (takeWhile isalpha w); rest = dropWhile isalpha w
     in if rest = [] then (if w = [] then str else all, '''', length pat)
        else if hd rest \<noteq> CHR ''{'' then (all, '''', j)
        else escape_loop pat i (Suc j) (Suc j) True all)"
  using assms
proof (induction w arbitrary: idx name str)
  case Nil
  then show ?case by (subst escape_loop.simps) simp
next
  case (Cons c w)
  note d = drop_Cons [OF Cons.prems(1)]
  have str: "str = []" using Cons.prems(5) d by auto
  have name: "substr pat (Suc i) (idx - Suc i) = name"
    using Cons.prems(2-4) by (simp add: substr_def drop_take)
  show ?case
  proof (cases "isalpha c")
    case False
    then show ?thesis using d name by (subst escape_loop.simps) (simp add: Let_def)
  next
    case True
    have brace: "c \<noteq> CHR ''{''" using True by (auto simp: isalpha_def byte_def)
    let ?s = "if Suc idx = length pat then drop (Suc i) pat else []"
    have "drop (Suc i) (take (Suc idx) pat) = name @ [c]"
      using Cons.prems(2-4) d by (auto simp: take_Suc_conv_app_nth)
    moreover have "w = [] \<longleftrightarrow> Suc idx = length pat" using d by auto
    moreover have "escape_loop pat i idx b False str = escape_loop pat i (Suc idx) b False ?s"
      using d True brace str by (subst escape_loop.simps) (simp add: Let_def)
    ultimately show ?thesis
      using Cons.IH [of "Suc idx" "name @ [c]" ?s] d True Cons.prems(2) by (auto simp: Let_def)
  qed
qed

lemma drop_takeWhile_len: "drop (p + length (takeWhile P w)) xs = dropWhile P w" if "drop p xs = w"
  using that by (metis add.commute drop_drop dropWhile_eq_drop)

lemma unknown_escape:
  "str = [] \<or> hd str = CHR ''{'' \<Longrightarrow> part_format ftime level event (Escape str fmt) = ''''"
  by (auto simp: part_format_def item_of_part_def)

lemma literal_format [simp]: "part_format ftime level event (Literal s) = s"
  by (simp add: part_format_def item_of_part_def item_format_def)

lemma drop_dropWhile: "drop p xs = w \<Longrightarrow> drop (p + length (takeWhile P w)) xs = dropWhile P w"
  by (rule drop_takeWhile_len)

text \<open>One escape: what the loop reads is the first part the reference finds.\<close>

lemma escape_part:
  assumes at: "drop i pat = CHR ''%'' # cs" and ne: "cs = [] \<or> hd cs \<noteq> CHR ''%''"
  shows "\<exists>str fmt idx. escape_loop pat i (Suc i) 0 False [] = (str, fmt, idx) \<and> idx \<le> length pat \<and>
    concat (map (part_format ftime level event) (pattern_parts (CHR ''%'' # cs))) =
      part_format ftime level event (Escape str fmt) @
      concat (map (part_format ftime level event) (pattern_parts (drop idx pat)))"
proof -
  note d = drop_Cons [OF at]
  let ?name = "takeWhile isalpha cs" and ?rest = "dropWhile isalpha cs" and ?stop = "\<lambda>c. c \<noteq> CHR ''}''"
  let ?j = "Suc i + length ?name"
  have esc: "escape_loop pat i (Suc i) 0 False [] =
      (if ?rest = [] then (?name, '''', length pat)
       else if hd ?rest \<noteq> CHR ''{'' then (?name, '''', ?j)
       else escape_loop pat i (Suc ?j) (Suc ?j) True ?name)"
    using escape_name [of "Suc i" pat cs i "[]" "[]" 0] d by (auto simp: Let_def)
  have rest: "drop ?j pat = ?rest" using drop_dropWhile d by blast
  consider "?rest = []" | "?rest \<noteq> []" "hd ?rest \<noteq> CHR ''{''"
    | r where "?rest = CHR ''{'' # r" "CHR ''}'' \<in> set r" | r where "?rest = CHR ''{'' # r" "CHR ''}'' \<notin> set r"
    by (cases ?rest) auto
  then show ?thesis
  proof cases
    case 1
    then show ?thesis using esc ne by (auto simp: pattern_parts.simps(2) simp del: dropWhile_eq_Nil_conv)
  next
    case 2
    then have "?j \<le> length pat" using rest by (metis drop_eq_Nil nat_le_linear)
    then show ?thesis using 2 esc ne rest by (auto simp: pattern_parts.simps(2))
  next
    case (3 r)
    let ?idx = "Suc (Suc ?j + length (takeWhile ?stop r))"
    have r: "drop (Suc ?j) pat = r" using drop_Cons [of ?j pat] rest 3(1) by simp
    have e: "escape_loop pat i (Suc i) 0 False [] = (?name, takeWhile ?stop r, ?idx)"
      using esc 3 escape_closed [OF r 3(2), of "Suc ?j" i ?name] r by (simp add: substr_def takeWhile_eq_take [symmetric])
    have "dropWhile ?stop r \<noteq> []" using 3(2) by (auto simp: dropWhile_eq_Nil_conv)
    then obtain x xs where x: "dropWhile ?stop r = x # xs" by (cases "dropWhile ?stop r") blast+
    then have "drop ?idx pat = tl (dropWhile ?stop r)" "?idx \<le> length pat"
      using drop_Cons [OF drop_dropWhile [OF r, of ?stop, unfolded x]] by simp_all
    with e 3 ne show ?thesis by (auto simp: pattern_parts.simps(2))
  next
    case (4 r)
    have r: "drop (Suc ?j) pat = r" "Suc ?j \<le> length pat" using drop_Cons [of ?j pat] rest 4(1) by auto
    obtain str where e: "escape_loop pat i (Suc i) 0 False [] = (str, '''', length pat)"
        and s: "str = ?name \<or> ?name = [] \<and> str = cs"
      using esc 4 escape_open [OF r(1) 4(2) r(2), of i "Suc ?j" ?name] d by auto
    have "part_format ftime level event (Escape str '''') = part_format ftime level event (Escape ?name '''')"
      using s 4(1) unknown_escape by (cases cs) (auto split: if_splits)
    with e 4 ne show ?thesis by (auto simp: pattern_parts.simps)
  qed
qed

lemma split_pattern_parts:
  "i \<le> length pat \<Longrightarrow>
   concat (map (part_format ftime level event) (split_pattern pat i normal vec)) =
     concat (map (part_format ftime level event) vec) @ normal @
     concat (map (part_format ftime level event) (pattern_parts (drop i pat)))"
proof (induction pat i normal vec rule: split_pattern.induct)
  case (1 pat i normal vec)
  show ?case
  proof (cases "length pat \<le> i")
    case True
    then show ?thesis by (subst split_pattern.simps) (simp add: pattern_parts.simps)
  next
    case False
    let ?cs = "drop (Suc i) pat"
    have at: "drop i pat = pat ! i # ?cs" using False by (simp add: Cons_nth_drop_Suc)
    have ahead: "?cs \<noteq> [] \<and> hd ?cs = CHR ''%'' \<longleftrightarrow> Suc i < length pat \<and> pat ! Suc i = CHR ''%''"
      by (auto simp: hd_drop_conv_nth)
    consider "pat ! i \<noteq> CHR ''%''" | "pat ! i = CHR ''%''" "?cs \<noteq> [] \<and> hd ?cs = CHR ''%''"
      | "pat ! i = CHR ''%''" "\<not> (?cs \<noteq> [] \<and> hd ?cs = CHR ''%'')" by blast
    then show ?thesis
    proof cases
      case c: 3
      obtain str fmt idx where e: "escape_loop pat i (Suc i) 0 False [] = (str, fmt, idx)" "idx \<le> length pat"
        "concat (map (part_format ftime level event) (pattern_parts (drop i pat))) =
           part_format ftime level event (Escape str fmt) @
           concat (map (part_format ftime level event) (pattern_parts (drop idx pat)))"
        using escape_part [of i pat ?cs ftime level event] at c by auto
      then show ?thesis
        using False c ahead "1.IH"(3) [where x = str and y = "(fmt, idx)" and xa = fmt and ya = idx]
        by (subst split_pattern.simps) auto
    qed (use False at ahead "1.IH"(1,2) in \<open>subst split_pattern.simps, simp add: pattern_parts.simps(2)\<close>)+
  qed
qed

text \<open>
  C22. \<open>LogFormatter\<close> implements the language of patterns: the text of an event is the
  concatenation of what the parts of the pattern stand for, for every pattern, also those with
  unknown escapes and unclosed braces.
\<close>

theorem format_follows_pattern:
  "formatter_format ftime (setPattern pattern f) level event =
     concat (map (part_format ftime level event) (pattern_parts pattern))"
proof -
  have "concat (map (item_format ftime level event) (List.map_filter item_of_part ps)) =
      concat (map (part_format ftime level event) ps)" for ps
    by (induction ps) (simp_all add: List.map_filter_simps part_format_def split: option.split)
  then show ?thesis
    using split_pattern_parts [of 0 pattern ftime level event "[]" "[]"]
    by (simp add: formatter_format_def setPattern_def formatter_init_def)
qed

end
