(* ===== verification/Logger.thy ===== *)
theory Logger
  imports Log_Format
begin

text \<open>
  \<open>Logger\<close> and its appenders (\<open>src/log/logger.h\<close>, \<open>src/log/logger.cpp\<close>).

  Each appender writes to a sink, the standard output or a file; \<open>sinks\<close> holds the text of
  every sink.  \<open>mAppends\<close> lists the entries of the \<open>unordered_map\<close> in the order it iterates.
  The mutexes make every operation one step.
\<close>

section \<open>Appenders\<close>

datatype sink = Stdout | File string

record appender =
  appFormatter :: log_formatter
  appLevel :: log_level
  appSink :: sink

definition default_pattern :: string where
  "default_pattern = ''%p    %d{%Y-%m-%d %H:%M:%S}     %f:%l    [%m]%n''"

definition newStdoutAppender :: "log_level \<Rightarrow> appender" where
  "newStdoutAppender level =
     \<lparr>appFormatter = newLogFormatter default_pattern, appLevel = level, appSink = Stdout\<rparr>"

definition newFileAppender :: "string \<Rightarrow> log_level \<Rightarrow> appender" where
  "newFileAppender name level =
     \<lparr>appFormatter = newLogFormatter default_pattern, appLevel = level,
      appSink = File (if name = [] then ''log.txt'' else name)\<rparr>"

definition app_setLevel :: "log_level \<Rightarrow> appender \<Rightarrow> appender" where
  "app_setLevel level a = a\<lparr>appLevel := level\<rparr>"

definition app_setFormatter :: "string \<Rightarrow> appender \<Rightarrow> appender" where
  "app_setFormatter format a = a\<lparr>appFormatter := setPattern format (appFormatter a)\<rparr>"

type_synonym sinks = "sink \<Rightarrow> string"

definition app_log :: "(string \<Rightarrow> int \<Rightarrow> string) \<Rightarrow> log_level \<Rightarrow> log_event \<Rightarrow> appender \<Rightarrow> sinks \<Rightarrow> sinks" where
  "app_log ftime level event a w =
     (if appLevel a \<le> level
      then w(appSink a := w (appSink a) @ formatter_format ftime (appFormatter a) level event) else w)"

section \<open>The logger\<close>

record logger =
  mAppends :: "(string \<times> appender) list"
  mLevel :: log_level

definition newLogger :: logger where
  "newLogger = \<lparr>mAppends = [], mLevel = DEBUG\<rparr>"

definition setLevel :: "log_level \<Rightarrow> logger \<Rightarrow> logger" where
  "setLevel level l = l\<lparr>mLevel := level\<rparr>"

definition logger_log :: "(string \<Rightarrow> int \<Rightarrow> string) \<Rightarrow> log_level \<Rightarrow> log_event \<Rightarrow> logger \<Rightarrow> sinks \<Rightarrow> logger \<times> sinks" where
  "logger_log ftime level event l w =
     (let l = (if mAppends l = [] then l\<lparr>mAppends := [(''stdout'', newStdoutAppender DEBUG)]\<rparr> else l)
      in (l, fold (\<lambda>(name, a). app_log ftime level event a) (mAppends l) w))"

definition addAppender :: "string \<Rightarrow> log_level \<Rightarrow> logger \<Rightarrow> logger" where
  "addAppender filename level l =
     (if map_of (mAppends l) filename = None
      then l\<lparr>mAppends := mAppends l @
               [(filename, if filename = ''stdout'' then newStdoutAppender level else newFileAppender filename level)]\<rparr>
      else l)"

definition delAppender :: "string \<Rightarrow> logger \<Rightarrow> logger" where
  "delAppender filename l = l\<lparr>mAppends := filter (\<lambda>(name, a). name \<noteq> filename) (mAppends l)\<rparr>"

definition on_appender :: "string \<Rightarrow> (appender \<Rightarrow> appender) \<Rightarrow> logger \<Rightarrow> logger" where
  "on_appender filename f l =
     l\<lparr>mAppends := map (\<lambda>(name, a). (name, if name = filename then f a else a)) (mAppends l)\<rparr>"

definition setAppenderLevel :: "string \<Rightarrow> log_level \<Rightarrow> logger \<Rightarrow> logger" where
  "setAppenderLevel filename level l =
     (if map_of (mAppends l) filename = None then l else on_appender filename (app_setLevel level) l)"

definition setAppenderFormatter :: "string \<Rightarrow> string \<Rightarrow> logger \<Rightarrow> logger" where
  "setAppenderFormatter filename format l =
     (if map_of (mAppends l) filename = None then l else on_appender filename (app_setFormatter format) l)"

text \<open>The macro \<open>LOG\<close>: the wrapper's destructor hands the event to the logger.\<close>

definition LOG :: "(string \<Rightarrow> int \<Rightarrow> string) \<Rightarrow> log_level \<Rightarrow> log_event \<Rightarrow> logger \<Rightarrow> sinks \<Rightarrow> logger \<times> sinks" where
  "LOG ftime level event l w = (if mLevel l \<le> level then logger_log ftime level event l w else (l, w))"

section \<open>The appenders as a map\<close>

datatype logger_op =
    Add_Appender string log_level | Del_Appender string | Set_Appender_Level string log_level
  | Set_Appender_Formatter string string | Set_Level log_level

fun logger_step :: "logger_op \<Rightarrow> logger \<Rightarrow> logger" where
  "logger_step (Add_Appender n lv) l = addAppender n lv l"
| "logger_step (Del_Appender n) l = delAppender n l"
| "logger_step (Set_Appender_Level n lv) l = setAppenderLevel n lv l"
| "logger_step (Set_Appender_Formatter n f) l = setAppenderFormatter n f l"
| "logger_step (Set_Level lv) l = setLevel lv l"

text \<open>Names are unique, and an appender writes to the sink its name says.\<close>

definition sink_of :: "string \<Rightarrow> sink" where
  "sink_of name = (if name = ''stdout'' then Stdout else File (if name = [] then ''log.txt'' else name))"

definition logger_ok :: "logger \<Rightarrow> bool" where
  "logger_ok l \<longleftrightarrow> distinct (map fst (mAppends l)) \<and> (\<forall>(n, a)\<in>set (mAppends l). appSink a = sink_of n)"

lemma logger_step_ok: "logger_ok l \<Longrightarrow> logger_ok (logger_step x l)"
proof (cases x)
  case (Add_Appender n lv)
  assume "logger_ok l"
  then show ?thesis using Add_Appender
    by (auto simp: logger_ok_def addAppender_def map_of_eq_None_iff newStdoutAppender_def newFileAppender_def sink_of_def)
next
  case (Del_Appender n)
  assume "logger_ok l"
  then show ?thesis using Del_Appender
    by (auto simp: logger_ok_def delAppender_def distinct_map inj_on_def)
qed (auto simp: logger_ok_def setAppenderLevel_def setAppenderFormatter_def on_appender_def app_setLevel_def
      app_setFormatter_def setLevel_def comp_def case_prod_beta)

lemma sink_of_inj: "m \<noteq> [] \<Longrightarrow> n \<noteq> [] \<Longrightarrow> sink_of m = sink_of n \<longleftrightarrow> m = n"
  by (auto simp: sink_of_def)

lemma app_log_sink:
  "app_log ftime level event a w s =
     w s @ (if s = appSink a \<and> appLevel a \<le> level then formatter_format ftime (appFormatter a) level event else '''')"
  by (simp add: app_log_def)

lemma fold_app_log:
  assumes "distinct (map fst as)" and "\<forall>(n, a)\<in>set as. appSink a = sink_of n \<and> n \<noteq> []" and "name \<noteq> []"
  shows "fold (\<lambda>(name, a). app_log ftime level event a) as w (sink_of name) = w (sink_of name) @
    (case map_of as name of None \<Rightarrow> ''''
     | Some a \<Rightarrow> if appLevel a \<le> level then formatter_format ftime (appFormatter a) level event else '''')"
  using assms
proof (induction as arbitrary: w)
  case (Cons e as)
  obtain n a where e: "e = (n, a)" by (cases e)
  have "sink_of name = appSink a \<longleftrightarrow> name = n" using Cons.prems e sink_of_inj [of name n] by auto
  moreover have "map_of as n = None" using Cons.prems(1) e by (simp add: map_of_eq_None_iff)
  ultimately show ?case using Cons e by (auto simp: app_log_sink split: option.splits)
qed simp

lemma logger_run_ok: "logger_ok (fold logger_step ops newLogger)"
proof -
  have "logger_ok l \<Longrightarrow> logger_ok (fold logger_step ops l)" for l
    by (induction ops arbitrary: l) (simp_all add: logger_step_ok)
  moreover have "logger_ok newLogger" by (simp add: logger_ok_def newLogger_def)
  ultimately show ?thesis by blast
qed

text \<open>
  C32. After any configuration of a new logger, an event below the level of the logger changes
  nothing; any other event is written exactly once to every appender whose level it reaches,
  in that appender's format, and to no other.  (The names \<open>log.txt\<close> and the empty name would
  share a file.)
\<close>

theorem log_delivery:
  assumes "l = fold logger_step ops newLogger" and "mAppends l \<noteq> []" and "map_of (mAppends l) [] = None"
  shows "if mLevel l \<le> level
    then \<exists>w'. LOG ftime level event l w = (l, w') \<and>
       (\<forall>name. name \<noteq> [] \<longrightarrow> w' (sink_of name) = w (sink_of name) @
          (case map_of (mAppends l) name of
             None \<Rightarrow> ''''
           | Some a \<Rightarrow> if appLevel a \<le> level then formatter_format ftime (appFormatter a) level event else ''''))
    else LOG ftime level event l w = (l, w)"
proof -
  have ok: "logger_ok l" using assms(1) logger_run_ok by simp
  have "n \<noteq> []" if "(n, a) \<in> set (mAppends l)" for n a
    using assms(3) that by (force simp: map_of_eq_None_iff)
  then have "\<forall>(n, a)\<in>set (mAppends l). appSink a = sink_of n \<and> n \<noteq> []" "distinct (map fst (mAppends l))"
    using ok by (auto simp: logger_ok_def)
  then show ?thesis using assms(2) fold_app_log by (auto simp: LOG_def logger_log_def)
qed

theorem log_delivery_witness:
  "\<exists>w'. LOG (\<lambda>f t. '''') ERROR \<lparr>evFileName = ''f'', evContent = ''boom'', evLineNum = 7, evTime = 0\<rparr>
      (addAppender ''a.log'' WARNING newLogger) (\<lambda>s. '''') = (addAppender ''a.log'' WARNING newLogger, w') \<and>
    w' (File ''a.log'') = formatter_format (\<lambda>f t. '''') (newLogFormatter default_pattern) ERROR
      \<lparr>evFileName = ''f'', evContent = ''boom'', evLineNum = 7, evTime = 0\<rparr>"
proof -
  have l: "addAppender ''a.log'' WARNING newLogger = fold logger_step [Add_Appender ''a.log'' WARNING] newLogger" by simp
  have m: "mAppends (addAppender ''a.log'' WARNING newLogger) = [(''a.log'', newFileAppender ''a.log'' WARNING)]"
    "mLevel (addAppender ''a.log'' WARNING newLogger) = DEBUG"
    by (simp_all add: addAppender_def newLogger_def)
  have lv: "DEBUG \<le> ERROR" "WARNING \<le> ERROR" by (simp_all add: less_eq_log_level_def level_num_def)
  have s: "File ''a.log'' = sink_of ''a.log''" by (simp add: sink_of_def)
  obtain w' where w: "LOG (\<lambda>f t. '''') ERROR \<lparr>evFileName = ''f'', evContent = ''boom'', evLineNum = 7, evTime = 0\<rparr>
        (addAppender ''a.log'' WARNING newLogger) (\<lambda>s. '''') = (addAppender ''a.log'' WARNING newLogger, w')"
      "\<forall>name. name \<noteq> [] \<longrightarrow> w' (sink_of name) =
         (case map_of (mAppends (addAppender ''a.log'' WARNING newLogger)) name of
             None \<Rightarrow> ''''
           | Some a \<Rightarrow> if appLevel a \<le> ERROR then formatter_format (\<lambda>f t. '''') (appFormatter a) ERROR
               \<lparr>evFileName = ''f'', evContent = ''boom'', evLineNum = 7, evTime = 0\<rparr> else '''')"
    using log_delivery [OF l, of ERROR "\<lambda>f t. ''''" "\<lparr>evFileName = ''f'', evContent = ''boom'', evLineNum = 7, evTime = 0\<rparr>" "\<lambda>s. ''''"]
    by (auto simp: m lv)
  from spec [OF w(2), of "''a.log''"] show ?thesis
    unfolding s using w(1) by (auto simp: m lv newFileAppender_def)
qed

end
