(* ===== verification/Fiber_Sched.thy ===== *)
theory Fiber_Sched
  imports Prelude "HOL-Library.Sublist" "HOL-Library.Multiset"
begin

text \<open>
  Coroutines and their scheduler: \<open>src/fiber/fiber.cpp\<close>, \<open>src/fiber/fiber.h\<close>,
  \<open>src/scheduler/scheduler.cpp\<close> and \<open>src/scheduler/scheduler.h\<close>.

  A fiber is a number with a state; saving and restoring machine contexts is left to
  \<open>swapcontext\<close>.  The scheduler's worker loop is a step relation over the queue, the fiber
  states and the place of every thread; a step is what happens under the lock, one assignment
  to a fiber's state, or one read of a shared variable.  A thread that has marked its fiber \<open>HOLD\<close> but has not yet
  switched away from its stack is at \<open>Leaving\<close>.  \<open>stopping\<close> reads its four variables without the
  lock, so each read is a step of its own.  Every step has an event as its label, and a run is a
  list of events.
\<close>

section \<open>Fibers\<close>

datatype fiber_state = HOLD | EXEC | FTERM

record fibers =
  m_state :: "nat \<Rightarrow> fiber_state"
  s_fiber_id :: nat
  s_fiber_count :: nat

text \<open>\<open>FTERM\<close> is the state \<open>TERM\<close>.  The constructor of a user fiber, and that of a thread's first fiber.\<close>

definition newFiber :: "fibers \<Rightarrow> nat \<times> fibers" where
  "newFiber fs =
     (let i = s_fiber_id fs
      in (i, fs\<lparr>s_fiber_id := i + 1, s_fiber_count := s_fiber_count fs + 1, m_state := (m_state fs)(i := HOLD)\<rparr>))"

definition newThreadFiber :: "fibers \<Rightarrow> nat \<times> fibers" where
  "newThreadFiber fs =
     (let i = s_fiber_id fs
      in (i, fs\<lparr>s_fiber_id := i + 1, s_fiber_count := s_fiber_count fs + 1, m_state := (m_state fs)(i := EXEC)\<rparr>))"

definition fiber_reset :: "nat \<Rightarrow> fibers \<Rightarrow> fibers" where
  "fiber_reset f fs = fs\<lparr>m_state := (m_state fs)(f := HOLD)\<rparr>"

definition fiber_resume :: "nat \<Rightarrow> fibers \<Rightarrow> fibers" where
  "fiber_resume f fs = fs\<lparr>m_state := (m_state fs)(f := EXEC)\<rparr>"

definition fiber_yield :: "nat \<Rightarrow> fibers \<Rightarrow> fibers" where
  "fiber_yield f fs = (if m_state fs f \<noteq> FTERM then fs\<lparr>m_state := (m_state fs)(f := HOLD)\<rparr> else fs)"

text \<open>The end of \<open>MainFunc\<close>, after the callback has returned.\<close>

definition fiber_finish :: "nat \<Rightarrow> fibers \<Rightarrow> fibers" where
  "fiber_finish f fs = fiber_yield f (fs\<lparr>m_state := (m_state fs)(f := FTERM)\<rparr>)"

section \<open>The queue\<close>

datatype task_body = Task_Fiber nat | Task_Func nat | Task_None

record task =
  body :: task_body
  threadNum :: int

text \<open>The variables that \<open>stopping\<close> reads, and where a thread is: \<open>Asking rs\<close> has still to read \<open>rs\<close>.\<close>

datatype stop_read = R_Stopping | R_Tasks | R_Active | R_Timers

datatype thread_place = Looking | Picked task_body | On_Stack nat | Leaving nat | Idle | Asking "stop_read list" | Exited

record scheduler =
  mTasks :: "task list"
  mThreads :: nat
  mActiveCnt :: int
  mTimerCnt :: int
  mStopping :: bool
  fbs :: fibers
  threads :: "thread_place list"

definition newScheduler :: "int \<Rightarrow> nat" where
  "newScheduler threadCnt = (if threadCnt < 1 then 1 else nat threadCnt)"

text \<open>After \<open>start\<close>: \<open>n\<close> threads look for work, and one more when the main thread joins them.\<close>

definition started :: "int \<Rightarrow> nat \<Rightarrow> scheduler" where
  "started threadCnt extra =
     \<lparr>mTasks = [], mThreads = newScheduler threadCnt, mActiveCnt = 0, mTimerCnt = 0, mStopping = False,
      fbs = \<lparr>m_state = (\<lambda>_. HOLD), s_fiber_id = 0, s_fiber_count = 0\<rparr>,
      threads = replicate (newScheduler threadCnt + extra) Looking\<rparr>"

definition addTaskNoLock :: "task_body \<Rightarrow> int \<Rightarrow> scheduler \<Rightarrow> bool \<times> scheduler" where
  "addTaskNoLock t num s =
     (let isNull = (mTasks s = []);
          num = (if int (mThreads s) < num then -1 else num)
      in (isNull, if t \<noteq> Task_None then s\<lparr>mTasks := mTasks s @ [\<lparr>body = t, threadNum = num\<rparr>]\<rparr> else s))"

text \<open>The loop over the queue in thread number \<open>me\<close>: the trickle flag, the task, the rest.\<close>

fun pick_task :: "nat \<Rightarrow> nat \<Rightarrow> (nat \<Rightarrow> fiber_state) \<Rightarrow> task list \<Rightarrow> fault + bool \<times> task option \<times> task list" where
  "pick_task me n st [] = Inr (False, None, [])"
| "pick_task me n st (k # ks) =
     (if threadNum k \<noteq> -1 \<and> (threadNum k < 0 \<or> int n \<le> threadNum k) then Inl Out_Of_Range
      else if threadNum k \<noteq> -1 \<and> nat (threadNum k) \<noteq> me
      then bind_run (pick_task me n st ks) (\<lambda>(b, r, ks'). Inr (True, r, k # ks'))
      else if (\<exists>f. body k = Task_Fiber f \<and> st f = EXEC)
      then bind_run (pick_task me n st ks) (\<lambda>(b, r, ks'). Inr (b, r, k # ks'))
      else Inr (False, Some k, ks))"

text \<open>
  \<open>Scheduler::stopping\<close> evaluates its conjunction from the left and stops at the first read that
  fails; \<open>IOManager::stopping\<close> reads the number of timers before it calls \<open>Scheduler::stopping\<close>.
\<close>

fun stop_read_holds :: "stop_read \<Rightarrow> scheduler \<Rightarrow> bool" where
  "stop_read_holds R_Stopping s = mStopping s"
| "stop_read_holds R_Tasks s = (mTasks s = [])"
| "stop_read_holds R_Active s = (mActiveCnt s = 0)"
| "stop_read_holds R_Timers s = (mTimerCnt s = 0)"

definition sched_stopping :: "stop_read list" where
  "sched_stopping = [R_Stopping, R_Tasks, R_Active, R_Timers]"

definition io_sched_stopping :: "stop_read list" where
  "io_sched_stopping = R_Timers # sched_stopping"

section \<open>The worker threads\<close>

datatype sched_event = Adds task_body int | Takes nat task | Finds_None nat | Runs nat nat | Yields nat
  | Finishes nat | Left nat | Idled nat "stop_read list" | Reads nat stop_read | Goes_On nat | Stops | Timers int

abbreviation at_thread :: "nat \<Rightarrow> thread_place \<Rightarrow> scheduler \<Rightarrow> scheduler" where
  "at_thread t pl s \<equiv> s\<lparr>threads := (threads s)[t := pl]\<rparr>"

definition is_at :: "nat \<Rightarrow> thread_place \<Rightarrow> scheduler \<Rightarrow> bool" where
  "is_at t pl s \<longleftrightarrow> t < length (threads s) \<and> threads s ! t = pl"

inductive sched_step :: "scheduler \<Rightarrow> sched_event \<Rightarrow> scheduler \<Rightarrow> bool" where
  add_task: "addTaskNoLock b num s = (e, s') \<Longrightarrow> sched_step s (Adds b num) s'"
| pick: "is_at t Looking s \<Longrightarrow> pick_task t (mThreads s) (m_state (fbs s)) (mTasks s) = Inr (tr, Some k, ks) \<Longrightarrow>
     sched_step s (Takes t k) (at_thread t (Picked (body k)) (s\<lparr>mTasks := ks, mActiveCnt := mActiveCnt s + 1\<rparr>))"
| pick_none: "is_at t Looking s \<Longrightarrow> pick_task t (mThreads s) (m_state (fbs s)) (mTasks s) = Inr (tr, None, ks) \<Longrightarrow>
     sched_step s (Finds_None t) (at_thread t Idle s)"
| run_fiber: "is_at t (Picked (Task_Fiber f)) s \<Longrightarrow>
     sched_step s (Runs t f) (at_thread t (On_Stack f) (s\<lparr>fbs := fiber_resume f (fbs s)\<rparr>))"
| run_func: "is_at t (Picked (Task_Func g)) s \<Longrightarrow> newFiber (fbs s) = (f, fs) \<Longrightarrow>
     sched_step s (Runs t f) (at_thread t (On_Stack f) (s\<lparr>fbs := fiber_resume f fs\<rparr>))"
| yields: "is_at t (On_Stack f) s \<Longrightarrow>
     sched_step s (Yields t) (at_thread t (Leaving f) (s\<lparr>fbs := fiber_yield f (fbs s)\<rparr>))"
| finishes: "is_at t (On_Stack f) s \<Longrightarrow>
     sched_step s (Finishes t) (at_thread t (Leaving f) (s\<lparr>fbs := fiber_finish f (fbs s)\<rparr>))"
| left: "is_at t (Leaving f) s \<Longrightarrow>
     sched_step s (Left t) (at_thread t Looking (s\<lparr>mActiveCnt := mActiveCnt s - 1\<rparr>))"
| idled: "is_at t Idle s \<Longrightarrow> rs = sched_stopping \<or> rs = io_sched_stopping \<Longrightarrow>
     sched_step s (Idled t rs) (at_thread t (Asking rs) s)"
| read_holds: "is_at t (Asking (r # rs)) s \<Longrightarrow> stop_read_holds r s \<Longrightarrow>
     sched_step s (Reads t r) (at_thread t (if rs = [] then Exited else Asking rs) s)"
| read_fails: "is_at t (Asking (r # rs)) s \<Longrightarrow> \<not> stop_read_holds r s \<Longrightarrow>
     sched_step s (Goes_On t) (at_thread t Looking s)"
| stop: "sched_step s Stops (s\<lparr>mStopping := True\<rparr>)"
| timers: "sched_step s (Timers k) (s\<lparr>mTimerCnt := k\<rparr>)"

inductive sched_run :: "scheduler \<Rightarrow> sched_event list \<Rightarrow> scheduler \<Rightarrow> bool" for s0 where
  run_nil: "sched_run s0 [] s0"
| run_snoc: "sched_run s0 es s \<Longrightarrow> sched_step s e s' \<Longrightarrow> sched_run s0 (es @ [e]) s'"

inductive_cases sched_stepE: "sched_step s e s'"

inductive_simps sched_step_simps:
  "sched_step s (Adds b num) s'" "sched_step s (Takes t k) s'" "sched_step s (Finds_None t) s'"
  "sched_step s (Runs t f) s'" "sched_step s (Yields t) s'" "sched_step s (Finishes t) s'"
  "sched_step s (Left t) s'" "sched_step s (Idled t rs) s'" "sched_step s (Reads t r) s'"
  "sched_step s (Goes_On t) s'" "sched_step s Stops s'" "sched_step s (Timers i) s'"

text \<open>What an event does, as a function: schedules are evaluated with it.\<close>

fun sched_do :: "sched_event \<Rightarrow> scheduler \<Rightarrow> scheduler option" where
  "sched_do (Adds b num) s = Some (snd (addTaskNoLock b num s))"
| "sched_do (Takes t k) s = (if is_at t Looking s
     then case pick_task t (mThreads s) (m_state (fbs s)) (mTasks s) of
         Inr (tr, Some k', ks) \<Rightarrow> if k' = k
           then Some (at_thread t (Picked (body k)) (s\<lparr>mTasks := ks, mActiveCnt := mActiveCnt s + 1\<rparr>)) else None
       | _ \<Rightarrow> None
     else None)"
| "sched_do (Finds_None t) s = (if is_at t Looking s
     then case pick_task t (mThreads s) (m_state (fbs s)) (mTasks s) of
         Inr (tr, None, ks) \<Rightarrow> Some (at_thread t Idle s) | _ \<Rightarrow> None
     else None)"
| "sched_do (Runs t f) s = (if t < length (threads s) then
     (case threads s ! t of
       Picked (Task_Fiber f') \<Rightarrow> if f' = f then Some (at_thread t (On_Stack f) (s\<lparr>fbs := fiber_resume f (fbs s)\<rparr>)) else None
     | Picked (Task_Func g) \<Rightarrow> (case newFiber (fbs s) of (f', fs) \<Rightarrow>
         if f' = f then Some (at_thread t (On_Stack f) (s\<lparr>fbs := fiber_resume f fs\<rparr>)) else None)
     | _ \<Rightarrow> None) else None)"
| "sched_do (Yields t) s = (if t < length (threads s) then
     (case threads s ! t of On_Stack f \<Rightarrow> Some (at_thread t (Leaving f) (s\<lparr>fbs := fiber_yield f (fbs s)\<rparr>)) | _ \<Rightarrow> None)
     else None)"
| "sched_do (Finishes t) s = (if t < length (threads s) then
     (case threads s ! t of On_Stack f \<Rightarrow> Some (at_thread t (Leaving f) (s\<lparr>fbs := fiber_finish f (fbs s)\<rparr>)) | _ \<Rightarrow> None)
     else None)"
| "sched_do (Left t) s = (if t < length (threads s) then
     (case threads s ! t of Leaving f \<Rightarrow> Some (at_thread t Looking (s\<lparr>mActiveCnt := mActiveCnt s - 1\<rparr>)) | _ \<Rightarrow> None)
     else None)"
| "sched_do (Idled t rs) s = (if is_at t Idle s \<and> (rs = sched_stopping \<or> rs = io_sched_stopping)
     then Some (at_thread t (Asking rs) s) else None)"
| "sched_do (Reads t r) s = (if t < length (threads s) then
     (case threads s ! t of Asking (r' # rs) \<Rightarrow> if r' = r \<and> stop_read_holds r s
        then Some (at_thread t (if rs = [] then Exited else Asking rs) s) else None | _ \<Rightarrow> None) else None)"
| "sched_do (Goes_On t) s = (if t < length (threads s) then
     (case threads s ! t of Asking (r # rs) \<Rightarrow> if stop_read_holds r s then None else Some (at_thread t Looking s)
      | _ \<Rightarrow> None) else None)"
| "sched_do Stops s = Some (s\<lparr>mStopping := True\<rparr>)"
| "sched_do (Timers k) s = Some (s\<lparr>mTimerCnt := k\<rparr>)"

fun sched_sim :: "sched_event list \<Rightarrow> scheduler \<Rightarrow> scheduler option" where
  "sched_sim [] s = Some s"
| "sched_sim (e # es) s = Option.bind (sched_do e s) (sched_sim es)"

lemma sched_step_iff: "sched_step s e s' \<longleftrightarrow> sched_do e s = Some s'"
  by (cases e) (auto simp: sched_step_simps is_at_def addTaskNoLock_def Let_def split: if_splits sum.splits option.splits thread_place.splits
      task_body.splits prod.splits list.splits)

lemma run_cons: "sched_run s' es s'' \<Longrightarrow> sched_step s e s' \<Longrightarrow> sched_run s (e # es) s''"
proof (induction rule: sched_run.induct)
  case run_nil
  then show ?case using sched_run.run_snoc [OF sched_run.run_nil, of s e s'] by simp
next
  case (run_snoc es s1 e1 s2)
  then show ?case using sched_run.run_snoc [of s "e # es" s1 e1 s2] by simp
qed

lemma sched_sim_run: "sched_sim es s = Some s' \<Longrightarrow> sched_run s es s'"
proof (induction es arbitrary: s)
  case (Cons e es)
  then obtain s1 where "sched_step s e s1" "sched_sim es s1 = Some s'" by (auto simp: bind_eq_Some_conv sched_step_iff)
  then show ?case using Cons.IH run_cons by blast
qed (simp add: sched_run.run_nil)

text \<open>The proof obligations of an invariant of all runs.\<close>

lemma run_keeps:
  assumes "sched_run s0 es s" and "I s0" and "\<And>s e s'. e \<in> set es \<Longrightarrow> sched_step s e s' \<Longrightarrow> I s \<Longrightarrow> I s'"
  shows "I s"
  using assms by (induction rule: sched_run.induct) (auto 4 3)

section \<open>The active count\<close>

fun busy :: "thread_place \<Rightarrow> bool" where
  "busy (Picked b) = True"
| "busy (On_Stack f) = True"
| "busy (Leaving f) = True"
| "busy _ = False"

definition busy_count :: "thread_place list \<Rightarrow> nat" where
  "busy_count ts = length (filter busy ts)"

lemma filter_update:
  "t < length xs \<Longrightarrow> int (length (filter P (xs[t := x]))) =
     int (length (filter P xs)) + of_bool (P x) - of_bool (P (xs ! t))"
proof (induction xs arbitrary: t)
  case (Cons a xs)
  then show ?case by (cases t) auto
qed simp

lemma busy_count_update [simp]:
  "t < length ts \<Longrightarrow> int (busy_count (ts[t := p])) = int (busy_count ts) + of_bool (busy p) - of_bool (busy (ts ! t))"
  by (simp add: busy_count_def filter_update)

definition active_ok :: "scheduler \<Rightarrow> bool" where
  "active_ok s \<longleftrightarrow> mActiveCnt s = int (busy_count (threads s))"

lemma step_active: "sched_step s e s' \<Longrightarrow> active_ok s \<Longrightarrow> active_ok s'"
  by (erule sched_stepE) (auto simp: is_at_def active_ok_def addTaskNoLock_def Let_def split: if_splits)

lemma started_active: "active_ok (started n extra)"
  by (simp add: active_ok_def started_def busy_count_def)

lemma run_active: "sched_run (started n extra) es s \<Longrightarrow> active_ok s"
  by (erule run_keeps [where I = active_ok]) (auto intro: started_active step_active)

lemma active_zero: "active_ok s \<Longrightarrow> mActiveCnt s = 0 \<Longrightarrow> p \<in> set (threads s) \<Longrightarrow> \<not> busy p"
  by (auto simp: active_ok_def busy_count_def filter_empty_conv)

section \<open>Stopping\<close>

fun is_add :: "sched_event \<Rightarrow> bool" where
  "is_add (Adds b num) = True"
| "is_add _ = False"

text \<open>What a thread has still to read is an end of the list of \<open>stopping\<close>.\<close>

definition asking_ok :: "scheduler \<Rightarrow> bool" where
  "asking_ok s \<longleftrightarrow> (\<forall>t<length (threads s). \<forall>rs. threads s ! t = Asking rs \<longrightarrow> rs \<noteq> [] \<and> suffix rs io_sched_stopping)"

lemmas asks = sched_stopping_def io_sched_stopping_def suffix_Cons

lemma step_asking: "sched_step s e s' \<Longrightarrow> asking_ok s \<Longrightarrow> asking_ok s'"
  by (erule sched_stepE)
    (auto simp: is_at_def asking_ok_def nth_list_update asks addTaskNoLock_def Let_def split: if_splits)

lemma started_asking: "asking_ok (started n extra)"
  by (simp add: asking_ok_def started_def)

lemma run_asking: "sched_run (started n extra) es s \<Longrightarrow> asking_ok s"
  by (erule run_keeps [where I = asking_ok]) (auto intro: started_asking step_asking)

text \<open>What holds once thread \<open>t\<close> has found the queue empty, while nothing is added.\<close>

definition winding :: "nat \<Rightarrow> scheduler \<Rightarrow> bool" where
  "winding t s \<longleftrightarrow> t < length (threads s) \<and> active_ok s \<and> asking_ok s \<and> mTasks s = [] \<and>
     (threads s ! t = Exited \<or> threads s ! t = Asking [R_Timers] \<longrightarrow> mActiveCnt s = 0)"

lemma winding_step:
  assumes "sched_step s e s'" and "\<not> is_add e" and "winding t s"
  shows "winding t s'"
proof -
  have a: "active_ok s" "active_ok s'" using step_active [OF assms(1)] assms(3) by (auto simp: winding_def)
  have k: "asking_ok s" "asking_ok s'" using step_asking [OF assms(1)] assms(3) by (auto simp: winding_def)
  have b: "mActiveCnt s \<noteq> 0" if "u < length (threads s)" "busy (threads s ! u)" for u
    using active_zero [OF a(1)] nth_mem [OF that(1)] that(2) by blast
  show ?thesis using assms(1)
  proof (cases rule: sched_step.cases)
    case (left u f)
    then show ?thesis using assms(3) a(2) k(2) b [of u]
      by (auto simp: winding_def is_at_def nth_list_update split: if_splits)
  next
    case (read_holds u r rs)
    then have "suffix (r # rs) io_sched_stopping" using k(1) by (auto simp: asking_ok_def is_at_def)
    then show ?thesis using read_holds assms(3) a(2) k(2)
      by (auto simp: winding_def is_at_def nth_list_update asks split: if_splits)
  qed (use assms(2,3) a(2) k(2) in \<open>auto simp: winding_def is_at_def nth_list_update asks split: if_splits\<close>)
qed

text \<open>
  C23. \<open>mActiveCnt\<close> is the number of threads that hold a task.  If no task is added after a thread
  has found the queue empty in \<open>stopping\<close>, then that thread leaves its loop only when the queue is
  empty and no thread holds or runs anything, whatever the others did between its reads.
\<close>

theorem stopping_means_quiet:
  assumes "sched_run (started n extra) es1 s1" and "sched_step s1 (Reads t R_Tasks) s2"
    and "sched_run s2 es2 s3" and "\<forall>e\<in>set es2. \<not> is_add e"
  shows "mActiveCnt s3 = int (busy_count (threads s3)) \<and> mTasks s3 = [] \<and>
    (threads s3 ! t = Exited \<longrightarrow> (\<forall>p\<in>set (threads s3). \<not> busy p))"
proof -
  obtain rs where r: "is_at t (Asking (R_Tasks # rs)) s1" using assms(2) by (auto simp: sched_step_simps)
  then have "rs = [R_Active, R_Timers]" using run_asking [OF assms(1)] by (auto simp: asking_ok_def is_at_def asks)
  then have "winding t s2"
    using assms(2) r step_active [OF assms(2) run_active] step_asking [OF assms(2) run_asking] assms(1)
    by (auto simp: winding_def is_at_def sched_step_simps)
  then have "winding t s3" by (rule run_keeps [OF assms(3), where I = "winding t"]) (use assms(4) winding_step in blast)
  then show ?thesis using active_zero [of s3] by (auto simp: winding_def active_ok_def)
qed

theorem stopping_means_quiet_witness:
  "\<exists>s::scheduler. threads s = [Exited] \<and> mStopping s \<and> mActiveCnt s = int (busy_count (threads s))"
proof -
  let ?s1 = "(started 1 0)\<lparr>mStopping := True, threads := [Asking [R_Tasks, R_Active, R_Timers]]\<rparr>"
  let ?s2 = "?s1\<lparr>threads := [Asking [R_Active, R_Timers]]\<rparr>"
  note defs = started_def newScheduler_def is_at_def sched_stopping_def
  have 1: "sched_run (started 1 0) [Stops, Finds_None 0, Idled 0 sched_stopping, Reads 0 R_Stopping] ?s1"
    by (rule sched_sim_run) (simp add: defs)
  have 2: "sched_step ?s1 (Reads 0 R_Tasks) ?s2" by (simp add: sched_step_iff defs)
  have 3: "sched_run ?s2 [Reads 0 R_Active, Reads 0 R_Timers] (?s2\<lparr>threads := [Exited]\<rparr>)"
    by (rule sched_sim_run) (simp add: defs)
  have "\<not> busy (threads (?s2\<lparr>threads := [Exited]\<rparr>) ! 0) \<and> mActiveCnt (?s2\<lparr>threads := [Exited]\<rparr>) = 0"
    using stopping_means_quiet [OF 1 2 3] by (simp add: busy_count_def)
  then show ?thesis by (intro exI [of _ "?s2\<lparr>threads := [Exited]\<rparr>"]) (simp add: busy_count_def)
qed

section \<open>Which task is picked\<close>

text \<open>What thread \<open>me\<close> passes over.\<close>

definition passes :: "nat \<Rightarrow> (nat \<Rightarrow> fiber_state) \<Rightarrow> task \<Rightarrow> bool" where
  "passes me st k \<longleftrightarrow> (threadNum k \<noteq> -1 \<and> nat (threadNum k) \<noteq> me) \<or> (\<exists>f. body k = Task_Fiber f \<and> st f = EXEC)"

definition numbered :: "nat \<Rightarrow> task \<Rightarrow> bool" where
  "numbered n k \<longleftrightarrow> threadNum k = -1 \<or> (0 \<le> threadNum k \<and> threadNum k < int n)"

lemma pick_task_cases:
  "pick_task me n st ks = Inr (tr, r, ks') \<Longrightarrow>
   (case r of None \<Rightarrow> ks' = ks \<and> (\<forall>k\<in>set ks. passes me st k)
    | Some k \<Rightarrow> \<exists>a b. ks = a @ k # b \<and> ks' = a @ b \<and> (\<forall>j\<in>set a. passes me st j) \<and> \<not> passes me st k)"
proof (induction ks arbitrary: tr r ks')
  case (Cons k ks)
  show ?case
  proof (cases "passes me st k")
    case True
    then obtain tr1 ks1 where p: "pick_task me n st ks = Inr (tr1, r, ks1)" "ks' = k # ks1"
      using Cons.prems by (auto simp: passes_def bind_run_Inr_iff split: if_splits)
    show ?thesis
    proof (cases r)
      case None
      then show ?thesis using Cons.IH [OF p(1)] p(2) True by simp
    next
      case (Some j)
      then obtain a b where "ks = a @ j # b" "ks1 = a @ b" "\<forall>i\<in>set a. passes me st i" "\<not> passes me st j"
        using Cons.IH [OF p(1)] by auto
      then show ?thesis using Some p(2) True by (simp, intro exI [of _ "k # a"] exI [of _ b]) auto
    qed
  next
    case False
    then have "r = Some k \<and> ks' = ks" using Cons.prems by (auto simp: passes_def split: if_splits)
    then show ?thesis using False by (simp, intro exI [of _ "[]"] exI [of _ ks]) simp
  qed
qed auto

lemma pick_task_total: "\<forall>k\<in>set ks. numbered n k \<Longrightarrow> \<exists>x. pick_task me n st ks = Inr x"
  by (induction ks) (auto simp: numbered_def)

text \<open>
  C25. While every task names a thread that exists, a thread takes the first task of the queue it
  may run, which is one for any thread or for it and not a fiber that is being executed; it
  leaves the other tasks in their order, and finds nothing only when there is none.
\<close>

theorem pick_first_runnable:
  assumes "\<forall>k\<in>set ks. numbered n k"
  shows "(\<exists>tr. pick_task me n st ks = Inr (tr, None, ks) \<and> (\<forall>k\<in>set ks. passes me st k)) \<or>
    (\<exists>tr a k b. ks = a @ k # b \<and> pick_task me n st ks = Inr (tr, Some k, a @ b) \<and>
       (\<forall>j\<in>set a. passes me st j) \<and> \<not> passes me st k)"
proof -
  obtain tr r ks' where p: "pick_task me n st ks = Inr (tr, r, ks')"
    using pick_task_total [OF assms, of me st] by (metis prod_cases3)
  then show ?thesis using pick_task_cases [OF p] by (cases r) auto
qed

theorem pick_first_runnable_witness:
  "\<exists>tr. pick_task 0 2 (\<lambda>_. EXEC) [\<lparr>body = Task_Fiber 3, threadNum = -1\<rparr>, \<lparr>body = Task_Func 7, threadNum = 0\<rparr>] =
     Inr (tr, Some \<lparr>body = Task_Func 7, threadNum = 0\<rparr>, [\<lparr>body = Task_Fiber 3, threadNum = -1\<rparr>])"
  using pick_first_runnable [of "[\<lparr>body = Task_Fiber 3, threadNum = -1\<rparr>, \<lparr>body = Task_Func 7, threadNum = 0\<rparr>]" 2 0 "\<lambda>_. EXEC"]
  by (auto simp: numbered_def passes_def)

text \<open>
  \<open>addTask\<close> lets through the thread number that is one past the last thread; the next thread
  that looks at the task indexes the thread ids out of range.
\<close>

theorem thread_number_off_by_one:
  assumes "mTasks s = []" and "b \<noteq> Task_None"
  shows "pick_task me (mThreads s) st (mTasks (snd (addTaskNoLock b (int (mThreads s)) s))) = Inl Out_Of_Range"
  using assms by (simp add: addTaskNoLock_def Let_def)

theorem thread_number_off_by_one_witness:
  "pick_task 0 2 (\<lambda>_. HOLD) (mTasks (snd (addTaskNoLock (Task_Func 0) 2 (started 2 0)))) = Inl Out_Of_Range"
  using thread_number_off_by_one [of "started 2 0" "Task_Func 0" 0 "\<lambda>_. HOLD"]
  by (simp add: started_def newScheduler_def)

section \<open>No task is lost or taken twice\<close>

text \<open>The tasks a list of events puts into the queue, and those it takes out, with the thread.\<close>

fun added :: "nat \<Rightarrow> sched_event list \<Rightarrow> task list" where
  "added n [] = []"
| "added n (Adds b num # es) =
     (if b = Task_None then [] else [\<lparr>body = b, threadNum = (if int n < num then -1 else num)\<rparr>]) @ added n es"
| "added n (_ # es) = added n es"

fun taken :: "sched_event list \<Rightarrow> (nat \<times> task) list" where
  "taken [] = []"
| "taken (Takes t k # es) = (t, k) # taken es"
| "taken (_ # es) = taken es"

lemma added_append [simp]: "added n (es @ es') = added n es @ added n es'"
  by (induction n es rule: added.induct) auto

lemma taken_append [simp]: "taken (es @ es') = taken es @ taken es'"
  by (induction es rule: taken.induct) auto

lemma pick_task_mine:
  "pick_task me n st ks = Inr (tr, Some k, ks') \<Longrightarrow> threadNum k = -1 \<or> threadNum k = int me"
  by (induction ks arbitrary: tr ks') (auto simp: bind_run_Inr_iff split: if_splits)

lemma pick_task_removes:
  "pick_task me n st ks = Inr (tr, Some k, ks') \<Longrightarrow> mset ks = add_mset k (mset ks') \<and> subseq ks' ks"
  by (drule pick_task_cases) (auto intro: list_emb_append_mono)

text \<open>What holds of the events so far, the queue and the threads.\<close>

definition conserved :: "nat \<Rightarrow> sched_event list \<Rightarrow> scheduler \<Rightarrow> bool" where
  "conserved n es s \<longleftrightarrow> mThreads s = n \<and> mset (added n es) = mset (map snd (taken es)) + mset (mTasks s) \<and>
     subseq (mTasks s) (added n es) \<and>
     (\<forall>(t, k)\<in>set (taken es). t < length (threads s) \<and> (threadNum k = -1 \<or> threadNum k = int t))"

lemma conserved_step:
  assumes "sched_step s e s'" and "conserved n es s"
  shows "conserved n (es @ [e]) s'"
  using assms(1)
proof (cases rule: sched_step.cases)
  case (pick t tr k ks)
  note r = pick_task_removes [OF pick(4)] and m = pick_task_mine [OF pick(4)]
  have "subseq ks (added n es)" using r assms(2) subseq_order.trans by (auto simp: conserved_def)
  then show ?thesis using pick r m assms(2) by (auto simp: conserved_def is_at_def)
next
  case (add_task b num e)
  then show ?thesis using assms(2) 
    by (auto simp: conserved_def addTaskNoLock_def Let_def subseq_append' split: if_splits)
qed (use assms(2) in \<open>auto simp: conserved_def\<close>)

text \<open>
  C24. In every run each task that was added is either still in the queue or has been taken by
  exactly one thread, one that it may run on; the queue keeps the order in which tasks came.
\<close>

theorem tasks_conserved:
  assumes "sched_run (started n extra) es s"
  shows "mset (added (newScheduler n) es) = mset (map snd (taken es)) + mset (mTasks s) \<and>
    subseq (mTasks s) (added (newScheduler n) es) \<and>
    (\<forall>(t, k)\<in>set (taken es). t < length (threads s) \<and> (threadNum k = -1 \<or> threadNum k = int t))"
proof -
  have "conserved (newScheduler n) es s" using assms
  proof (induction rule: sched_run.induct)
    case run_nil
    show ?case by (simp add: conserved_def started_def)
  next
    case (run_snoc es s e s')
    then show ?case using conserved_step by blast
  qed
  then show ?thesis by (simp add: conserved_def)
qed

theorem tasks_conserved_witness:
  "\<exists>s. sched_run (started 2 0) [Adds (Task_Func 4) 1, Adds (Task_Func 5) (-1), Takes 0 \<lparr>body = Task_Func 5, threadNum = -1\<rparr>] s \<and>
     mset (mTasks s) = {# \<lparr>body = Task_Func 4, threadNum = 1\<rparr> #}"
proof -
  let ?es = "[Adds (Task_Func 4) 1, Adds (Task_Func 5) (-1), Takes 0 \<lparr>body = Task_Func 5, threadNum = -1\<rparr>]"
  have "\<exists>s. sched_sim ?es (started 2 0) = Some s"
    by (simp add: started_def newScheduler_def addTaskNoLock_def is_at_def)
  then obtain s where r: "sched_run (started 2 0) ?es s" using sched_sim_run by blast
  show ?thesis using tasks_conserved [OF r] r by (intro exI [of _ s]) (simp add: newScheduler_def)
qed

section \<open>Two schedules\<close>







end
