(* ===== verification/Io_Manager.thy ===== *)
theory Io_Manager
  imports Timer_Wheel
begin

text \<open>
  \<open>IOManager\<close>: \<open>src/iomanager/IOManager.cpp\<close> and \<open>src/iomanager/IOManager.h\<close>.

  For every descriptor an \<open>Event\<close> says which of reading and writing is waited for and by whom,
  a fiber or a callback.  \<open>epoll\<close> is the interest list of the kernel; what \<open>epoll_ctl\<close> does to it
  is the argument \<open>ctl\<close>, with \<open>None\<close> for an error.  \<open>queue\<close> collects what the event loop gives to
  \<open>Scheduler::addTask\<close>.  Each operation is one step; the wake-ups through the \<open>eventfd\<close> are left
  out.
\<close>

section \<open>State\<close>

definition EPOLLIN :: u32 where "EPOLLIN = 1"
definition EPOLLOUT :: u32 where "EPOLLOUT = 4"
definition EPOLLET :: u32 where "EPOLLET = 0x80000000"

datatype epoll_op = EPOLL_CTL_ADD | EPOLL_CTL_MOD | EPOLL_CTL_DEL

type_synonym interest = "int \<rightharpoonup> u32"
type_synonym epoll_ctl = "epoll_op \<Rightarrow> int \<Rightarrow> u32 \<Rightarrow> interest \<Rightarrow> interest option"

record 'cb event_ctx =
  cb :: "'cb option"
  fiber :: "nat option"

record 'cb event =
  event :: u32
  write_ctx :: "'cb event_ctx"
  read_ctx :: "'cb event_ctx"

datatype 'cb io_task = Run_Fiber nat | Run_Cb 'cb

record 'cb iomanager =
  mEvents :: "'cb event list"
  mTimerManager :: "'cb timer_mgr"
  timerCnt :: int
  epoll :: interest
  queue :: "'cb io_task list"

definition empty_ctx :: "'cb event_ctx" where
  "empty_ctx = \<lparr>cb = None, fiber = None\<rparr>"

definition newEvent :: "'cb event" where
  "newEvent = \<lparr>event = 0, write_ctx = empty_ctx, read_ctx = empty_ctx\<rparr>"

section \<open>One event\<close>

text \<open>\<open>getEvent\<close> ends the process for anything but one of the two events.\<close>

definition getEvent :: "u32 \<Rightarrow> 'cb event \<Rightarrow> fault + 'cb event_ctx" where
  "getEvent ev e =
     (if ev = EPOLLIN then Inr (read_ctx e) else if ev = EPOLLOUT then Inr (write_ctx e) else Inl Process_Exit)"

definition setCtx :: "u32 \<Rightarrow> 'cb event_ctx \<Rightarrow> 'cb event \<Rightarrow> 'cb event" where
  "setCtx ev c e = (if ev = EPOLLIN then e\<lparr>read_ctx := c\<rparr> else e\<lparr>write_ctx := c\<rparr>)"

definition event_reset :: "u32 \<Rightarrow> 'cb event \<Rightarrow> fault + 'cb event" where
  "event_reset ev e = bind_run (getEvent ev e) (\<lambda>c. Inr (setCtx ev empty_ctx e))"

definition ctx_task :: "'cb event_ctx \<Rightarrow> 'cb io_task list" where
  "ctx_task c = (case fiber c of Some f \<Rightarrow> [Run_Fiber f]
                 | None \<Rightarrow> (case cb c of Some g \<Rightarrow> [Run_Cb g] | None \<Rightarrow> []))"

definition triggerEvent :: "u32 \<Rightarrow> 'cb event \<Rightarrow> fault + 'cb io_task list \<times> 'cb event" where
  "triggerEvent ev e =
     (let e = e\<lparr>event := event e AND NOT ev\<rparr>
      in bind_run (getEvent ev e) (\<lambda>c. bind_run (event_reset ev e) (\<lambda>e'. Inr (ctx_task c, e'))))"

section \<open>Operations\<close>

definition ctxResize :: "int \<Rightarrow> 'cb iomanager \<Rightarrow> 'cb iomanager" where
  "ctxResize n m = m\<lparr>mEvents := vec_resize newEvent (mEvents m) (nat n)\<rparr>"

definition newIOManager :: "int \<Rightarrow> int \<Rightarrow> u64 \<Rightarrow> 'cb iomanager" where
  "newIOManager slotnum ticktime now =
     ctxResize 128 \<lparr>mEvents = [], mTimerManager = newTimerManager slotnum ticktime now, timerCnt = 0,
                    epoll = Map.empty, queue = []\<rparr>"

definition set_event :: "int \<Rightarrow> 'cb event \<Rightarrow> 'cb iomanager \<Rightarrow> fault + 'cb iomanager" where
  "set_event fd e m = bind_run (vec_set (mEvents m) fd e) (\<lambda>v. Inr (m\<lparr>mEvents := v\<rparr>))"

text \<open>\<open>fd >= mEventCnt * 0.8\<close>, and the new size \<open>(int)(fd * 1.5)\<close>, undefined beyond \<open>int\<close>.\<close>

definition make_room :: "int \<Rightarrow> 'cb iomanager \<Rightarrow> fault + 'cb iomanager" where
  "make_room fd m =
     (if 4 * int (length (mEvents m)) \<le> 5 * fd
      then if in_int_range (fd * 3 div 2) then Inr (ctxResize (fd * 3 div 2) m) else Inl Signed_Overflow
      else Inr m)"

text \<open>
  \<open>addEvent\<close> in two parts, as the lock of the descriptor is only taken for the second: the
  registration with \<open>epoll\<close>, which reports whether to go on, and the record of who waits.
\<close>

definition add_register :: "epoll_ctl \<Rightarrow> int \<Rightarrow> u32 \<Rightarrow> 'cb iomanager \<Rightarrow> fault + bool \<times> 'cb iomanager" where
  "add_register ctl fd ev m =
     bind_run (make_room fd m) (\<lambda>m. bind_run (vec_at (mEvents m) fd) (\<lambda>task.
       if event task AND ev \<noteq> 0 then Inr (False, m)
       else let op = (if event task = 0 then EPOLL_CTL_ADD else EPOLL_CTL_MOD)
            in case ctl op fd (EPOLLET OR ev OR event task) (epoll m) of
                 None \<Rightarrow> Inr (False, m)
               | Some k \<Rightarrow> Inr (True, m\<lparr>epoll := k\<rparr>)))"

definition add_record :: "int \<Rightarrow> u32 \<Rightarrow> 'cb option \<Rightarrow> nat \<Rightarrow> 'cb iomanager \<Rightarrow> fault + 'cb iomanager" where
  "add_record fd ev func cur m =
     bind_run (vec_at (mEvents m) fd) (\<lambda>task.
       let task = task\<lparr>event := event task OR ev\<rparr>
       in bind_run (getEvent ev task) (\<lambda>c.
            let c = (case func of Some g \<Rightarrow> c\<lparr>cb := Some g\<rparr> | None \<Rightarrow> c\<lparr>fiber := Some cur\<rparr>)
            in set_event fd (setCtx ev c task) m))"

definition addEvent ::
  "epoll_ctl \<Rightarrow> int \<Rightarrow> u32 \<Rightarrow> 'cb option \<Rightarrow> nat \<Rightarrow> 'cb iomanager \<Rightarrow> fault + 'cb iomanager" where
  "addEvent ctl fd ev func cur m =
     bind_run (add_register ctl fd ev m) (\<lambda>(go, m). if go then add_record fd ev func cur m else Inr m)"

text \<open>The \<open>epoll_event\<close> of \<open>cancelEvent\<close> is built from the events before the cancellation.\<close>

definition cancelEvent :: "epoll_ctl \<Rightarrow> int \<Rightarrow> u32 \<Rightarrow> 'cb iomanager \<Rightarrow> fault + 'cb iomanager" where
  "cancelEvent ctl fd ev m =
     (if int (length (mEvents m)) \<le> fd then Inr m
      else bind_run (vec_at (mEvents m) fd) (\<lambda>task.
             if event task AND ev = 0 then Inr m
             else let op = (if event task AND NOT ev = 0 then EPOLL_CTL_DEL else EPOLL_CTL_MOD);
                      k = (case ctl op fd (event task OR EPOLLET) (epoll m) of None \<Rightarrow> epoll m | Some k \<Rightarrow> k)
                  in bind_run (triggerEvent ev task) (\<lambda>(ts, task).
                       set_event fd task (m\<lparr>epoll := k, queue := queue m @ ts\<rparr>))))"

definition delEvent :: "epoll_ctl \<Rightarrow> int \<Rightarrow> 'cb iomanager \<Rightarrow> fault + 'cb iomanager" where
  "delEvent ctl fd m =
     (if int (length (mEvents m)) \<le> fd then Inr m
      else bind_run (vec_at (mEvents m) fd) (\<lambda>task.
             if event task = 0 then Inr m
             else let k = (case ctl EPOLL_CTL_DEL fd 0 (epoll m) of None \<Rightarrow> epoll m | Some k \<Rightarrow> k)
                  in bind_run (event_reset EPOLLIN (task\<lparr>event := 0\<rparr>)) (\<lambda>task.
                       bind_run (event_reset EPOLLOUT task) (\<lambda>task. set_event fd task (m\<lparr>epoll := k\<rparr>)))))"

definition io_addTimer :: "int \<Rightarrow> 'cb \<Rightarrow> bool \<Rightarrow> 'cb iomanager \<Rightarrow> fault + nat \<times> 'cb iomanager" where
  "io_addTimer timing f recurr m =
     bind_run (addTimer (mTimerManager m) timing f recurr) (\<lambda>(t, tm).
       Inr (t, m\<lparr>timerCnt := timerCnt m + 1, mTimerManager := tm\<rparr>))"

definition io_delTimer :: "nat \<Rightarrow> 'cb iomanager \<Rightarrow> fault + 'cb iomanager" where
  "io_delTimer t m =
     bind_run (delTimer (mTimerManager m) t) (\<lambda>tm. Inr (m\<lparr>timerCnt := timerCnt m - 1, mTimerManager := tm\<rparr>))"

section \<open>The event loop\<close>

text \<open>A readiness report for a descriptor; the errors of \<open>epoll_ctl\<close> skip the event.\<close>

definition real_event :: "u32 \<Rightarrow> u32" where
  "real_event evs = (evs AND EPOLLIN) OR (evs AND EPOLLOUT)"

definition handle_ready :: "epoll_ctl \<Rightarrow> int \<Rightarrow> u32 \<Rightarrow> 'cb iomanager \<Rightarrow> fault + 'cb iomanager" where
  "handle_ready ctl fd evs m =
     (let real = real_event evs
      in bind_run (vec_at (mEvents m) fd) (\<lambda>task.
           if event task AND real = 0 then Inr m
           else let left = event task AND NOT real;
                    op = (if left = 0 then EPOLL_CTL_DEL else EPOLL_CTL_MOD)
                in case ctl op fd (EPOLLET OR left) (epoll m) of
                     None \<Rightarrow> Inr m
                   | Some k \<Rightarrow>
                       bind_run (if real AND EPOLLIN \<noteq> 0 then triggerEvent EPOLLIN task else Inr ([], task)) (\<lambda>(t1, task).
                       bind_run (if real AND EPOLLOUT \<noteq> 0 then triggerEvent EPOLLOUT task else Inr ([], task)) (\<lambda>(t2, task).
                         set_event fd task (m\<lparr>epoll := k, queue := queue m @ t1 @ t2\<rparr>)))))"

text \<open>The reports of \<open>epoll_wait\<close>; the one for the \<open>eventfd\<close> only drains it.\<close>

datatype report = Wakeup | Fd_Ready int u32

fun handle_all :: "epoll_ctl \<Rightarrow> 'cb iomanager \<Rightarrow> report list \<Rightarrow> fault + 'cb iomanager" where
  "handle_all ctl m [] = Inr m"
| "handle_all ctl m (Wakeup # rs) = handle_all ctl m rs"
| "handle_all ctl m (Fd_Ready fd evs # rs) = bind_run (handle_ready ctl fd evs m) (\<lambda>m. handle_all ctl m rs)"

datatype wait_result = Interrupted | Wait_Error | Ready "report list"

text \<open>
  One turn of \<open>idle\<close>: the result of \<open>epoll_wait\<close>, the clock before and after it and in \<open>tick\<close>.
  \<open>None\<close>: the loop ends.  \<open>waitTime\<close> is the local of the loop; \<open>waitTime -= end - begin\<close> is
  computed in 64 bits and cut to \<open>int\<close>.
\<close>

definition run_timers :: "u64 \<Rightarrow> u64 \<Rightarrow> 'cb iomanager \<Rightarrow> fault + int \<times> 'cb iomanager" where
  "run_timers now1 now2 m =
     bind_run (tick (mTimerManager m) now1 now2) (\<lambda>(cbs, tm).
       Inr (mTickTime tm, m\<lparr>mTimerManager := tm, queue := queue m @ map Run_Cb cbs\<rparr>))"

definition idle_turn ::
  "epoll_ctl \<Rightarrow> wait_result \<Rightarrow> u64 \<Rightarrow> u64 \<Rightarrow> u64 \<Rightarrow> u64 \<Rightarrow> int \<times> 'cb iomanager \<Rightarrow>
     fault + (int \<times> 'cb iomanager) option" where
  "idle_turn ctl w begin_ms end_ms now1 now2 = (\<lambda>(waitTime, m).
     (case w of
        Interrupted \<Rightarrow> Inr (Some (waitTime, m))
      | Wait_Error \<Rightarrow> Inr None
      | Ready [] \<Rightarrow> bind_run (run_timers now1 now2 m) (\<lambda>r. Inr (Some r))
      | Ready rs \<Rightarrow>
          bind_run (handle_all ctl m rs) (\<lambda>m.
            let waitTime = int_of_u64 (of_int waitTime - (end_ms - begin_ms))
            in if waitTime \<le> 0 then bind_run (run_timers now1 now2 m) (\<lambda>r. Inr (Some r))
               else Inr (Some (waitTime, m)))))"

definition io_stopping :: "bool \<Rightarrow> 'cb iomanager \<Rightarrow> bool" where
  "io_stopping sched_stops m \<longleftrightarrow> timerCnt m = 0 \<and> sched_stops"

section \<open>Who waits for what\<close>

definition is_event :: "u32 \<Rightarrow> bool" where
  "is_event ev \<longleftrightarrow> ev = EPOLLIN \<or> ev = EPOLLOUT"

definition event_ctx_of :: "u32 \<Rightarrow> 'cb event \<Rightarrow> 'cb event_ctx" where
  "event_ctx_of ev e = (if ev = EPOLLIN then read_ctx e else write_ctx e)"

text \<open>An event is waited for by exactly one fiber or callback.\<close>

definition ctx_ok :: "bool \<Rightarrow> 'cb event_ctx \<Rightarrow> bool" where
  "ctx_ok b c \<longleftrightarrow> (if b then (cb c = None) \<noteq> (fiber c = None) else c = empty_ctx)"

definition event_ok :: "'cb event \<Rightarrow> bool" where
  "event_ok e \<longleftrightarrow> event e \<in> {0, EPOLLIN, EPOLLOUT, EPOLLIN OR EPOLLOUT} \<and>
     ctx_ok (event e AND EPOLLIN \<noteq> 0) (read_ctx e) \<and> ctx_ok (event e AND EPOLLOUT \<noteq> 0) (write_ctx e)"

definition waits :: "u32 \<Rightarrow> 'cb event \<Rightarrow> 'cb io_task option" where
  "waits ev e = (case ctx_task (event_ctx_of ev e) of [] \<Rightarrow> None | t # ts \<Rightarrow> Some t)"

definition opt_list :: "'a option \<Rightarrow> 'a list" where
  "opt_list x = (case x of None \<Rightarrow> [] | Some y \<Rightarrow> [y])"

lemmas epoll_defs = EPOLLIN_def EPOLLOUT_def EPOLLET_def

lemmas ctx_defs = ctx_ok_def ctx_task_def empty_ctx_def

lemma ctx_task_cases: "ctx_task c = [] \<or> (\<exists>t. ctx_task c = [t])"
  by (auto simp: ctx_task_def split: option.split)

lemma ctx_task_ok: "ctx_ok b c \<Longrightarrow> ctx_task c = [] \<longleftrightarrow> \<not> b"
  by (auto simp: ctx_defs split: option.splits if_splits)

lemma ctx_task_opt: "ctx_task (event_ctx_of ev e) = opt_list (waits ev e)"
  using ctx_task_cases [of "event_ctx_of ev e"] by (auto simp: waits_def opt_list_def)

lemma event_not_same [simp]: "EPOLLIN \<noteq> EPOLLOUT" "EPOLLOUT \<noteq> EPOLLIN" "EPOLLIN \<noteq> 0" "EPOLLOUT \<noteq> 0"
  by (simp_all add: epoll_defs)

lemma is_event_simps [simp]: "is_event EPOLLIN" "is_event EPOLLOUT"
  by (simp_all add: is_event_def)

lemma is_eventE: "is_event ev \<Longrightarrow> (ev = EPOLLIN \<Longrightarrow> P) \<Longrightarrow> (ev = EPOLLOUT \<Longrightarrow> P) \<Longrightarrow> P"
  by (auto simp: is_event_def)

lemma event_okI:
  assumes "event e \<in> {0, EPOLLIN, EPOLLOUT, EPOLLIN OR EPOLLOUT}"
    and "\<And>ev. is_event ev \<Longrightarrow> ctx_ok (event e AND ev \<noteq> 0) (event_ctx_of ev e)"
  shows "event_ok e"
  using assms(1) assms(2) [of EPOLLIN] assms(2) [of EPOLLOUT]
  unfolding event_ok_def by (simp add: event_ctx_of_def)

lemma event_okD:
  assumes "event_ok e"
  shows "event e \<in> {0, EPOLLIN, EPOLLOUT, EPOLLIN OR EPOLLOUT}"
    and "is_event ev \<Longrightarrow> ctx_ok (event e AND ev \<noteq> 0) (event_ctx_of ev e)"
  using assms by (auto simp: event_ok_def event_ctx_of_def elim: is_eventE)

lemma waits_iff:
  assumes "event_ok e" and "is_event ev"
  shows "waits ev e = None \<longleftrightarrow> event e AND ev = 0"
  using ctx_task_opt [of ev e] ctx_task_ok [OF event_okD(2) [OF assms]]
  by (auto simp: opt_list_def split: option.splits)

lemma event_ctx_of_setCtx [simp]:
  "is_event ev \<Longrightarrow> is_event ev' \<Longrightarrow> event_ctx_of ev' (setCtx ev c e) = (if ev' = ev then c else event_ctx_of ev' e)"
  by (elim is_eventE; simp add: event_ctx_of_def setCtx_def)

lemma event_setCtx [simp]: "event (setCtx ev c e) = event e"
  by (simp add: setCtx_def)

lemma event_ctx_of_upd [simp]: "event_ctx_of ev (e\<lparr>event := w\<rparr>) = event_ctx_of ev e"
  by (simp add: event_ctx_of_def)

lemma getEvent_ok [simp]: "is_event ev \<Longrightarrow> getEvent ev e = Inr (event_ctx_of ev e)"
  by (elim is_eventE; simp add: getEvent_def event_ctx_of_def)

lemma ctx_ok_empty [simp]: "ctx_ok False c \<longleftrightarrow> c = empty_ctx" "\<not> ctx_ok True empty_ctx"
  by (simp_all add: ctx_ok_def empty_ctx_def)

text \<open>The bits of an event word under removal and addition of one event.\<close>

lemma event_words:
  assumes "w \<in> {0, EPOLLIN, EPOLLOUT, EPOLLIN OR EPOLLOUT}" and "is_event ev"
  shows "w AND NOT ev \<in> {0, EPOLLIN, EPOLLOUT, EPOLLIN OR EPOLLOUT}"
    and "w OR ev \<in> {0, EPOLLIN, EPOLLOUT, EPOLLIN OR EPOLLOUT}"
  using assms by (auto simp: epoll_defs is_event_def)

lemma event_bits:
  assumes "w \<in> {0, EPOLLIN, EPOLLOUT, EPOLLIN OR EPOLLOUT}" and "is_event ev" and "is_event ev'"
  shows "(w AND NOT ev) AND ev' = (if ev' = ev then 0 else w AND ev')"
    and "(w OR ev) AND ev' = (if ev' = ev then ev else w AND ev')"
  using assms by (auto simp: epoll_defs is_event_def)

lemma trigger_ok:
  assumes "event_ok e" and "is_event ev"
  shows "\<exists>e'. triggerEvent ev e = Inr (opt_list (waits ev e), e') \<and> event_ok e' \<and> waits ev e' = None \<and>
    (\<forall>ev'. is_event ev' \<longrightarrow> ev' \<noteq> ev \<longrightarrow> waits ev' e' = waits ev' e) \<and> event e' = event e AND NOT ev"
proof -
  let ?e = "setCtx ev empty_ctx (e\<lparr>event := event e AND NOT ev\<rparr>)"
  note words = event_words [OF event_okD(1) [OF assms(1)] assms(2)]
    and bits = event_bits [OF event_okD(1) [OF assms(1)] assms(2)]
  have "triggerEvent ev e = Inr (opt_list (waits ev e), ?e)"
    using assms(2) by (simp add: triggerEvent_def event_reset_def ctx_task_opt [symmetric] Let_def)
  moreover have "event_ok ?e"
  proof (rule event_okI)
    show "ctx_ok (event ?e AND ev' \<noteq> 0) (event_ctx_of ev' ?e)" if "is_event ev'" for ev'
      using assms(2) that event_okD(2) [OF assms(1) that] by (simp add: bits(1))
  qed (use words(1) in simp)
  moreover have "waits ev ?e = None"
    using assms(2) by (simp add: waits_def ctx_task_def empty_ctx_def)
  moreover have "waits ev' ?e = waits ev' e" if "is_event ev'" "ev' \<noteq> ev" for ev'
    using assms(2) that by (simp add: waits_def)
  moreover have "event ?e = event e AND NOT ev" by simp
  ultimately show ?thesis by blast
qed

definition waiter :: "'cb option \<Rightarrow> nat \<Rightarrow> 'cb io_task" where
  "waiter func cur = (case func of Some g \<Rightarrow> Run_Cb g | None \<Rightarrow> Run_Fiber cur)"

definition recorded :: "u32 \<Rightarrow> 'cb option \<Rightarrow> nat \<Rightarrow> 'cb event \<Rightarrow> 'cb event" where
  "recorded ev func cur e =
     (let e = e\<lparr>event := event e OR ev\<rparr>; c = event_ctx_of ev e
      in setCtx ev (case func of Some g \<Rightarrow> c\<lparr>cb := Some g\<rparr> | None \<Rightarrow> c\<lparr>fiber := Some cur\<rparr>) e)"

lemma record_ok:
  assumes "event_ok e" and "is_event ev" and "event e AND ev = 0"
  shows "event_ok (recorded ev func cur e)" and "event (recorded ev func cur e) = event e OR ev"
    and "is_event ev' \<Longrightarrow> waits ev' (recorded ev func cur e) = (if ev' = ev then Some (waiter func cur) else waits ev' e)"
proof -
  note words = event_words [OF event_okD(1) [OF assms(1)] assms(2)]
    and bits = event_bits [OF event_okD(1) [OF assms(1)] assms(2)]
  have c: "event_ctx_of ev e = empty_ctx" using event_okD(2) [OF assms(1,2)] assms(3) by simp
  have ne: "ev \<noteq> 0" using assms(2) by (elim is_eventE) simp_all
  show "event (recorded ev func cur e) = event e OR ev" by (simp add: recorded_def Let_def)
  show "waits ev' (recorded ev func cur e) = (if ev' = ev then Some (waiter func cur) else waits ev' e)"
    if "is_event ev'" for ev'
  proof (cases "ev' = ev")
    case True
    then show ?thesis
      using assms(2) c by (cases func) (simp_all add: recorded_def Let_def waits_def ctx_task_def waiter_def empty_ctx_def)
  qed (use assms(2) that in \<open>simp add: recorded_def Let_def waits_def\<close>)
  show "event_ok (recorded ev func cur e)"
  proof (rule event_okI)
    show "ctx_ok (event (recorded ev func cur e) AND ev' \<noteq> 0) (event_ctx_of ev' (recorded ev func cur e))"
      if "is_event ev'" for ev'
      using assms(2) that c event_okD(2) [OF assms(1) that] ne
      by (cases "ev' = ev"; cases func) (simp_all add: recorded_def Let_def bits(2) ctx_ok_def empty_ctx_def)
  qed (use words(2) in \<open>simp add: recorded_def Let_def\<close>)
qed

section \<open>The table and the interest list\<close>

definition in_table :: "'cb iomanager \<Rightarrow> int \<Rightarrow> bool" where
  "in_table m fd \<longleftrightarrow> 0 \<le> fd \<and> nat fd < length (mEvents m)"

definition entry :: "'cb iomanager \<Rightarrow> int \<Rightarrow> 'cb event" where
  "entry m fd = mEvents m ! nat fd"

definition waiting :: "'cb iomanager \<Rightarrow> int \<times> u32 \<rightharpoonup> 'cb io_task" where
  "waiting m = (\<lambda>(fd, ev). if in_table m fd \<and> is_event ev then waits ev (entry m fd) else None)"

text \<open>
  What \<open>epoll_ctl\<close> is documented to do: for the descriptors \<open>P\<close> that can be polled, it adds what is
  not registered, and changes and removes what is; it fails otherwise.
\<close>

definition epoll_ok :: "epoll_ctl \<Rightarrow> int set \<Rightarrow> bool" where
  "epoll_ok ctl P \<longleftrightarrow> (\<forall>op fd ev k. ctl op fd ev k =
     (if fd \<notin> P then None
      else case op of
        EPOLL_CTL_ADD \<Rightarrow> if k fd = None then Some (k(fd \<mapsto> ev)) else None
      | EPOLL_CTL_MOD \<Rightarrow> if k fd = None then None else Some (k(fd \<mapsto> ev))
      | EPOLL_CTL_DEL \<Rightarrow> if k fd = None then None else Some (k(fd := None))))"

text \<open>A descriptor is registered when it is waited for, at least for what is waited for.\<close>

definition covers :: "u32 option \<Rightarrow> u32 \<Rightarrow> bool" where
  "covers k w \<longleftrightarrow> (case k of None \<Rightarrow> w = 0 | Some v \<Rightarrow> w \<noteq> 0 \<and> w AND NOT v = 0)"

definition slot_ok :: "int set \<Rightarrow> int \<Rightarrow> u32 option \<Rightarrow> 'cb event \<Rightarrow> bool" where
  "slot_ok P fd k e \<longleftrightarrow> event_ok e \<and> covers k (event e) \<and> (event e \<noteq> 0 \<longrightarrow> fd \<in> P)"

definition io_inv :: "int set \<Rightarrow> 'cb iomanager \<Rightarrow> bool" where
  "io_inv P m \<longleftrightarrow> 128 \<le> length (mEvents m) \<and>
     (\<forall>fd. if in_table m fd then slot_ok P fd (epoll m fd) (entry m fd) else epoll m fd = None)"

lemma io_invD:
  assumes "io_inv P m" and "in_table m fd"
  shows "slot_ok P fd (epoll m fd) (entry m fd)"
  using assms by (auto simp: io_inv_def split: if_splits)

lemma set_slot_ok:
  assumes "io_inv P m" and "in_table m fd" and "slot_ok P fd (k fd) e"
    and "\<And>f. f \<noteq> fd \<Longrightarrow> k f = epoll m f"
  shows "\<exists>m'. set_event fd e (m\<lparr>epoll := k, queue := q\<rparr>) = Inr m' \<and> io_inv P m' \<and> queue m' = q \<and>
    waiting m' = (\<lambda>(f, ev). if f = fd \<and> is_event ev then waits ev e else waiting m (f, ev)) \<and>
    length (mEvents m') = length (mEvents m)"
proof -
  let ?m = "m\<lparr>epoll := k, queue := q, mEvents := (mEvents m)[nat fd := e]\<rparr>"
  have ix: "0 \<le> fd" "nat fd < length (mEvents m)" using assms(2) by (simp_all add: in_table_def)
  have tab: "in_table ?m f = in_table m f" for f by (simp add: in_table_def)
  have slots: "entry ?m f = (if f = fd then e else entry m f)" if "in_table m f" for f
    using that ix by (auto simp: entry_def in_table_def)
  have "io_inv P ?m"
    using assms slots tab unfolding io_inv_def by (auto split: if_splits)
  moreover have "waiting ?m = (\<lambda>(f, ev). if f = fd \<and> is_event ev then waits ev e else waiting m (f, ev))"
    using slots assms(2) tab by (auto simp: waiting_def fun_eq_iff)
  ultimately show ?thesis using ix by (simp add: set_event_def)
qed

lemma set_slot_ok':
  assumes "io_inv P m" and "in_table m fd" and "slot_ok P fd (k fd) e"
    and "\<And>f. f \<noteq> fd \<Longrightarrow> k f = epoll m f"
  shows "\<exists>m'. set_event fd e (m\<lparr>epoll := k\<rparr>) = Inr m' \<and> io_inv P m' \<and> queue m' = queue m \<and>
    waiting m' = (\<lambda>(f, ev). if f = fd \<and> is_event ev then waits ev e else waiting m (f, ev)) \<and>
    length (mEvents m') = length (mEvents m)"
proof -
  have "m\<lparr>epoll := k\<rparr> = m\<lparr>epoll := k, queue := queue m\<rparr>" by simp
  then show ?thesis using set_slot_ok [OF assms, of "queue m"] by metis
qed

text \<open>The calls of \<open>epoll_ctl\<close> succeed where the invariant holds.\<close>

lemma covers_registered: "covers k w \<Longrightarrow> k = None \<longleftrightarrow> w = 0"
  by (auto simp: covers_def split: option.splits)

lemma ctl_add:
  assumes "epoll_ok ctl P" and "fd \<in> P" and "covers (k fd) w"
  shows "ctl (if w = 0 then EPOLL_CTL_ADD else EPOLL_CTL_MOD) fd ev k = Some (k(fd \<mapsto> ev))"
  using assms covers_registered [OF assms(3)] by (auto simp: epoll_ok_def)

lemma ctl_drop:
  assumes "epoll_ok ctl P" and "fd \<in> P" and "covers (k fd) w" and "w \<noteq> 0"
  shows "ctl (if b then EPOLL_CTL_DEL else EPOLL_CTL_MOD) fd ev k = Some (if b then k(fd := None) else k(fd \<mapsto> ev))"
  using assms covers_registered [OF assms(3)] by (auto simp: epoll_ok_def)

lemma ctl_fails: "epoll_ok ctl P \<Longrightarrow> fd \<notin> P \<Longrightarrow> ctl op fd ev k = None"
  by (simp add: epoll_ok_def)

section \<open>Operations keep the invariant\<close>

lemma newEvent_ok: "slot_ok P fd None newEvent" "waits ev newEvent = None"
  by (auto simp: slot_ok_def covers_def newEvent_def event_ok_def ctx_ok_def empty_ctx_def waits_def event_ctx_of_def
      ctx_task_def)

lemma newIOManager_ok:
  "io_inv P (newIOManager slotnum ticktime now)" "waiting (newIOManager slotnum ticktime now) = Map.empty"
  "queue (newIOManager slotnum ticktime now) = []"
  using newEvent_ok
  by (auto simp: io_inv_def newIOManager_def ctxResize_def in_table_def entry_def nth_vec_resize waiting_def fun_eq_iff)

lemma make_room_ok:
  assumes "io_inv P m" and "0 \<le> fd" and "fd < 2 ^ 30"
  shows "\<exists>m'. make_room fd m = Inr m' \<and> io_inv P m' \<and> in_table m' fd \<and> queue m' = queue m \<and> waiting m' = waiting m \<and>
    epoll m' = epoll m \<and> length (mEvents m) \<le> length (mEvents m')"
proof (cases "4 * int (length (mEvents m)) \<le> 5 * fd")
  case True
  let ?n = "nat (fd * 3 div 2)" and ?m = "ctxResize (fd * 3 div 2) m"
  have n: "length (mEvents m) \<le> ?n" "nat fd < ?n" "in_int_range (fd * 3 div 2)"
    using True assms by (auto simp: io_inv_def in_int_range_iff)
  have tab: "in_table ?m f \<longleftrightarrow> 0 \<le> f \<and> nat f < ?n" for f by (simp add: in_table_def ctxResize_def)
  have slots: "entry ?m f = (if in_table m f then entry m f else newEvent)" if "in_table ?m f" for f
    using that n by (auto simp: entry_def tab in_table_def ctxResize_def nth_vec_resize)
  have e: "epoll ?m = epoll m" by (simp add: ctxResize_def)
  have "io_inv P ?m"
    using assms(1) n(1) slots newEvent_ok(1) e unfolding io_inv_def
    by (auto simp: ctxResize_def split: if_splits) (auto simp: in_table_def)
  moreover have "waiting ?m = waiting m"
    using n(1) by (auto simp: waiting_def fun_eq_iff slots newEvent_ok(2)) (auto simp: in_table_def ctxResize_def)
  ultimately show ?thesis using True n assms(2) tab by (simp add: make_room_def) (simp add: ctxResize_def)
qed (use assms in \<open>auto simp: make_room_def in_table_def\<close>)

section \<open>The specification\<close>

text \<open>
  Who waits for what, and the queue.  A second waiter for an event and a waiter for a descriptor
  that cannot be polled are dropped; \<open>Forget\<close> drops the waiters of a descriptor; the others are
  moved to the queue, the reader before the writer.
\<close>

datatype 'cb io_op = Wait int u32 "'cb option" nat | Cancel int u32 | Forget int | Report int u32

type_synonym 'cb io_spec = "(int \<times> u32 \<rightharpoonup> 'cb io_task) \<times> 'cb io_task list"

definition wake :: "int \<Rightarrow> u32 \<Rightarrow> 'cb io_spec \<Rightarrow> 'cb io_spec" where
  "wake fd ev = (\<lambda>(w, q). (w((fd, ev) := None), q @ opt_list (w (fd, ev))))"

fun io_spec_step :: "int set \<Rightarrow> 'cb io_op \<Rightarrow> 'cb io_spec \<Rightarrow> 'cb io_spec" where
  "io_spec_step P (Wait fd ev func cur) (w, q) =
     (if fd \<in> P \<and> w (fd, ev) = None then w((fd, ev) \<mapsto> waiter func cur) else w, q)"
| "io_spec_step P (Cancel fd ev) s = wake fd ev s"
| "io_spec_step P (Forget fd) (w, q) = (w((fd, EPOLLIN) := None, (fd, EPOLLOUT) := None), q)"
| "io_spec_step P (Report fd evs) s =
     (let s = (if evs AND EPOLLIN \<noteq> 0 then wake fd EPOLLIN s else s)
      in if evs AND EPOLLOUT \<noteq> 0 then wake fd EPOLLOUT s else s)"

fun io_step :: "epoll_ctl \<Rightarrow> 'cb io_op \<Rightarrow> 'cb iomanager \<Rightarrow> fault + 'cb iomanager" where
  "io_step ctl (Wait fd ev func cur) m = addEvent ctl fd ev func cur m"
| "io_step ctl (Cancel fd ev) m = cancelEvent ctl fd ev m"
| "io_step ctl (Forget fd) m = delEvent ctl fd m"
| "io_step ctl (Report fd evs) m = handle_ready ctl fd evs m"

fun io_run :: "epoll_ctl \<Rightarrow> 'cb io_op list \<Rightarrow> 'cb iomanager \<Rightarrow> fault + 'cb iomanager" where
  "io_run ctl [] m = Inr m"
| "io_run ctl (p # ps) m = bind_run (io_step ctl p m) (io_run ctl ps)"

text \<open>Descriptors are not negative, and only what was waited for before is reported.\<close>

fun legal :: "int set \<Rightarrow> 'cb io_op list \<Rightarrow> bool" where
  "legal K [] = True"
| "legal K (Wait fd ev func cur # ps) = (0 \<le> fd \<and> fd < 2 ^ 30 \<and> is_event ev \<and> legal (insert fd K) ps)"
| "legal K (Cancel fd ev # ps) = (0 \<le> fd \<and> is_event ev \<and> legal K ps)"
| "legal K (Forget fd # ps) = (0 \<le> fd \<and> legal K ps)"
| "legal K (Report fd evs # ps) = (fd \<in> K \<and> legal K ps)"

definition io_abs :: "'cb iomanager \<Rightarrow> 'cb io_spec" where
  "io_abs m = (waiting m, queue m)"

section \<open>The operations implement it\<close>

lemma in_table_int: "in_table m fd \<Longrightarrow> \<not> int (length (mEvents m)) \<le> fd"
  by (auto simp: in_table_def)

lemma waiting_entry: "in_table m fd \<Longrightarrow> is_event ev \<Longrightarrow> waiting m (fd, ev) = waits ev (entry m fd)"
  by (simp add: waiting_def)

lemma waiting_outside: "\<not> in_table m fd \<Longrightarrow> waiting m (fd, ev) = None"
  by (simp add: waiting_def)

lemma waiting_no_event: "\<not> is_event ev \<Longrightarrow> waiting m (fd, ev) = None"
  by (simp add: waiting_def)

lemma waiting_none:
  assumes "io_inv P m" and "in_table m fd \<Longrightarrow> event (entry m fd) AND ev = 0"
  shows "waiting m (fd, ev) = None"
proof (cases "in_table m fd \<and> is_event ev")
  case True
  then have "event_ok (entry m fd)" using io_invD [OF assms(1)] by (simp add: slot_ok_def)
  from waits_iff [OF this] show ?thesis using True assms(2) by (simp add: waiting_entry)
qed (auto simp: waiting_def)

lemma word_OR_not_0: "w OR ev \<noteq> 0" if "ev \<noteq> 0" for w ev :: u32
proof
  assume "w OR ev = 0"
  then have "(w OR ev) AND ev = 0" by simp
  then show False using that by (simp add: bit.conj_disj_distrib2 ac_simps)
qed

lemma covers_add: "ev \<noteq> 0 \<Longrightarrow> covers (Some (EPOLLET OR ev OR w)) (w OR ev)"
  by (auto simp: covers_def word_OR_not_0 intro!: bit_word_eqI simp: bit_simps)

lemma covers_drop:
  "w AND NOT ev \<noteq> 0 \<Longrightarrow> covers (Some (w OR EPOLLET)) (w AND NOT ev)"
  "w \<noteq> 0 \<Longrightarrow> covers (Some (EPOLLET OR w)) w"
  by (auto simp: covers_def intro!: bit_word_eqI simp: bit_simps)

lemma covers_None [simp]: "covers None w \<longleftrightarrow> w = 0"
  by (simp add: covers_def)

lemma addEvent_ok:
  assumes "epoll_ok ctl P" and "io_inv P m" and "0 \<le> fd" and "fd < 2 ^ 30" and "is_event ev"
  shows "\<exists>m'. addEvent ctl fd ev func cur m = Inr m' \<and> io_inv P m' \<and> in_table m' fd \<and>
    io_abs m' = io_spec_step P (Wait fd ev func cur) (io_abs m) \<and> length (mEvents m) \<le> length (mEvents m')"
proof -
  obtain m1 where m1: "make_room fd m = Inr m1" "io_inv P m1" "in_table m1 fd" "queue m1 = queue m"
      "waiting m1 = waiting m" "length (mEvents m) \<le> length (mEvents m1)"
    using make_room_ok [OF assms(2-4)] by blast
  let ?e = "entry m1 fd"
  have at: "vec_at (mEvents m1) fd = Inr ?e" using m1(3) by (simp add: in_table_def entry_def)
  have s: "slot_ok P fd (epoll m1 fd) ?e" by (rule io_invD [OF m1(2,3)])
  then have e: "event_ok ?e" and cov: "covers (epoll m1 fd) (event ?e)" by (simp_all add: slot_ok_def)
  have w: "waiting m (fd, ev) = None \<longleftrightarrow> event ?e AND ev = 0"
    using waits_iff [OF e assms(5)] waiting_entry [OF m1(3) assms(5)] m1(5) by simp
  show ?thesis
  proof (cases "event ?e AND ev = 0 \<and> fd \<in> P")
    case True
    let ?k = "(epoll m1)(fd \<mapsto> EPOLLET OR ev OR event ?e)"
    note r = record_ok [OF e assms(5), where func = func and cur = cur]
    have "ev \<noteq> 0" using assms(5) by (elim is_eventE) simp_all
    then have ok: "slot_ok P fd (?k fd) (recorded ev func cur ?e)"
      using True r by (simp add: slot_ok_def covers_add)
    obtain m' where m': "set_event fd (recorded ev func cur ?e) (m1\<lparr>epoll := ?k\<rparr>) = Inr m'" "io_inv P m'"
        "queue m' = queue m1" "length (mEvents m') = length (mEvents m1)"
        "waiting m' = (\<lambda>(f, v). if f = fd \<and> is_event v then waits v (recorded ev func cur ?e) else waiting m1 (f, v))"
      using set_slot_ok' [where k = ?k, OF m1(2,3) ok] by auto
    have "waiting m' = (waiting m)((fd, ev) \<mapsto> waiter func cur)"
      unfolding m'(5) m1(5) [symmetric]
      using m1(3) r(3) True assms(5) by (auto simp: fun_eq_iff waiting_entry waiting_no_event)
    moreover have "addEvent ctl fd ev func cur m = Inr m'"
      using True m'(1) m1(1) at assms(5) ctl_add [where fd = fd and k = "epoll m1" and w = "event ?e", OF assms(1) _ cov]
      by (simp add: addEvent_def add_register_def add_record_def recorded_def Let_def)
    ultimately show ?thesis
      using True w m'(2-4) m1(3,4,6) by (simp add: io_abs_def in_table_def)
  next
    case False
    then have "addEvent ctl fd ev func cur m = Inr m1"
      using m1(1) at ctl_fails [OF assms(1)]
      by (auto simp: addEvent_def add_register_def Let_def)
    then show ?thesis using False w m1 by (auto simp: io_abs_def)
  qed
qed

lemma cancelEvent_ok:
  assumes "epoll_ok ctl P" and "io_inv P m" and "0 \<le> fd" and "is_event ev"
  shows "\<exists>m'. cancelEvent ctl fd ev m = Inr m' \<and> io_inv P m' \<and>
    io_abs m' = io_spec_step P (Cancel fd ev) (io_abs m) \<and> length (mEvents m) \<le> length (mEvents m')"
proof (cases "in_table m fd \<and> event (entry m fd) AND ev \<noteq> 0")
  case True
  let ?e = "entry m fd"
  let ?left = "event ?e AND NOT ev"
  let ?k = "if ?left = 0 then (epoll m)(fd := None) else (epoll m)(fd \<mapsto> event ?e OR EPOLLET)"
  have s: "slot_ok P fd (epoll m fd) ?e" using io_invD assms(2) True by blast
  then have e: "event_ok ?e" "covers (epoll m fd) (event ?e)" "event ?e \<noteq> 0" "fd \<in> P"
    using True by (auto simp: slot_ok_def)
  obtain e' where t: "triggerEvent ev ?e = Inr (opt_list (waits ev ?e), e')" "event_ok e'" "waits ev e' = None"
      "\<forall>v. is_event v \<longrightarrow> v \<noteq> ev \<longrightarrow> waits v e' = waits v ?e" "event e' = ?left"
    using trigger_ok [OF e(1) assms(4)] by blast
  have "slot_ok P fd (?k fd) e'" using t e covers_drop(1) by (simp add: slot_ok_def)
  moreover have k: "?k f = epoll m f" if "f \<noteq> fd" for f using that by simp
  moreover note set_slot_ok [where k = ?k and e = e' and q = "queue m @ opt_list (waits ev ?e)", OF assms(2) conjunct1 [OF True] _ k]
  ultimately obtain m' where m': "set_event fd e' (m\<lparr>epoll := ?k, queue := queue m @ opt_list (waits ev ?e)\<rparr>) = Inr m'"
      "io_inv P m'" "queue m' = queue m @ opt_list (waits ev ?e)" "length (mEvents m') = length (mEvents m)"
      "waiting m' = (\<lambda>(f, v). if f = fd \<and> is_event v then waits v e' else waiting m (f, v))"
    by (auto split: if_splits)
  have "waiting m' = (waiting m)((fd, ev) := None)"
    unfolding m'(5) using True t(3,4) assms(4) by (auto simp: fun_eq_iff waiting_entry waiting_no_event)
  moreover have "vec_at (mEvents m) fd = Inr ?e" using True by (simp add: in_table_def entry_def)
  then have "cancelEvent ctl fd ev m = Inr m'"
    using True m'(1) t(1) in_table_int [OF conjunct1 [OF True]] ctl_drop [where b = "?left = 0" and fd = fd and k = "epoll m" and w = "event ?e", OF assms(1) e(4,2,3)]
    by (simp add: cancelEvent_def Let_def)
  ultimately show ?thesis
    using True m'(2-4) assms(4) by (simp add: io_abs_def wake_def waiting_entry)
next
  case False
  have "waiting m (fd, ev) = None"
    by (rule waiting_none [OF assms(2)]) (use False in simp)
  moreover have "cancelEvent ctl fd ev m = Inr m"
    using False assms(3) by (auto simp: cancelEvent_def in_table_def entry_def)
  ultimately show ?thesis using assms(2) by (simp add: io_abs_def wake_def opt_list_def fun_upd_idem)
qed

lemma delEvent_ok:
  assumes "epoll_ok ctl P" and "io_inv P m" and "0 \<le> fd"
  shows "\<exists>m'. delEvent ctl fd m = Inr m' \<and> io_inv P m' \<and>
    io_abs m' = io_spec_step P (Forget fd) (io_abs m) \<and> length (mEvents m) \<le> length (mEvents m')"
proof (cases "in_table m fd \<and> event (entry m fd) \<noteq> 0")
  case True
  let ?e = "entry m fd" and ?k = "(epoll m)(fd := None)"
  let ?e' = "setCtx EPOLLOUT empty_ctx (setCtx EPOLLIN empty_ctx (?e\<lparr>event := 0\<rparr>))"
  have s: "slot_ok P fd (epoll m fd) ?e" using io_invD assms(2) True by blast
  have e': "event_ok ?e'" by (rule event_okI) (auto simp: is_event_def)
  then have "slot_ok P fd (?k fd) ?e'" by (simp add: slot_ok_def)
  moreover have k: "?k f = epoll m f" if "f \<noteq> fd" for f using that by simp
  moreover note set_slot_ok' [where k = ?k and e = ?e', OF assms(2) conjunct1 [OF True] _ k]
  ultimately obtain m' where m': "set_event fd ?e' (m\<lparr>epoll := ?k\<rparr>) = Inr m'"
      "io_inv P m'" "queue m' = queue m" "length (mEvents m') = length (mEvents m)"
      "waiting m' = (\<lambda>(f, v). if f = fd \<and> is_event v then waits v ?e' else waiting m (f, v))"
    by auto
  have "waits v ?e' = None" if "is_event v" for v
    using waits_iff [OF e' that] by simp
  then have "waiting m' = (waiting m)((fd, EPOLLIN) := None, (fd, EPOLLOUT) := None)"
    unfolding m'(5) by (auto simp: fun_eq_iff waiting_no_event elim: is_eventE)
  moreover have "delEvent ctl fd m = Inr m'"
    using True m'(1) s in_table_int [OF conjunct1 [OF True]] ctl_drop [where b = True and fd = fd and k = "epoll m" and w = "event ?e", OF assms(1)]
    by (simp add: delEvent_def in_table_def entry_def event_reset_def slot_ok_def)
  ultimately show ?thesis using m'(2-4) by (simp add: io_abs_def)
next
  case False
  have "waiting m (fd, ev) = None" for ev
    by (rule waiting_none [OF assms(2)]) (use False in simp)
  moreover have "delEvent ctl fd m = Inr m"
    using False assms(3) by (auto simp: delEvent_def in_table_def entry_def)
  ultimately show ?thesis using assms(2) by (simp add: io_abs_def fun_upd_idem)
qed

lemma trigger_if_ok:
  assumes "event_ok e" and "is_event ev"
  obtains e' where
    "(if b then triggerEvent ev e else Inr ([], e)) = Inr (if b then opt_list (waits ev e) else [], e')"
    "event_ok e'" "event e' = event e AND NOT (if b then ev else 0)"
    "\<And>v. is_event v \<Longrightarrow> waits v e' = (if b \<and> v = ev then None else waits v e)"
proof (cases b)
  case True
  from trigger_ok [OF assms] obtain e' where "triggerEvent ev e = Inr (opt_list (waits ev e), e')" "event_ok e'"
      "waits ev e' = None" "\<forall>v. is_event v \<longrightarrow> v \<noteq> ev \<longrightarrow> waits v e' = waits v e" "event e' = event e AND NOT ev"
    by blast
  then show ?thesis using that [of e'] True by auto
qed (use assms that [of e] in simp)

lemma and_bit_mask: "w AND 2 ^ n = (if bit w n then 2 ^ n else 0)" for w :: u32
  by (rule bit_word_eqI) (auto simp: bit_simps)

lemma and_event: "is_event ev \<Longrightarrow> w AND ev = (if w AND ev \<noteq> 0 then ev else 0)" for w :: u32
  using and_bit_mask [of w 0] and_bit_mask [of w 2] by (elim is_eventE) (auto simp: epoll_defs split: if_splits)

lemma real_event_eq:
  "real_event evs = (if evs AND EPOLLIN \<noteq> 0 then EPOLLIN else 0) OR (if evs AND EPOLLOUT \<noteq> 0 then EPOLLOUT else 0)"
  unfolding real_event_def using and_event [of EPOLLIN evs] and_event [of EPOLLOUT evs] by simp

lemma real_event_bits:
  "real_event evs AND EPOLLIN \<noteq> 0 \<longleftrightarrow> evs AND EPOLLIN \<noteq> 0"
  "real_event evs AND EPOLLOUT \<noteq> 0 \<longleftrightarrow> evs AND EPOLLOUT \<noteq> 0"
  by (auto simp: real_event_eq epoll_defs)

lemma handle_ready_ok:
  assumes "epoll_ok ctl P" and "io_inv P m" and "in_table m fd"
  shows "\<exists>m'. handle_ready ctl fd evs m = Inr m' \<and> io_inv P m' \<and>
    io_abs m' = io_spec_step P (Report fd evs) (io_abs m) \<and> length (mEvents m) \<le> length (mEvents m')"
proof -
  let ?e = "entry m fd" and ?in = "evs AND EPOLLIN \<noteq> 0" and ?out = "evs AND EPOLLOUT \<noteq> 0"
  let ?left = "event ?e AND NOT (real_event evs)"
  have at: "vec_at (mEvents m) fd = Inr ?e" using assms(3) by (simp add: in_table_def entry_def)
  have s: "event_ok ?e" "covers (epoll m fd) (event ?e)" "event ?e \<noteq> 0 \<longrightarrow> fd \<in> P"
    using io_invD [OF assms(2,3)] by (simp_all add: slot_ok_def)
  have hit: "event ?e AND real_event evs = 0 \<longleftrightarrow> (?in \<longrightarrow> event ?e AND EPOLLIN = 0) \<and> (?out \<longrightarrow> event ?e AND EPOLLOUT = 0)"
    using event_okD(1) [OF s(1)] by (auto simp: real_event_eq epoll_defs)
  show ?thesis
  proof (cases "event ?e AND real_event evs = 0")
    case True
    then have "waiting m (fd, ev) = None" if "is_event ev" "evs AND ev \<noteq> 0" for ev
      using that hit by (intro waiting_none [OF assms(2)]) (elim is_eventE, simp_all)
    moreover have "handle_ready ctl fd evs m = Inr m" using True at by (simp add: handle_ready_def Let_def)
    ultimately show ?thesis
      using assms(2) by (simp add: io_abs_def wake_def opt_list_def fun_upd_idem Let_def)
  next
    case False
    let ?k = "if ?left = 0 then (epoll m)(fd := None) else (epoll m)(fd \<mapsto> EPOLLET OR ?left)"
    obtain e1 where e1: "(if ?in then triggerEvent EPOLLIN ?e else Inr ([], ?e)) =
          Inr (if ?in then opt_list (waits EPOLLIN ?e) else [], e1)" "event_ok e1"
        "event e1 = event ?e AND NOT (if ?in then EPOLLIN else 0)"
        "\<And>v. is_event v \<Longrightarrow> waits v e1 = (if ?in \<and> v = EPOLLIN then None else waits v ?e)"
      using trigger_if_ok [OF s(1) is_event_simps(1)] by blast
    obtain e2 where e2: "(if ?out then triggerEvent EPOLLOUT e1 else Inr ([], e1)) =
          Inr (if ?out then opt_list (waits EPOLLOUT e1) else [], e2)" "event_ok e2"
        "event e2 = event e1 AND NOT (if ?out then EPOLLOUT else 0)"
        "\<And>v. is_event v \<Longrightarrow> waits v e2 = (if ?out \<and> v = EPOLLOUT then None else waits v e1)"
      using trigger_if_ok [OF e1(2) is_event_simps(2)] by blast
    let ?q = "queue m @ (if ?in then opt_list (waits EPOLLIN ?e) else []) @ (if ?out then opt_list (waits EPOLLOUT e1) else [])"
    have left: "event e2 = ?left"
      by (simp add: e2(3) e1(3) real_event_eq bit.de_Morgan_disj ac_simps)
    have "slot_ok P fd (?k fd) e2"
      using e2(2) left s(3) False covers_drop(2) [of ?left] by (auto simp: slot_ok_def)
    moreover have k: "?k f = epoll m f" if "f \<noteq> fd" for f using that by simp
    moreover note set_slot_ok [where k = ?k and e = e2 and q = ?q, OF assms(2,3) _ k]
    ultimately obtain m' where m': "set_event fd e2 (m\<lparr>epoll := ?k, queue := ?q\<rparr>) = Inr m'"
        "io_inv P m'" "queue m' = ?q" "length (mEvents m') = length (mEvents m)"
        "waiting m' = (\<lambda>(f, v). if f = fd \<and> is_event v then waits v e2 else waiting m (f, v))"
      by (auto split: if_splits)
    have "fst (io_spec_step P (Report fd evs) (io_abs m)) (f, v) = waiting m' (f, v)" for f v
      unfolding m'(5) using assms(3) e2(4) e1(4)
      by (cases "is_event v") (auto simp: io_abs_def wake_def Let_def waiting_entry waiting_no_event elim: is_eventE)
    moreover have "snd (io_spec_step P (Report fd evs) (io_abs m)) = queue m'"
      using assms(3) e1(4) by (simp add: m'(3) io_abs_def wake_def Let_def waiting_entry)
    moreover have "ctl (if ?left = 0 then EPOLL_CTL_DEL else EPOLL_CTL_MOD) fd (EPOLLET OR ?left) (epoll m) = Some ?k"
      using False s by (intro ctl_drop [where fd = fd and k = "epoll m" and w = "event ?e", OF assms(1) _ s(2)]) auto
    then have "handle_ready ctl fd evs m = Inr m'"
      using False at m'(1) e1(1) e2(1) by (simp add: handle_ready_def Let_def real_event_bits)
    ultimately show ?thesis
      using m'(2,4) by (auto simp: io_abs_def prod_eq_iff fun_eq_iff)
  qed
qed

section \<open>Sequences of operations\<close>

lemma io_run_ok:
  assumes "epoll_ok ctl P" and "io_inv P m" and "\<forall>fd\<in>K. in_table m fd" and "legal K ps"
  shows "\<exists>m'. io_run ctl ps m = Inr m' \<and> io_inv P m' \<and> io_abs m' = fold (io_spec_step P) ps (io_abs m)"
  using assms(2-4)
proof (induction ps arbitrary: m K)
  case (Cons p ps)
  define K' where "K' = (case p of Wait fd ev func cur \<Rightarrow> insert fd K | _ \<Rightarrow> K)"
  have "\<exists>m'. io_step ctl p m = Inr m' \<and> io_inv P m' \<and> io_abs m' = io_spec_step P p (io_abs m) \<and>
      length (mEvents m) \<le> length (mEvents m') \<and> (\<forall>fd ev func cur. p = Wait fd ev func cur \<longrightarrow> in_table m' fd)"
    using Cons.prems addEvent_ok [OF assms(1) Cons.prems(1)] cancelEvent_ok [OF assms(1) Cons.prems(1)]
      delEvent_ok [OF assms(1) Cons.prems(1)] handle_ready_ok [OF assms(1) Cons.prems(1)]
    by (cases p) (simp_all, blast+)
  then obtain m' where m': "io_step ctl p m = Inr m'" "io_inv P m'" "io_abs m' = io_spec_step P p (io_abs m)"
      "length (mEvents m) \<le> length (mEvents m')" "\<forall>fd ev func cur. p = Wait fd ev func cur \<longrightarrow> in_table m' fd"
    by blast
  have "\<forall>fd\<in>K'. in_table m' fd" "legal K' ps"
    using Cons.prems(2,3) m'(4,5) by (auto simp: K'_def in_table_def split: io_op.splits)
  from Cons.IH [OF m'(2) this] m'(1,3) show ?case by simp
qed simp

text \<open>
  C10. Waiting and waking.  Against the documented \<open>epoll_ctl\<close>, any sequence of \<open>addEvent\<close>,
  \<open>cancelEvent\<close>, \<open>delEvent\<close> and readiness reports on a new manager runs without fault and
  implements the map of waiters: the first to wait for an event of a descriptor is put into the queue
  once, by the first report or cancellation of that event; a second waiter for it is dropped, and
  \<open>delEvent\<close> drops the waiters without putting them into the queue.
\<close>

theorem waiters_refine_map:
  assumes "epoll_ok ctl P" and "legal {} ps"
  shows "\<exists>m. io_run ctl ps (newIOManager slotnum ticktime now) = Inr m \<and>
    (waiting m, queue m) = fold (io_spec_step P) ps (Map.empty, [])"
proof -
  obtain m where "io_run ctl ps (newIOManager slotnum ticktime now) = Inr m"
      "io_abs m = fold (io_spec_step P) ps (io_abs (newIOManager slotnum ticktime now))"
    using io_run_ok [where m = "newIOManager slotnum ticktime now", OF assms(1) newIOManager_ok(1) _ assms(2)] by auto
  then show ?thesis by (auto simp: io_abs_def newIOManager_ok)
qed

definition simple_epoll :: epoll_ctl where
  "simple_epoll op fd ev k =
     (if fd \<le> 2 then None
      else case op of
        EPOLL_CTL_ADD \<Rightarrow> if k fd = None then Some (k(fd \<mapsto> ev)) else None
      | EPOLL_CTL_MOD \<Rightarrow> if k fd = None then None else Some (k(fd \<mapsto> ev))
      | EPOLL_CTL_DEL \<Rightarrow> if k fd = None then None else Some (k(fd := None)))"

lemma simple_epoll_ok: "epoll_ok simple_epoll {3..}"
  by (simp add: epoll_ok_def simple_epoll_def not_le)

theorem waiters_refine_map_witness:
  "\<exists>m :: unit iomanager. io_run simple_epoll
      [Wait 5 EPOLLIN None 1, Wait 5 EPOLLOUT (Some ()) 2, Wait 5 EPOLLIN None 3, Report 5 5, Cancel 5 EPOLLIN]
      (newIOManager 60 1000 0) = Inr m \<and> queue m = [Run_Fiber 1, Run_Cb ()]"
proof -
  have "legal {} [Wait 5 EPOLLIN None 1, Wait 5 EPOLLOUT (Some ()) 2, Wait 5 EPOLLIN None 3, Report 5 5, Cancel 5 EPOLLIN]"
    by simp
  from waiters_refine_map [OF simple_epoll_ok this, of 60 1000 0] show ?thesis
    by (auto simp: wake_def waiter_def opt_list_def epoll_defs)
qed

section \<open>An event between registration and record\<close>

text \<open>
  C37. \<open>addEvent\<close> registers the descriptor with \<open>epoll\<close> before it records the waiter, and takes the
  lock only for the second part.  When another thread handles the readiness in between, nothing is
  put into the queue; the waiter is recorded afterwards and, as \<open>epoll\<close> reports an edge once, waits
  for an event that has passed.
\<close>

theorem wakeup_lost_in_between:
  assumes "epoll_ok ctl P" and "io_inv P m" and "0 \<le> fd" and "fd < 2 ^ 30" and "is_event ev" and "fd \<in> P"
    and "waiting m (fd, ev) = None"
  shows "\<exists>m1 m2 m3. add_register ctl fd ev m = Inr (True, m1) \<and> handle_ready ctl fd ev m1 = Inr m2 \<and>
    add_record fd ev func cur m2 = Inr m3 \<and> queue m3 = queue m \<and> waiting m3 (fd, ev) = Some (waiter func cur)"
proof -
  obtain m1 where m1: "make_room fd m = Inr m1" "io_inv P m1" "in_table m1 fd" "queue m1 = queue m"
      "waiting m1 = waiting m"
    using make_room_ok [OF assms(2-4)] by blast
  let ?e = "entry m1 fd" and ?k = "(epoll m1)(fd \<mapsto> EPOLLET OR ev OR event (entry m1 fd))"
  have at: "vec_at (mEvents m1) fd = Inr ?e" using m1(3) by (simp add: in_table_def entry_def)
  have s: "event_ok ?e" "covers (epoll m1 fd) (event ?e)" using io_invD [OF m1(2,3)] by (simp_all add: slot_ok_def)
  have free: "event ?e AND ev = 0"
    using waits_iff [OF s(1) assms(5)] waiting_entry [OF m1(3) assms(5)] m1(5) assms(7) by simp
  note r = record_ok [OF s(1) assms(5) free, where func = func and cur = cur]
  have "ev \<noteq> 0" using assms(5) by (elim is_eventE) simp_all
  then have "slot_ok P fd (?k fd) (recorded ev func cur ?e)"
    using assms(6) r by (simp add: slot_ok_def covers_add)
  from set_slot_ok' [where k = ?k, OF m1(2,3) this] obtain m3 where
    m3: "set_event fd (recorded ev func cur ?e) (m1\<lparr>epoll := ?k\<rparr>) = Inr m3" "queue m3 = queue m1"
      "waiting m3 (fd, ev) = waits ev (recorded ev func cur ?e)"
    using assms(5) by auto
  have real: "real_event ev = ev" using assms(5) by (elim is_eventE) (simp_all add: real_event_def epoll_defs)
  have "add_register ctl fd ev m = Inr (True, m1\<lparr>epoll := ?k\<rparr>)"
    using m1(1) at free ctl_add [where fd = fd and k = "epoll m1" and w = "event ?e", OF assms(1,6) s(2)]
    by (simp add: add_register_def Let_def)
  moreover have "handle_ready ctl fd ev (m1\<lparr>epoll := ?k\<rparr>) = Inr (m1\<lparr>epoll := ?k\<rparr>)"
    using at free real by (simp add: handle_ready_def)
  moreover have "add_record fd ev func cur (m1\<lparr>epoll := ?k\<rparr>) = Inr m3"
    using m3(1) at assms(5) by (simp add: add_record_def recorded_def Let_def)
  ultimately show ?thesis using m3(2,3) m1(4) r(3) [OF assms(5)] by auto
qed

theorem wakeup_lost_in_between_witness:
  "\<exists>m1 m2 m3. add_register simple_epoll 7 EPOLLIN (newIOManager 60 1000 0 :: unit iomanager) = Inr (True, m1) \<and>
     handle_ready simple_epoll 7 EPOLLIN m1 = Inr m2 \<and> add_record 7 EPOLLIN None 4 m2 = Inr m3 \<and> queue m3 = [] \<and>
     waiting m3 (7, EPOLLIN) = Some (Run_Fiber 4)"
  using wakeup_lost_in_between [OF simple_epoll_ok newIOManager_ok(1) [of _ 60 1000 0, where 'a = unit],
      of 7 EPOLLIN None 4]
  by (simp add: newIOManager_ok waiter_def)

section \<open>A turn of the event loop\<close>

fun report_ops :: "report list \<Rightarrow> 'cb io_op list" where
  "report_ops [] = []"
| "report_ops (Wakeup # rs) = report_ops rs"
| "report_ops (Fd_Ready fd evs # rs) = Report fd evs # report_ops rs"

lemma handle_all_run: "handle_all ctl m rs = io_run ctl (report_ops rs) m"
proof (induction ctl m rs rule: handle_all.induct)
  case (3 ctl m fd evs rs)
  then show ?case by (cases "handle_ready ctl fd evs m") simp_all
qed simp_all

lemma report_ops_legal: "\<forall>fd evs. Fd_Ready fd evs \<in> set rs \<longrightarrow> fd \<in> K \<Longrightarrow> legal K (report_ops rs)"
  by (induction rs rule: report_ops.induct) auto

lemma set_event_timers: "set_event fd e m = Inr m' \<Longrightarrow> mTimerManager m' = mTimerManager m"
  by (auto simp: set_event_def bind_run_Inr_iff)

lemma handle_ready_timers: "handle_ready ctl fd evs m = Inr m' \<Longrightarrow> mTimerManager m' = mTimerManager m"
  by (auto simp: handle_ready_def Let_def bind_run_Inr_iff split: if_splits option.splits dest!: set_event_timers)

lemma handle_all_timers: "handle_all ctl m rs = Inr m' \<Longrightarrow> mTimerManager m' = mTimerManager m"
  by (induction ctl m rs rule: handle_all.induct) (auto simp: bind_run_Inr_iff dest: handle_ready_timers)

definition timer_tasks :: "u64 \<Rightarrow> 'cb timer_mgr \<Rightarrow> 'cb io_task list" where
  "timer_tasks now tm = (if ticking tm now then map (\<lambda>t. Run_Cb (cb_of tm t)) (due tm) else [])"

lemma run_timers_ok:
  assumes "wheel_wf (mTimerManager m)" and "io_inv P m"
  shows "\<exists>m'. run_timers now1 now2 m = Inr (mTickTime (mTimerManager m'), m') \<and> io_inv P m' \<and> waiting m' = waiting m \<and>
    queue m' = queue m @ timer_tasks now1 (mTimerManager m) \<and> wheel_wf (mTimerManager m')"
proof -
  obtain cbs tm where t: "tick (mTimerManager m) now1 now2 = Inr (cbs, tm)" using tick_total [OF assms(1)] by blast
  then have "map Run_Cb cbs = timer_tasks now1 (mTimerManager m)"
    using tick_cbs [OF assms(1) _ t] tick_idle [of "mTimerManager m" now1 now2] by (auto simp: timer_tasks_def)
  moreover have "io_inv P (m\<lparr>mTimerManager := tm, queue := q\<rparr>) \<and> waiting (m\<lparr>mTimerManager := tm, queue := q\<rparr>) = waiting m" for q
  proof -
    let ?m = "m\<lparr>mTimerManager := tm, queue := q\<rparr>"
    have "in_table ?m = in_table m" "entry ?m = entry m" by (simp_all add: in_table_def entry_def fun_eq_iff)
    then show ?thesis using assms(2) by (auto simp: io_inv_def waiting_def fun_eq_iff)
  qed
  ultimately show ?thesis using t tick_wf [OF assms(1) t] by (simp add: run_timers_def)
qed

text \<open>
  C11. One turn of the event loop.  When \<open>epoll_wait\<close> reports descriptors of the table, the turn runs
  without fault: it moves the waiters of the reported events into the queue in the order of the
  reports and, exactly when nothing was reported or the waiting time is used up, the callbacks of the
  due timers behind them; the table and the timing wheel stay well formed.
\<close>

theorem idle_turn_wakes:
  assumes "epoll_ok ctl P" and "io_inv P m" and "wheel_wf (mTimerManager m)"
    and "\<forall>fd evs. Fd_Ready fd evs \<in> set rs \<longrightarrow> in_table m fd"
  shows "\<exists>w' m' w q. idle_turn ctl (Ready rs) begin_ms end_ms now1 now2 (waitTime, m) = Inr (Some (w', m')) \<and>
    io_inv P m' \<and> wheel_wf (mTimerManager m') \<and> (w, q) = fold (io_spec_step P) (report_ops rs) (waiting m, queue m) \<and>
    waiting m' = w \<and>
    queue m' = q @ (if rs = [] \<or> int_of_u64 (of_int waitTime - (end_ms - begin_ms)) \<le> 0
                    then timer_tasks now1 (mTimerManager m) else [])"
proof -
  obtain m1 where m1: "handle_all ctl m rs = Inr m1" "io_inv P m1"
      "io_abs m1 = fold (io_spec_step P) (report_ops rs) (io_abs m)"
    using io_run_ok [OF assms(1,2) _ report_ops_legal, of "Collect (in_table m)" rs] assms(4)
    by (auto simp: handle_all_run)
  have wf: "wheel_wf (mTimerManager m1)" "mTimerManager m1 = mTimerManager m"
    using handle_all_timers [OF m1(1)] assms(3) by simp_all
  obtain m2 where "run_timers now1 now2 m1 = Inr (mTickTime (mTimerManager m2), m2)" "io_inv P m2" "waiting m2 = waiting m1"
      "queue m2 = queue m1 @ timer_tasks now1 (mTimerManager m1)" "wheel_wf (mTimerManager m2)"
    using run_timers_ok [OF wf(1) m1(2), of now1 now2] by blast
  note m2 = this
  have spec: "(waiting m1, queue m1) = fold (io_spec_step P) (report_ops rs) (waiting m, queue m)"
    using m1(3) by (simp add: io_abs_def)
  show ?thesis
  proof (cases "rs = [] \<or> int_of_u64 (of_int waitTime - (end_ms - begin_ms)) \<le> 0")
    case True
    then have "idle_turn ctl (Ready rs) begin_ms end_ms now1 now2 (waitTime, m) = Inr (Some (mTickTime (mTimerManager m2), m2))"
      using m1(1) m2(1) by (cases rs) (simp_all add: idle_turn_def Let_def)
    then show ?thesis using m2 wf(2) spec True by auto
  next
    case False
    then have "idle_turn ctl (Ready rs) begin_ms end_ms now1 now2 (waitTime, m) =
        Inr (Some (int_of_u64 (of_int waitTime - (end_ms - begin_ms)), m1))"
      using m1(1) by (cases rs) (simp_all add: idle_turn_def Let_def)
    then show ?thesis using m1(2) wf(1) spec False by auto
  qed
qed

lemma newIOManager_timers: "mTimerManager (newIOManager slotnum ticktime now) = newTimerManager slotnum ticktime now"
  by (simp add: newIOManager_def ctxResize_def)

theorem idle_turn_wakes_witness:
  "\<exists>w' m'. idle_turn simple_epoll (Ready [Wakeup, Fd_Ready 5 1]) 0 300 200 200 (200, newIOManager 60 200 0 :: unit iomanager) =
     Inr (Some (w', m')) \<and> queue m' = []"
proof -
  let ?m = "newIOManager 60 200 0 :: unit iomanager"
  have "wheel_wf (mTimerManager ?m)" "timer_tasks 200 (mTimerManager ?m) = []"
    using newTimerManager_wf [of 60 200 0, where 'a = unit]
    by (simp_all add: newIOManager_timers timer_tasks_def due_def newTimerManager_def)
  moreover have "in_table ?m 5" by (simp add: in_table_def newIOManager_def ctxResize_def)
  ultimately show ?thesis
    using idle_turn_wakes [of simple_epoll "{3..}" ?m "[Wakeup, Fd_Ready 5 1]" 0 300 200 200 200, OF simple_epoll_ok
        newIOManager_ok(1)]
    by (auto simp: newIOManager_ok(2,3) wake_def opt_list_def epoll_defs)
qed

end
