(* ===== verification/Hook.thy ===== *)
theory Hook
  imports Fd_Manager Io_Manager
begin

text \<open>
  The hooked system calls of \<open>src/hook/hook.cpp\<close>, over the descriptor table and the IO manager.

  What the original functions return comes from a script.  A call that has to wait gives the fiber
  away at \<open>yieldToHold\<close>: it returns \<open>Asleep\<close>, and \<open>io_resume\<close> is the rest of it after the fiber has been
  resumed.  The local variable \<open>cancel\<close> of a call, which the timer's callback writes, is
  \<open>cancelled w f\<close> for the frame \<open>f\<close>; \<open>frames w\<close> are the frames of calls that have not returned.
\<close>

section \<open>State\<close>

text \<open>On this platform \<open>EWOULDBLOCK\<close> is \<open>EAGAIN\<close>.\<close>

datatype errno = EINTR | EAGAIN | EBADF | ETIMEDOUT | Other_Errno int

datatype sys_result = Ret int | Fail errno

datatype hook_cb = Timeout nat int u32 | Wake nat | User nat

record world =
  iom :: "hook_cb iomanager"
  fdm :: fd_mgr
  frames :: "nat set"
  cancelled :: "nat \<Rightarrow> bool"

datatype io_outcome = Result sys_result | Calling | Asleep "nat option"

text \<open>The variables of a call of \<open>io_func\<close>: its frame, the fiber, the descriptor, the event and \<open>to\<close>.\<close>

record io_frame =
  io_id :: nat
  io_cur :: nat
  io_fd :: int
  io_event :: u32
  io_to :: int

definition RECV :: int where "RECV = 0"
definition SEND :: int where "SEND = 1"

section \<open>The retry loop\<close>

text \<open>A call that is repeated while it is interrupted; \<open>None\<close>: the script ends during the call.\<close>

fun call_func :: "sys_result list \<Rightarrow> (sys_result \<times> sys_result list) option" where
  "call_func [] = None"
| "call_func (r # rs) = (if r = Fail EINTR then call_func rs else Some (r, rs))"

definition end_frame :: "io_frame \<Rightarrow> world \<Rightarrow> world" where
  "end_frame fr w = w\<lparr>frames := frames w - {io_id fr}\<rparr>"

text \<open>The timer of a call that has a timeout; \<open>to * 1000\<close> is an \<open>int\<close>.\<close>

definition arm_timer :: "io_frame \<Rightarrow> hook_cb iomanager \<Rightarrow> fault + nat option \<times> hook_cb iomanager" where
  "arm_timer fr m =
     (if io_to fr \<noteq> -1
      then if in_int_range (io_to fr * 1000)
           then bind_run (io_addTimer (io_to fr * 1000) (Timeout (io_id fr) (io_fd fr) (io_event fr)) False m)
                  (\<lambda>(t, m). Inr (Some t, m))
           else Inl Signed_Overflow
      else Inr (None, m))"

text \<open>From the label \<open>Retry\<close> to the return or to the yield.\<close>

definition io_attempt ::
  "epoll_ctl \<Rightarrow> io_frame \<Rightarrow> sys_result list \<Rightarrow> world \<Rightarrow> fault + io_outcome \<times> sys_result list \<times> world" where
  "io_attempt ctl fr rs w =
     (case call_func rs of
        None \<Rightarrow> Inr (Calling, [], w)
      | Some (r, rs) \<Rightarrow>
          if r \<noteq> Fail EAGAIN then Inr (Result r, rs, end_frame fr w)
          else let w = w\<lparr>cancelled := (cancelled w)(io_id fr := False)\<rparr>
               in bind_run (arm_timer fr (iom w)) (\<lambda>(timer, m).
                    bind_run (addEvent ctl (io_fd fr) (io_event fr) None (io_cur fr) m) (\<lambda>m.
                      Inr (Asleep timer, rs, w\<lparr>iom := m\<rparr>))))"

text \<open>After the yield.\<close>

definition io_resume ::
  "epoll_ctl \<Rightarrow> io_frame \<Rightarrow> nat option \<Rightarrow> sys_result list \<Rightarrow> world \<Rightarrow> fault + io_outcome \<times> sys_result list \<times> world" where
  "io_resume ctl fr timer rs w =
     bind_run (case timer of None \<Rightarrow> Inr (iom w) | Some t \<Rightarrow> io_delTimer t (iom w)) (\<lambda>m.
       let w = w\<lparr>iom := m\<rparr>
       in if cancelled w (io_id fr) then Inr (Result (Fail ETIMEDOUT), rs, end_frame fr w)
          else io_attempt ctl fr rs w)"

definition plain_call :: "sys_result list \<Rightarrow> world \<Rightarrow> fault + io_outcome \<times> sys_result list \<times> world" where
  "plain_call rs w = (case rs of [] \<Rightarrow> Inr (Calling, [], w) | r # rs \<Rightarrow> Inr (Result r, rs, w))"

definition io_func ::
  "epoll_ctl \<Rightarrow> (int \<Rightarrow> bool option) \<Rightarrow> nat \<Rightarrow> nat \<Rightarrow> int \<Rightarrow> u32 \<Rightarrow> int \<Rightarrow> sys_result list \<Rightarrow> world \<Rightarrow>
     fault + io_outcome \<times> sys_result list \<times> world" where
  "io_func ctl kstat f cur fd ev type rs w =
     bind_run (fd_get kstat (fdm w) fd False) (\<lambda>(p, d). let w = w\<lparr>fdm := d\<rparr> in
       (case p of
          None \<Rightarrow> plain_call rs w
        | Some p \<Rightarrow>
            let ctx = ctxs (fdm w) ! p
            in if isClose ctx then Inr (Result (Fail EBADF), rs, w)
               else if \<not> isSocket ctx then plain_call rs w
               else io_attempt ctl \<lparr>io_id = f, io_cur = cur, io_fd = fd, io_event = ev, io_to = getTimeOut ctx type\<rparr> rs
                      (w\<lparr>frames := insert f (frames w)\<rparr>)))"

section \<open>The hooks\<close>

datatype hook_fun = Accept | Read | Readv | Recv | Recvfrom | Recvmsg | Write | Writev | Send | Sendto | Sendmsg

definition hook_params :: "hook_fun \<Rightarrow> u32 \<times> int" where
  "hook_params h =
     (if h \<in> {Accept, Read, Readv, Recv, Recvfrom, Recvmsg} then (EPOLLIN, RECV) else (EPOLLOUT, SEND))"

text \<open>An accepted descriptor gets a context, here and when the call returns after a wait.\<close>

definition hook_done ::
  "(int \<Rightarrow> bool option) \<Rightarrow> hook_fun \<Rightarrow> io_outcome \<times> sys_result list \<times> world \<Rightarrow> fault + io_outcome \<times> sys_result list \<times> world" where
  "hook_done kstat h = (\<lambda>(out, rs, w).
     (case out of
        Result (Ret n) \<Rightarrow>
          if h = Accept \<and> 0 \<le> n
          then bind_run (fd_get kstat (fdm w) n True) (\<lambda>(p, d). Inr (out, rs, w\<lparr>fdm := d\<rparr>))
          else Inr (out, rs, w)
      | _ \<Rightarrow> Inr (out, rs, w)))"

definition hooked ::
  "epoll_ctl \<Rightarrow> (int \<Rightarrow> bool option) \<Rightarrow> hook_fun \<Rightarrow> nat \<Rightarrow> nat \<Rightarrow> int \<Rightarrow> sys_result list \<Rightarrow> world \<Rightarrow>
     fault + io_outcome \<times> sys_result list \<times> world" where
  "hooked ctl kstat h f cur fd rs w =
     (let (ev, type) = hook_params h
      in bind_run (io_func ctl kstat f cur fd ev type rs w) (hook_done kstat h))"

definition hook_socket :: "(int \<Rightarrow> bool option) \<Rightarrow> sys_result \<Rightarrow> world \<Rightarrow> fault + sys_result \<times> world" where
  "hook_socket kstat r w =
     (case r of
        Fail e \<Rightarrow> Inr (r, w)
      | Ret fd \<Rightarrow> bind_run (fd_get kstat (fdm w) fd True) (\<lambda>(p, d). Inr (r, w\<lparr>fdm := d\<rparr>)))"

definition hook_close ::
  "epoll_ctl \<Rightarrow> (int \<Rightarrow> bool option) \<Rightarrow> int \<Rightarrow> sys_result \<Rightarrow> world \<Rightarrow> fault + sys_result \<times> world" where
  "hook_close ctl kstat fd r w =
     bind_run (fd_get kstat (fdm w) fd False) (\<lambda>(p, d).
       case p of
         None \<Rightarrow> Inr (r, w\<lparr>fdm := d\<rparr>)
       | Some _ \<Rightarrow> bind_run (delEvent ctl fd (iom w)) (\<lambda>m. bind_run (fd_del d fd) (\<lambda>d. Inr (r, w\<lparr>iom := m, fdm := d\<rparr>))))"

text \<open>\<open>seconds * 1000\<close> is unsigned and becomes the \<open>int\<close> of \<open>addTimer\<close>; then the fiber yields.\<close>

definition hook_sleep :: "nat \<Rightarrow> u32 \<Rightarrow> world \<Rightarrow> fault + world" where
  "hook_sleep cur seconds w =
     bind_run (io_addTimer (sint (seconds * 1000)) (Wake cur) False (iom w)) (\<lambda>(t, m). Inr (w\<lparr>iom := m\<rparr>))"

text \<open>What a worker does with a callback from the queue.\<close>

definition run_hook_cb :: "epoll_ctl \<Rightarrow> hook_cb \<Rightarrow> world \<Rightarrow> fault + world" where
  "run_hook_cb ctl c w =
     (case c of
        Timeout f fd ev \<Rightarrow>
          if f \<notin> frames w then Inl Dangling
          else bind_run (cancelEvent ctl fd ev (iom w)) (\<lambda>m. Inr (w\<lparr>iom := m, cancelled := (cancelled w)(f := True)\<rparr>))
      | Wake f \<Rightarrow> Inr (w\<lparr>iom := (iom w)\<lparr>queue := queue (iom w) @ [Run_Fiber f]\<rparr>\<rparr>)
      | User _ \<Rightarrow> Inr w)"

section \<open>Frames of the operations\<close>

lemma io_frame:
  "io_inv P (m\<lparr>timerCnt := c, mTimerManager := tm\<rparr>) \<longleftrightarrow> io_inv P m"
  "waiting (m\<lparr>timerCnt := c, mTimerManager := tm\<rparr>) = waiting m"
proof -
  let ?m = "m\<lparr>timerCnt := c, mTimerManager := tm\<rparr>"
  have "in_table ?m = in_table m" "entry ?m = entry m" by (simp_all add: in_table_def entry_def fun_eq_iff)
  then show "io_inv P ?m \<longleftrightarrow> io_inv P m" "waiting ?m = waiting m"
    by (auto simp: io_inv_def waiting_def fun_eq_iff)
qed

lemma set_event_frame:
  "set_event fd e m = Inr m' \<Longrightarrow> mTimerManager m' = mTimerManager m \<and> timerCnt m' = timerCnt m"
  by (auto simp: set_event_def bind_run_Inr_iff)

lemma make_room_frame:
  "make_room fd m = Inr m' \<Longrightarrow> mTimerManager m' = mTimerManager m \<and> timerCnt m' = timerCnt m"
  by (auto simp: make_room_def ctxResize_def split: if_splits)

lemma addEvent_frame:
  "addEvent ctl fd ev func cur m = Inr m' \<Longrightarrow> mTimerManager m' = mTimerManager m \<and> timerCnt m' = timerCnt m"
  by (auto simp: addEvent_def add_register_def add_record_def Let_def bind_run_Inr_iff split: if_splits option.splits
      dest!: set_event_frame make_room_frame)

lemma cancelEvent_frame:
  "cancelEvent ctl fd ev m = Inr m' \<Longrightarrow> mTimerManager m' = mTimerManager m \<and> timerCnt m' = timerCnt m"
  by (auto simp: cancelEvent_def Let_def bind_run_Inr_iff split: if_splits option.splits dest!: set_event_frame)

lemma handle_ready_frame:
  "handle_ready ctl fd evs m = Inr m' \<Longrightarrow> mTimerManager m' = mTimerManager m \<and> timerCnt m' = timerCnt m"
  by (auto simp: handle_ready_def Let_def bind_run_Inr_iff split: if_splits option.splits dest!: set_event_frame)

section \<open>A call that waits\<close>

text \<open>A descriptor the hooks manage, with its timeout for the direction of the call.\<close>

definition managed :: "world \<Rightarrow> int \<Rightarrow> int \<Rightarrow> int \<Rightarrow> bool" where
  "managed w fd type to \<longleftrightarrow> fdmgr_wf (fdm w) \<and> 0 \<le> fd \<and> fd < 2 ^ 30 \<and>
     (case fd_lookup (fdm w) fd of None \<Rightarrow> False
      | Some p \<Rightarrow> \<not> isClose (ctxs (fdm w) ! p) \<and> isSocket (ctxs (fdm w) ! p) \<and> getTimeOut (ctxs (fdm w) ! p) type = to)"

definition world_ok :: "int set \<Rightarrow> world \<Rightarrow> bool" where
  "world_ok P w \<longleftrightarrow> io_inv P (iom w) \<and> wheel_wf (mTimerManager (iom w))"

definition timeout_ok :: "int \<Rightarrow> bool" where
  "timeout_ok to \<longleftrightarrow> to = -1 \<or> (0 \<le> to \<and> to \<le> 2147483)"

lemma hook_event: "hook_params h = (ev, type) \<Longrightarrow> is_event ev"
  by (auto simp: hook_params_def split: if_splits)

lemma call_func_retry: "r \<noteq> Fail EINTR \<Longrightarrow> call_func (replicate k (Fail EINTR) @ r # rs) = Some (r, rs)"
  by (induction k) auto

lemma io_func_managed:
  assumes "managed w fd type to"
  shows "io_func ctl kstat f cur fd ev type rs w =
    io_attempt ctl \<lparr>io_id = f, io_cur = cur, io_fd = fd, io_event = ev, io_to = to\<rparr> rs (w\<lparr>frames := insert f (frames w)\<rparr>)"
proof -
  have "fd_get kstat (fdm w) fd False = Inr (fd_lookup (fdm w) fd, fdm w)"
    using assms by (intro fd_get_plain) (simp_all add: managed_def)
  then show ?thesis using assms by (auto simp: io_func_def managed_def split: option.splits)
qed

text \<open>
  The timer a call has armed, from the wheel \<open>m\<close> to the wheel \<open>m'\<close>: a new one with the callback of
  this call, due after the timeout of the call; the other timers are due as before.
\<close>

definition armed :: "io_frame \<Rightarrow> hook_cb timer_mgr \<Rightarrow> nat option \<Rightarrow> hook_cb timer_mgr \<Rightarrow> bool" where
  "armed fr m timer m' \<longleftrightarrow> (case timer of
     None \<Rightarrow> io_to fr = -1 \<and> m' = m
   | Some t \<Rightarrow> io_to fr \<noteq> -1 \<and> t = length (timers m) \<and> t < length (timers m') \<and>
       cb_of m' t = Timeout (io_id fr) (io_fd fr) (io_event fr) \<and>
       (\<forall>u d. pending m' u d \<longleftrightarrow> pending m u d \<or> u = t \<and> d = (io_to fr * 1000 div mTickTime m) mod mSlotNum m))"

lemma arm_timer_arms:
  assumes "io_inv P m" and wf: "wheel_wf (mTimerManager m)" and "timeout_ok (io_to fr)"
  shows "\<exists>timer m0. arm_timer fr m = Inr (timer, m0) \<and> io_inv P m0 \<and> waiting m0 = waiting m \<and> queue m0 = queue m \<and>
    wheel_wf (mTimerManager m0) \<and> timerCnt m0 = timerCnt m + of_bool (timer \<noteq> None) \<and>
    armed fr (mTimerManager m) timer (mTimerManager m0)"
proof (cases "io_to fr = -1")
  case True
  then show ?thesis using assms(1,2) by (simp add: arm_timer_def armed_def)
next
  case False
  have tm: "timing_ok (io_to fr * 1000)" using False assms(3) by (auto simp: timeout_ok_def INT_MAX_def)
  let ?cb = "Timeout (io_id fr) (io_fd fr) (io_event fr)"
  note res = addTimer_result [OF wf tm, of ?cb False]
  let ?m0 = "m\<lparr>timerCnt := timerCnt m + 1, mTimerManager := snd (projr (addTimer (mTimerManager m) (io_to fr * 1000) ?cb False))\<rparr>"
  have "arm_timer fr m = Inr (Some (length (timers (mTimerManager m))), ?m0)"
    using False assms(3) res by (auto simp: arm_timer_def io_addTimer_def timeout_ok_def in_int_range_iff)
  moreover have "armed fr (mTimerManager m) (Some (length (timers (mTimerManager m)))) (mTimerManager ?m0)"
    using False res addTimer_pending [OF wf tm res] by (simp add: armed_def cb_of_def)
  moreover have "wheel_wf (mTimerManager ?m0)" using addTimer_wf [OF wf tm res] res by simp
  ultimately show ?thesis using assms(1)
    by (intro exI [of _ "Some (length (timers (mTimerManager m)))"] exI [of _ ?m0]) (simp add: io_frame)
qed

lemma io_attempt_waits:
  assumes "epoll_ok ctl P" and "world_ok P w" and "call_func rs = Some (Fail EAGAIN, rs')"
    and "0 \<le> io_fd fr" and "io_fd fr < 2 ^ 30" and "is_event (io_event fr)" and "io_fd fr \<in> P"
    and "waiting (iom w) (io_fd fr, io_event fr) = None" and "timeout_ok (io_to fr)"
  shows "\<exists>timer m. io_attempt ctl fr rs w = Inr (Asleep timer, rs', w\<lparr>cancelled := (cancelled w)(io_id fr := False), iom := m\<rparr>) \<and>
    io_inv P m \<and> wheel_wf (mTimerManager m) \<and> in_table m (io_fd fr) \<and>
    waiting m = (waiting (iom w))((io_fd fr, io_event fr) \<mapsto> Run_Fiber (io_cur fr)) \<and> queue m = queue (iom w) \<and>
    timerCnt m = timerCnt (iom w) + of_bool (timer \<noteq> None) \<and>
    armed fr (mTimerManager (iom w)) timer (mTimerManager m)"
proof -
  obtain timer m0 where m0: "arm_timer fr (iom w) = Inr (timer, m0)"
      "io_inv P m0" "waiting m0 = waiting (iom w)" "queue m0 = queue (iom w)" "wheel_wf (mTimerManager m0)"
      "timerCnt m0 = timerCnt (iom w) + of_bool (timer \<noteq> None)" "armed fr (mTimerManager (iom w)) timer (mTimerManager m0)"
    using arm_timer_arms [of P "iom w" fr] assms(2,9) by (auto simp: world_ok_def)
  obtain m where m: "addEvent ctl (io_fd fr) (io_event fr) None (io_cur fr) m0 = Inr m" "io_inv P m" "in_table m (io_fd fr)"
      "io_abs m = io_spec_step P (Wait (io_fd fr) (io_event fr) None (io_cur fr)) (io_abs m0)"
    using addEvent_ok [OF assms(1) m0(2) assms(4-6)] by blast
  have "waiting m = (waiting (iom w))((io_fd fr, io_event fr) \<mapsto> Run_Fiber (io_cur fr))" "queue m = queue (iom w)"
    using m(4) m0(3,4) assms(7,8) by (simp_all add: io_abs_def waiter_def)
  then show ?thesis
    using assms(3) m0(1,5-7) m(1-3) addEvent_frame [OF m(1)]
    by (intro exI [of _ timer] exI [of _ m]) (simp add: io_attempt_def Let_def)
qed

lemma io_resume_untimed: "io_resume ctl fr None rs w =
    (if cancelled w (io_id fr) then Inr (Result (Fail ETIMEDOUT), rs, end_frame fr w) else io_attempt ctl fr rs w)"
  by (simp add: io_resume_def)

lemma io_attempt_returns:
  "call_func rs = Some (r, rs') \<Longrightarrow> r \<noteq> Fail EAGAIN \<Longrightarrow> io_attempt ctl fr rs w = Inr (Result r, rs', end_frame fr w)"
  by (simp add: io_attempt_def)

lemma call_func_now: "r \<noteq> Fail EINTR \<Longrightarrow> call_func (r # rs) = Some (r, rs)"
  by simp

lemma hook_done_other: "h \<noteq> Accept \<Longrightarrow> hook_done kstat h x = Inr x"
  by (auto simp: hook_done_def split: prod.splits io_outcome.splits sys_result.splits)

lemma hook_done_asleep: "hook_done kstat h (Asleep t, rs, w) = Inr (Asleep t, rs, w)"
  by (simp add: hook_done_def)

text \<open>
  C12. A hooked call on a managed socket without a timeout.  It repeats interrupted calls; when the
  system has no data, the fiber waits for the event of the call, and nobody else is affected.  The
  readiness report puts exactly this fiber into the queue, and when it is resumed the call returns
  what the system then returns.
\<close>

theorem hooked_call_resumes:
  assumes "epoll_ok ctl P" and "world_ok P w" and "hook_params h = (ev, type)" and "managed w fd type (-1)" and "fd \<in> P"
    and "waiting (iom w) (fd, ev) = None" and "r \<noteq> Fail EINTR" and "r \<noteq> Fail EAGAIN"
  shows "\<exists>w1 m2. hooked ctl kstat h f cur fd (replicate k (Fail EINTR) @ Fail EAGAIN # r # rs) w = Inr (Asleep None, r # rs, w1) \<and>
    waiting (iom w1) = (waiting (iom w))((fd, ev) \<mapsto> Run_Fiber cur) \<and> queue (iom w1) = queue (iom w) \<and>
    handle_ready ctl fd ev (iom w1) = Inr m2 \<and> waiting m2 = waiting (iom w) \<and> queue m2 = queue (iom w) @ [Run_Fiber cur] \<and>
    (\<exists>w3. io_resume ctl \<lparr>io_id = f, io_cur = cur, io_fd = fd, io_event = ev, io_to = -1\<rparr> None (r # rs) (w1\<lparr>iom := m2\<rparr>) =
       Inr (Result r, rs, w3) \<and> iom w3 = m2)"
proof -
  let ?fr = "\<lparr>io_id = f, io_cur = cur, io_fd = fd, io_event = ev, io_to = -1\<rparr>"
  let ?w = "w\<lparr>frames := insert f (frames w)\<rparr>"
  have fd: "0 \<le> fd" "fd < 2 ^ 30" using assms(4) by (simp_all add: managed_def)
  have ev: "is_event ev" by (rule hook_event [OF assms(3)])
  have "call_func (replicate k (Fail EINTR) @ Fail EAGAIN # r # rs) = Some (Fail EAGAIN, r # rs)"
    by (rule call_func_retry) simp
  from io_attempt_waits [where fr = ?fr and w = ?w, OF assms(1) _ this] obtain m1 where
    m1: "io_attempt ctl ?fr (replicate k (Fail EINTR) @ Fail EAGAIN # r # rs) ?w =
           Inr (Asleep None, r # rs, ?w\<lparr>cancelled := (cancelled w)(f := False), iom := m1\<rparr>)"
      "io_inv P m1" "in_table m1 fd" "waiting m1 = (waiting (iom w))((fd, ev) \<mapsto> Run_Fiber cur)" "queue m1 = queue (iom w)"
    using assms fd ev by (auto simp: world_ok_def timeout_ok_def armed_def split: option.splits)
  obtain m2 where m2: "handle_ready ctl fd ev m1 = Inr m2" "io_abs m2 = io_spec_step P (Report fd ev) (io_abs m1)"
    using handle_ready_ok [OF assms(1) m1(2,3)] by blast
  have m2': "waiting m2 = waiting (iom w)" "queue m2 = queue (iom w) @ [Run_Fiber cur]"
    using m2(2) ev assms(6) by (elim is_eventE; simp add: io_abs_def m1(4,5) wake_def opt_list_def epoll_defs fun_upd_idem)+
  let ?w1 = "?w\<lparr>cancelled := (cancelled w)(f := False), iom := m1\<rparr>"
  have "hooked ctl kstat h f cur fd (replicate k (Fail EINTR) @ Fail EAGAIN # r # rs) w = Inr (Asleep None, r # rs, ?w1)"
    using assms(3) m1(1) io_func_managed [OF assms(4)] by (simp add: hooked_def hook_done_asleep)
  moreover have "io_resume ctl ?fr None (r # rs) (?w1\<lparr>iom := m2\<rparr>) = Inr (Result r, rs, end_frame ?fr (?w1\<lparr>iom := m2\<rparr>))"
    using assms(7,8) by (simp add: io_resume_untimed io_attempt_returns)
  ultimately show ?thesis
    using m1(4,5) m2(1) m2' by (intro exI [of _ ?w1] exI [of _ m2]) (simp add: end_frame_def)
qed

text \<open>A socket 5 with the receive timeout \<open>to\<close>, and nothing else.\<close>

definition one_socket :: "int \<Rightarrow> fd_mgr" where
  "one_socket to =
     \<lparr>mCtxs = (replicate 64 None)[5 := Some 0],
      ctxs = [\<lparr>mfd = 5, mRecvTimeOut = to, mSendTimeOut = -1, isClose = False, isSocket = True, isNonBlock = True\<rparr>]\<rparr>"

definition sample_world :: "int \<Rightarrow> world" where
  "sample_world to = \<lparr>iom = newIOManager 60 200 0, fdm = one_socket to, frames = {}, cancelled = (\<lambda>_. False)\<rparr>"

lemma sample_world:
  "world_ok P (sample_world to)" "managed (sample_world to) 5 0 to" "waiting (iom (sample_world to)) = Map.empty"
  "queue (iom (sample_world to)) = []" "timerCnt (iom (sample_world to)) = 0"
proof -
  show "world_ok P (sample_world to)"
    using newTimerManager_wf [of 60 200 0] by (simp add: world_ok_def sample_world_def newIOManager_ok newIOManager_timers)
  show "managed (sample_world to) 5 0 to"
    by (auto simp: managed_def sample_world_def one_socket_def fdmgr_wf_def fd_lookup_def getTimeOut_def
        dest!: in_set_replicate [THEN iffD1] subsetD [OF set_update_subset_insert])
  show "waiting (iom (sample_world to)) = Map.empty" "queue (iom (sample_world to)) = []"
    "timerCnt (iom (sample_world to)) = 0"
    by (simp_all add: sample_world_def newIOManager_ok) (simp add: newIOManager_def ctxResize_def)
qed

lemma read_params: "hook_params Read = (EPOLLIN, 0)"
  by (simp add: hook_params_def RECV_def)

theorem hooked_call_resumes_witness:
  "\<exists>w1 m2 w3. hooked simple_epoll (\<lambda>_. Some True) Read 1 7 5 [Fail EINTR, Fail EAGAIN, Ret 42] (sample_world (-1)) =
      Inr (Asleep None, [Ret 42], w1) \<and>
    queue m2 = [Run_Fiber 7] \<and>
    io_resume simple_epoll \<lparr>io_id = 1, io_cur = 7, io_fd = 5, io_event = EPOLLIN, io_to = -1\<rparr> None [Ret 42] (w1\<lparr>iom := m2\<rparr>) =
      Inr (Result (Ret 42), [], w3)"
  using hooked_call_resumes [OF simple_epoll_ok sample_world(1) read_params sample_world(2), where r = "Ret 42" and k = 1 and
      rs = "[]" and f = 1 and cur = 7 and kstat = "\<lambda>_. Some True"]
  by (simp add: sample_world(3,4)) blast

text \<open>
  C13. A call with a timeout.  The fiber waits, and the call adds one timer, which is due after its
  timeout (\<open>to * 1000\<close> milliseconds in ticks of the wheel, modulo its size) and leaves the others as
  they were.  When the callback of this timer runs first, it wakes exactly this fiber, and the call
  then returns \<open>ETIMEDOUT\<close> without another system call and with the number of timers as before.
\<close>

theorem hooked_call_times_out:
  assumes "epoll_ok ctl P" and "world_ok P w" and "hook_params h = (ev, type)" and "managed w fd type to" and "fd \<in> P"
    and "waiting (iom w) (fd, ev) = None" and "0 \<le> to" and "to \<le> 2147483"
  shows "\<exists>t w1 w2 w3. hooked ctl kstat h f cur fd (Fail EAGAIN # rs) w = Inr (Asleep (Some t), rs, w1) \<and>
    timerCnt (iom w1) = timerCnt (iom w) + 1 \<and> waiting (iom w1) = (waiting (iom w))((fd, ev) \<mapsto> Run_Fiber cur) \<and>
    cb_of (mTimerManager (iom w1)) t = Timeout f fd ev \<and>
    (\<forall>u d. pending (mTimerManager (iom w1)) u d \<longleftrightarrow> pending (mTimerManager (iom w)) u d \<or>
       u = t \<and> d = (to * 1000 div mTickTime (mTimerManager (iom w))) mod mSlotNum (mTimerManager (iom w))) \<and>
    run_hook_cb ctl (cb_of (mTimerManager (iom w1)) t) w1 = Inr w2 \<and> waiting (iom w2) = waiting (iom w) \<and>
    queue (iom w2) = queue (iom w) @ [Run_Fiber cur] \<and>
    io_resume ctl \<lparr>io_id = f, io_cur = cur, io_fd = fd, io_event = ev, io_to = to\<rparr> (Some t) rs w2 =
      Inr (Result (Fail ETIMEDOUT), rs, w3) \<and>
    timerCnt (iom w3) = timerCnt (iom w)"
proof -
  let ?fr = "\<lparr>io_id = f, io_cur = cur, io_fd = fd, io_event = ev, io_to = to\<rparr>"
  let ?w = "w\<lparr>frames := insert f (frames w)\<rparr>"
  have fd: "0 \<le> fd" "fd < 2 ^ 30" using assms(4) by (simp_all add: managed_def)
  have ev: "is_event ev" by (rule hook_event [OF assms(3)])
  have "call_func (Fail EAGAIN # rs) = Some (Fail EAGAIN, rs)" by simp
  from io_attempt_waits [where fr = ?fr and w = ?w, OF assms(1) _ this] obtain timer m1 where
    r1: "io_attempt ctl ?fr (Fail EAGAIN # rs) ?w =
           Inr (Asleep timer, rs, ?w\<lparr>cancelled := (cancelled w)(f := False), iom := m1\<rparr>)"
      "io_inv P m1" "waiting m1 = (waiting (iom w))((fd, ev) \<mapsto> Run_Fiber cur)" "queue m1 = queue (iom w)"
      "timerCnt m1 = timerCnt (iom w) + of_bool (timer \<noteq> None)" "wheel_wf (mTimerManager m1)"
      "armed ?fr (mTimerManager (iom w)) timer (mTimerManager m1)"
    using assms fd ev by (auto simp: world_ok_def timeout_ok_def)
  moreover obtain t where "timer = Some t" using r1(7) assms(7) by (auto simp: armed_def split: option.splits)
  ultimately have m1: "io_attempt ctl ?fr (Fail EAGAIN # rs) ?w =
           Inr (Asleep (Some t), rs, ?w\<lparr>cancelled := (cancelled w)(f := False), iom := m1\<rparr>)"
      "io_inv P m1" "waiting m1 = (waiting (iom w))((fd, ev) \<mapsto> Run_Fiber cur)" "queue m1 = queue (iom w)"
      "timerCnt m1 = timerCnt (iom w) + 1" "wheel_wf (mTimerManager m1)"
      "armed ?fr (mTimerManager (iom w)) (Some t) (mTimerManager m1)" by simp_all
  have t: "t < length (timers (mTimerManager m1))" "cb_of (mTimerManager m1) t = Timeout f fd ev"
    using m1(7) by (auto simp: armed_def)
  have d: "\<forall>u d. pending (mTimerManager m1) u d \<longleftrightarrow> pending (mTimerManager (iom w)) u d \<or>
      u = t \<and> d = (to * 1000 div mTickTime (mTimerManager (iom w))) mod mSlotNum (mTimerManager (iom w))"
    using m1(7) by (simp add: armed_def)
  let ?w1 = "?w\<lparr>cancelled := (cancelled w)(f := False), iom := m1\<rparr>"
  obtain m2 where m2: "cancelEvent ctl fd ev m1 = Inr m2" "io_abs m2 = io_spec_step P (Cancel fd ev) (io_abs m1)"
    using cancelEvent_ok [OF assms(1) m1(2) fd(1) ev] by blast
  have m2': "waiting m2 = waiting (iom w)" "queue m2 = queue (iom w) @ [Run_Fiber cur]"
    using m2(2) assms(6) by (simp_all add: io_abs_def m1(3,4) wake_def opt_list_def fun_upd_idem)
  let ?w2 = "?w1\<lparr>iom := m2, cancelled := (cancelled ?w1)(f := True)\<rparr>"
  obtain tm where tm: "delTimer (mTimerManager m2) t = Inr tm"
    using delTimer_result [OF m1(6) t(1)] cancelEvent_frame [OF m2(1)] by auto
  let ?m3 = "m2\<lparr>timerCnt := timerCnt m2 - 1, mTimerManager := tm\<rparr>"
  have "hooked ctl kstat h f cur fd (Fail EAGAIN # rs) w = Inr (Asleep (Some t), rs, ?w1)"
    using assms(3) m1(1) io_func_managed [OF assms(4)] by (simp add: hooked_def hook_done_asleep)
  moreover have "run_hook_cb ctl (cb_of (mTimerManager m1) t) ?w1 = Inr ?w2"
    using m2(1) t(2) by (simp add: run_hook_cb_def)
  moreover have "io_resume ctl ?fr (Some t) rs ?w2 = Inr (Result (Fail ETIMEDOUT), rs, end_frame ?fr (?w2\<lparr>iom := ?m3\<rparr>))"
    using tm by (simp add: io_resume_def io_delTimer_def)
  ultimately show ?thesis
    using m1(3,5) t(2) d m2' cancelEvent_frame [OF m2(1)]
    by (intro exI [of _ t] exI [of _ ?w1] exI [of _ ?w2] exI [of _ "end_frame ?fr (?w2\<lparr>iom := ?m3\<rparr>)"])
      (simp add: end_frame_def)
qed

theorem hooked_call_times_out_witness:
  "\<exists>t w1 w2 w3. hooked simple_epoll (\<lambda>_. Some True) Read 1 7 5 [Fail EAGAIN] (sample_world 3) = Inr (Asleep (Some t), [], w1) \<and>
    pending (mTimerManager (iom w1)) t 15 \<and> run_hook_cb simple_epoll (cb_of (mTimerManager (iom w1)) t) w1 = Inr w2 \<and>
    io_resume simple_epoll \<lparr>io_id = 1, io_cur = 7, io_fd = 5, io_event = EPOLLIN, io_to = 3\<rparr> (Some t) [] w2 =
      Inr (Result (Fail ETIMEDOUT), [], w3)"
proof -
  have "waiting (iom (sample_world 3)) (5, EPOLLIN) = None" by (simp add: sample_world(3))
  from hooked_call_times_out [OF simple_epoll_ok sample_world(1) read_params sample_world(2) _ this, where rs = "[]" and f = 1 and cur = 7 and kstat = "\<lambda>_. Some True"]
  obtain t w1 w2 w3 where w:
    "hooked simple_epoll (\<lambda>_. Some True) Read 1 7 5 [Fail EAGAIN] (sample_world 3) = Inr (Asleep (Some t), [], w1)"
    "\<forall>u d. pending (mTimerManager (iom w1)) u d \<longleftrightarrow> pending (mTimerManager (iom (sample_world 3))) u d \<or>
       u = t \<and> d = (3 * 1000 div mTickTime (mTimerManager (iom (sample_world 3)))) mod mSlotNum (mTimerManager (iom (sample_world 3)))"
    "run_hook_cb simple_epoll (cb_of (mTimerManager (iom w1)) t) w1 = Inr w2"
    "io_resume simple_epoll \<lparr>io_id = 1, io_cur = 7, io_fd = 5, io_event = EPOLLIN, io_to = 3\<rparr> (Some t) [] w2 =
      Inr (Result (Fail ETIMEDOUT), [], w3)"
    by auto
  have "3 * 1000 div mTickTime (mTimerManager (iom (sample_world 3))) mod mSlotNum (mTimerManager (iom (sample_world 3))) = 15"
    by (simp add: sample_world_def newIOManager_timers newTimerManager_def)
  then have "pending (mTimerManager (iom w1)) t 15" using w(2) by simp
  with w(1,3,4) show ?thesis by blast
qed

lemma run_timers_length:
  "wheel_wf (mTimerManager m) \<Longrightarrow> run_timers now1 now2 m = Inr (wt, m') \<Longrightarrow>
     length (timers (mTimerManager m')) = length (timers (mTimerManager m)) \<and> timerCnt m' = timerCnt m"
  by (auto simp: run_timers_def bind_run_Inr_iff dest!: tick_timers arg_cong [where f = length])

text \<open>
  C38. When the readiness of a call's descriptor and the expiry of its timeout come in the same turn of
  the event loop, the fiber is queued before the timer's callback.  The call returns its result, and
  the callback, which \<open>delTimer\<close> no longer finds in the wheel, then writes the local variable of a
  call that has returned.
\<close>

theorem timeout_outlives_call:
  assumes "epoll_ok ctl P" and "world_ok P w" and "in_table (iom w) (io_fd fr)" and "is_event (io_event fr)"
    and "waiting (iom w) (io_fd fr, io_event fr) = Some (Run_Fiber (io_cur fr))" and "\<not> cancelled w (io_id fr)"
    and "t < length (timers (mTimerManager (iom w)))" and "t \<in> set (due (mTimerManager (iom w)))"
    and "cb_of (mTimerManager (iom w)) t = Timeout (io_id fr) (io_fd fr) (io_event fr)"
    and "ticking (mTimerManager (iom w)) now1" and "int_of_u64 (of_int waitTime - (end_ms - begin_ms)) \<le> 0"
    and "r \<noteq> Fail EINTR" and "r \<noteq> Fail EAGAIN"
  shows "\<exists>wt m2 late w3. idle_turn ctl (Ready [Fd_Ready (io_fd fr) (io_event fr)]) begin_ms end_ms now1 now2 (waitTime, iom w) =
      Inr (Some (wt, m2)) \<and>
    queue m2 = queue (iom w) @ Run_Fiber (io_cur fr) # late \<and> Run_Cb (Timeout (io_id fr) (io_fd fr) (io_event fr)) \<in> set late \<and>
    io_resume ctl fr (Some t) (r # rs) (w\<lparr>iom := m2\<rparr>) = Inr (Result r, rs, w3) \<and>
    run_hook_cb ctl (Timeout (io_id fr) (io_fd fr) (io_event fr)) w3 = Inl Dangling"
proof -
  let ?ev = "io_event fr" and ?fd = "io_fd fr"
  have inv: "io_inv P (iom w)" "wheel_wf (mTimerManager (iom w))" using assms(2) by (simp_all add: world_ok_def)
  obtain m1 where m1: "handle_ready ctl ?fd ?ev (iom w) = Inr m1" "io_inv P m1"
      "io_abs m1 = io_spec_step P (Report ?fd ?ev) (io_abs (iom w))"
    using handle_ready_ok [OF assms(1) inv(1) assms(3)] by blast
  have q1: "queue m1 = queue (iom w) @ [Run_Fiber (io_cur fr)]"
    using m1(3) assms(4,5) by (elim is_eventE; simp add: io_abs_def wake_def opt_list_def epoll_defs)+
  have tm: "mTimerManager m1 = mTimerManager (iom w)" using handle_ready_frame [OF m1(1)] by simp
  obtain m2 where m2: "run_timers now1 now2 m1 = Inr (mTickTime (mTimerManager m2), m2)" "wheel_wf (mTimerManager m2)"
      "queue m2 = queue m1 @ timer_tasks now1 (mTimerManager (iom w))"
    using run_timers_ok [of m1 P now1 now2] m1(2) inv(2) tm by auto
  have "Run_Cb (Timeout (io_id fr) ?fd ?ev) \<in> set (timer_tasks now1 (mTimerManager (iom w)))"
    using assms(8-10) by (force simp: timer_tasks_def)
  moreover have "idle_turn ctl (Ready [Fd_Ready ?fd ?ev]) begin_ms end_ms now1 now2 (waitTime, iom w) =
      Inr (Some (mTickTime (mTimerManager m2), m2))"
    using m1(1) m2(1) assms(11) by (simp add: idle_turn_def Let_def)
  moreover have "t < length (timers (mTimerManager m2))"
    using run_timers_length [OF _ m2(1)] inv(2) tm assms(7) by simp
  then obtain tm3 where "delTimer (mTimerManager m2) t = Inr tm3" using delTimer_result [OF m2(2)] by blast
  then have "io_resume ctl fr (Some t) (r # rs) (w\<lparr>iom := m2\<rparr>) =
      Inr (Result r, rs, end_frame fr (w\<lparr>iom := m2\<lparr>timerCnt := timerCnt m2 - 1, mTimerManager := tm3\<rparr>\<rparr>))"
    using assms(6,12,13) by (simp add: io_resume_def io_delTimer_def io_attempt_returns)
  moreover have "run_hook_cb ctl (Timeout (io_id fr) ?fd ?ev) (end_frame fr w') = Inl Dangling" for w'
    by (simp add: run_hook_cb_def end_frame_def)
  ultimately show ?thesis
    using m2(3) q1 by (intro exI [of _ "mTickTime (mTimerManager m2)"] exI [of _ m2] exI) (simp, blast)
qed

theorem timeout_outlives_call_witness:
  "\<exists>w wt m2 late w3. idle_turn simple_epoll (Ready [Fd_Ready 5 EPOLLIN]) 0 300 200 200 (200, iom w) = Inr (Some (wt, m2)) \<and>
    queue m2 = [Run_Fiber 7] @ late \<and> Run_Cb (Timeout 1 5 EPOLLIN) \<in> set late \<and>
    io_resume simple_epoll \<lparr>io_id = 1, io_cur = 7, io_fd = 5, io_event = EPOLLIN, io_to = 0\<rparr> (Some 0) [Ret 42] (w\<lparr>iom := m2\<rparr>) =
      Inr (Result (Ret 42), [], w3) \<and>
    run_hook_cb simple_epoll (Timeout 1 5 EPOLLIN) w3 = Inl Dangling"
proof -
  let ?c = "Timeout 1 5 EPOLLIN" and ?tm0 = "newTimerManager 60 200 0 :: hook_cb timer_mgr"
  let ?fr = "\<lparr>io_id = 1, io_cur = 7, io_fd = 5, io_event = EPOLLIN, io_to = 0\<rparr>"
  have wf0: "wheel_wf ?tm0" by (rule newTimerManager_wf) simp_all
  note added = addTimer_result [OF wf0, of 0 ?c False]
  define tm where "tm = snd (projr (addTimer ?tm0 0 ?c False))"
  have tm: "addTimer ?tm0 0 ?c False = Inr (0, tm)" "due tm = [0]" "cb_of tm 0 = ?c" "ticking tm 200" "length (timers tm) = 1"
    using added by (simp_all add: tm_def newTimerManager_def due_def cb_of_def home_def ticking_def int_of_u64_def INT_MAX_def)
  let ?m0 = "(newIOManager 60 200 0)\<lparr>timerCnt := 1, mTimerManager := tm\<rparr>"
  have "io_inv {3..} ?m0" by (simp add: io_frame newIOManager_ok)
  from addEvent_ok [OF simple_epoll_ok this, of 5 EPOLLIN None 7] obtain m where
    m: "addEvent simple_epoll 5 EPOLLIN None 7 ?m0 = Inr m" "io_inv {3..} m" "in_table m 5"
      "io_abs m = io_spec_step {3..} (Wait 5 EPOLLIN None 7) (io_abs ?m0)"
    by auto
  have abs: "waiting m (5, EPOLLIN) = Some (Run_Fiber 7)" "queue m = []"
    using m(4) by (simp_all add: io_abs_def io_frame newIOManager_ok waiter_def)
  have "mTimerManager m = tm" using addEvent_frame [OF m(1)] by simp
  moreover have "wheel_wf tm" using addTimer_wf [OF wf0 _ tm(1)] by (simp add: INT_MAX_def)
  moreover have "int_of_u64 (of_int 200 - (300 - 0)) \<le> 0" by (simp add: int_of_u64_def)
  moreover let ?w = "\<lparr>iom = m, fdm = one_socket 0, frames = {1}, cancelled = (\<lambda>_. False)\<rparr>"
  note timeout_outlives_call [OF simple_epoll_ok, of ?w ?fr 0 200 200 300 0 "Ret 42" 200 "[]"]
  ultimately show ?thesis
    using m(2,3) abs tm by (intro exI [of _ ?w]) (simp add: world_ok_def)
qed

text \<open>The event loop over a list of turns: the result of \<open>epoll_wait\<close> and the clock readings.\<close>

fun idle_run ::
  "epoll_ctl \<Rightarrow> (wait_result \<times> u64 \<times> u64 \<times> u64 \<times> u64) list \<Rightarrow> int \<times> 'cb iomanager \<Rightarrow> fault + (int \<times> 'cb iomanager) option" where
  "idle_run ctl [] s = Inr (Some s)"
| "idle_run ctl ((r, b, e, n1, n2) # ts) s =
     bind_run (idle_turn ctl r b e n1 n2 s) (\<lambda>s'. case s' of None \<Rightarrow> Inr None | Some s' \<Rightarrow> idle_run ctl ts s')"

lemma handle_all_count: "handle_all ctl m rs = Inr m' \<Longrightarrow> timerCnt m' = timerCnt m"
  by (induction ctl m rs rule: handle_all.induct) (auto simp: bind_run_Inr_iff dest: handle_ready_frame)

lemma run_timers_count: "run_timers now1 now2 m = Inr (wt, m') \<Longrightarrow> timerCnt m' = timerCnt m"
  by (auto simp: run_timers_def bind_run_Inr_iff)

lemma idle_turn_count:
  "idle_turn ctl r b e now1 now2 (wt, m) = Inr (Some (wt', m')) \<Longrightarrow> timerCnt m' = timerCnt m"
  by (auto simp: idle_turn_def Let_def bind_run_Inr_iff split: wait_result.splits list.splits if_splits
      dest!: run_timers_count handle_all_count)

lemma idle_run_count: "idle_run ctl ts (wt, m) = Inr (Some (wt', m')) \<Longrightarrow> timerCnt m' = timerCnt m"
proof (induction ts arbitrary: wt m)
  case (Cons t ts)
  then show ?case by (cases t) (auto simp: bind_run_Inr_iff dest!: idle_turn_count split: option.splits)
qed simp

text \<open>
  C39. \<open>sleep\<close> adds a timer that nobody takes back: \<open>mTimerCnt\<close> is one higher for good, and however long
  the event loop runs afterwards, also after the timer has fired, the manager never reports that it
  may stop.
\<close>

theorem sleep_never_stops:
  assumes "wheel_wf (mTimerManager (iom w))" and "unat seconds \<le> 2147483" and "0 \<le> timerCnt (iom w)"
  shows "\<exists>w1. hook_sleep cur seconds w = Inr w1 \<and>
    (\<forall>ts wt wt' m. idle_run ctl ts (wt, iom w1) = Inr (Some (wt', m)) \<longrightarrow> \<not> io_stopping b m)"
proof -
  obtain n where n: "seconds = word_of_nat n" "n \<le> 2147483"
    using that [of "unat seconds"] assms(2) by simp
  then have w: "seconds * 1000 = word_of_int (int n * 1000)" by simp
  have "sint (seconds * 1000) = signed_take_bit 31 (int n * 1000)"
    unfolding w by (subst signed_of_int) simp
  also have "\<dots> = int n * 1000"
    using n(2) by (intro signed_take_bit_int_eq_self) simp_all
  finally have "sint (seconds * 1000) = int n * 1000" .
  then have tm: "timing_ok (sint (seconds * 1000))" using n(2) by (simp add: INT_MAX_def)
  obtain t m where "addTimer (mTimerManager (iom w)) (sint (seconds * 1000)) (Wake cur) False = Inr (t, m)"
    using addTimer_result [OF assms(1) tm] by blast
  then have "hook_sleep cur seconds w = Inr (w\<lparr>iom := (iom w)\<lparr>timerCnt := timerCnt (iom w) + 1, mTimerManager := m\<rparr>\<rparr>)"
    by (simp add: hook_sleep_def io_addTimer_def)
  then show ?thesis using assms(3) by (auto simp: io_stopping_def dest!: idle_run_count)
qed

theorem sleep_never_stops_witness:
  "\<exists>w1. hook_sleep 7 2 (sample_world (-1)) = Inr w1 \<and> \<not> io_stopping True (iom w1)"
proof -
  have "wheel_wf (mTimerManager (iom (sample_world (-1))))" using sample_world(1) by (auto simp: world_ok_def)
  from sleep_never_stops [where seconds = 2 and cur = 7 and b = True and ctl = "\<lambda>_ _ _ _. None", OF this] obtain w1 where "hook_sleep 7 2 (sample_world (-1)) = Inr w1"
      "\<forall>ts wt wt' m. idle_run (\<lambda>_ _ _ _. None) ts (wt, iom w1) = Inr (Some (wt', m)) \<longrightarrow> \<not> io_stopping True m"
    by (auto simp: sample_world(5))
  moreover have "idle_run (\<lambda>_ _ _ _. None) [] (0, iom w1) = Inr (Some (0, iom w1))" by simp
  ultimately show ?thesis by blast
qed

end
