(* ===== verification/Http_Typed.thy ===== *)
theory Http_Typed
  imports Http_Safe
begin

text \<open>
  The fields of \<open>struct http_parser\<close> that are naturals in the model are bit fields and shorts in
  \<open>src/http/http_parser.h\<close>: whatever is parsed, their values fit the widths they have there.
\<close>

section \<open>The widths\<close>

text \<open>
  \<open>index\<close> has 5 bits, \<open>status_code\<close> 16, \<open>method\<close> 8 and holds an enumerator; the versions are
  shorts and hold a digit.
\<close>

definition typed :: "http_parser \<Rightarrow> bool" where
  "typed p \<longleftrightarrow> index p < 32 \<and> status_code p < 65536 \<and> meth p < length method_strings \<and> http_major p < 10 \<and> http_minor p < 10"

fun ctl_typed :: "'u ctl \<Rightarrow> bool" where
  "ctl_typed (Break x) = typed (xp x)"
| "ctl_typed (Reexec x) = typed (xp x)"
| "ctl_typed (Goto_error x) = typed (xp x)"
| "ctl_typed (Return n x) = typed (xp x)"
| "ctl_typed (Abort e) = True"

lemma typed_updates [simp]:
  "typed (p\<lparr>pstate := t\<rparr>) = typed p" "typed (p\<lparr>http_errno := e\<rparr>) = typed p" "typed (p\<lparr>nread := n\<rparr>) = typed p"
  "typed (p\<lparr>upgrade := b\<rparr>) = typed p" "typed (p\<lparr>flags := w\<rparr>) = typed p" "typed (p\<lparr>ptype := ty\<rparr>) = typed p"
  "typed (p\<lparr>header_state := h\<rparr>) = typed p" "typed (p\<lparr>content_length := l\<rparr>) = typed p"
  "typed (p\<lparr>uses_transfer_encoding := b\<rparr>) = typed p" "typed (set_flag f p) = typed p"
  "typed p \<Longrightarrow> typed (inc_index p)" "typed p \<Longrightarrow> typed (reset_message p)" "typed p \<Longrightarrow> typed (finish_flag p)"
  by (simp_all add: typed_def set_flag_def reset_message_def finish_flag_def split: header_states.split)

lemma typed_fields:
  "typed p \<Longrightarrow> i < 32 \<Longrightarrow> typed (p\<lparr>index := i\<rparr>)"
  "typed p \<Longrightarrow> m < length method_strings \<Longrightarrow> typed (p\<lparr>meth := m\<rparr>)"
  "typed p \<Longrightarrow> IS_NUM c \<Longrightarrow> typed (p\<lparr>http_major := digit c\<rparr>)"
  "typed p \<Longrightarrow> IS_NUM c \<Longrightarrow> typed (p\<lparr>http_minor := digit c\<rparr>)"
  "typed p \<Longrightarrow> IS_NUM c \<Longrightarrow> typed (p\<lparr>status_code := digit c\<rparr>)"
  "typed p \<Longrightarrow> typed (p\<lparr>status_code := n mod 65536\<rparr>)"
  by (auto simp: typed_def IS_NUM_def digit_def)

lemma SET_ERRNO_typed [simp]: "typed (xp (SET_ERRNO e x)) = typed (xp x)"
  by (simp add: SET_ERRNO_def)

lemma ctl_typed_macros [simp]:
  "ctl_typed (STRICT_CHECK c x k) \<longleftrightarrow> (if c then typed (xp x) else ctl_typed (k x))"
  "ctl_typed (ASSERT b r) \<longleftrightarrow> (b \<longrightarrow> ctl_typed r)"
  "ctl_typed (RETURN n x) \<longleftrightarrow> typed (xp x)"
  by (simp_all add: STRICT_CHECK_def ASSERT_def RETURN_def)

lemma COUNT_typed:
  "typed (xp x) \<Longrightarrow> (\<And>y. typed (xp y) \<Longrightarrow> ctl_typed (k y)) \<Longrightarrow> ctl_typed (COUNT_HEADER_SIZE env v x k)"
  by (simp add: COUNT_HEADER_SIZE_def Let_def)

lemma after_callback_typed:
  "typed (fst (snd res)) \<Longrightarrow> (\<And>y. typed (xp y) \<Longrightarrow> ctl_typed (k y)) \<Longrightarrow> ctl_typed (after_callback e er res x k)"
  by (cases res) (simp add: after_callback_def Let_def)

lemma tame_typed:
  "tame_cb (Some f) \<Longrightarrow> typed p \<Longrightarrow> typed (fst (snd (f p u)))"
  "tame_data_cb (Some g) \<Longrightarrow> typed p \<Longrightarrow> typed (fst (snd (g p b u)))"
proof -
  assume f: "tame_cb (Some f)" and p: "typed p"
  obtain e where "fst (snd (f p u)) = p\<lparr>http_errno := e\<rparr>" using f unfolding tame_cb_def by (metis prod.collapse)
  with p show "typed (fst (snd (f p u)))" by simp
next
  assume g: "tame_data_cb (Some g)" and p: "typed p"
  obtain e where "fst (snd (g p b u)) = p\<lparr>http_errno := e\<rparr>" using g unfolding tame_data_cb_def by (metis prod.collapse)
  with p show "typed (fst (snd (g p b u)))" by simp
qed

lemma notify_typed:
  "tame_cb cb \<Longrightarrow> typed (xp x) \<Longrightarrow> (\<And>y. typed (xp y) \<Longrightarrow> ctl_typed (k y)) \<Longrightarrow> ctl_typed (CALLBACK_NOTIFY0 cb e er x k)"
  by (auto simp: CALLBACK_NOTIFY0_def tame_typed split: option.splits intro!: after_callback_typed)

lemma data_typed:
  assumes "tame_data_cb cb" and "typed (xp x)" and "\<And>y. typed (xp y) \<Longrightarrow> ctl_typed (k y)" and "\<And>y. xp (clear y) = xp y"
  shows "ctl_typed (CALLBACK_DATA0 env cb e mark clear stop er x k)"
  using assms by (auto simp: CALLBACK_DATA0_def tame_typed split: option.splits intro!: after_callback_typed)

section \<open>The loops over headers\<close>

lemma match_field_typed [simp]: "typed p \<Longrightarrow> typed (match_field m hit c p)"
  by (simp add: match_field_def Let_def)

lemma field_char_typed: "typed p \<Longrightarrow> field_char ch c p = Inr q \<Longrightarrow> typed q"
  by (cases "header_state p") (auto simp: field_char_def Let_def split: if_splits)

lemma field_turn_typed:
  "typed (xp x) \<Longrightarrow> field_turn env x = Inr (r, y) \<Longrightarrow> typed (xp y) \<and> (\<forall>x'. r = Some x' \<longrightarrow> typed (xp x'))"
  by (auto simp: field_turn_def Let_def dest: field_char_typed split: if_splits sum.splits)

lemma field_loop_typed: "typed (xp x) \<Longrightarrow> field_loop env x = Inr y \<Longrightarrow> typed (xp y)"
proof (induction env x rule: field_loop.induct)
  case (1 env x)
  show ?case
  proof (cases "xpos x = length (data env) \<or> length (data env) < xpos x \<or> (\<exists>e. field_turn env x = Inl e)")
    case True
    then show ?thesis using "1.prems" by (subst (asm) field_loop.simps) (auto split: if_splits)
  next
    case False
    then obtain r z where t: "field_turn env x = Inr (r, z)" by (cases "field_turn env x") auto
    note turn = field_turn_typed [OF "1.prems"(1) t]
    show ?thesis
    proof (cases r)
      case None
      then show ?thesis using "1.prems" False t turn by (subst (asm) field_loop.simps) auto
    next
      case (Some x')
      then have "field_loop env (x'\<lparr>xpos := xpos x' + 1\<rparr>) = Inr y"
        using "1.prems" False t by (subst (asm) field_loop.simps) auto
      with "1.IH" [of "(r, z)" r z x'] show ?thesis using False t Some turn by auto
    qed
  qed
qed

lemma scan_general_parser: "scan_general env x pe = Inr (b, y) \<Longrightarrow> xp y = xp x"
proof (induction env x pe rule: scan_general.induct)
  case (1 env x pe)
  from "1.prems" show ?case
    by (subst (asm) scan_general.simps) (auto simp: Let_def split: if_splits dest!: "1.IH")
qed

lemma value_char_typed: "typed p \<Longrightarrow> value_char ch h p = Inr (h', q) \<Longrightarrow> typed q"
  by (cases h) (auto simp: value_char_def content_length_digit_def match_value_def connection_done_def connection_flag_def
      Let_def typed_fields split: if_splits)

lemma value_start_typed: "typed p \<Longrightarrow> value_start ch p = Inr q \<Longrightarrow> typed q"
  by (cases "header_state p") (auto simp: value_start_def Let_def split: if_splits)

section \<open>The cases\<close>

lemma methods_typed:
  "first_method c = Some m \<Longrightarrow> m < length method_strings"
  "map_of method_switch k = Some m \<Longrightarrow> m < length method_strings"
proof -
  show "first_method c = Some m \<Longrightarrow> m < length method_strings"
    by (auto simp: first_method_def split: if_splits)
  have "list_all (\<lambda>(k, m). m < length method_strings) method_switch" by code_simp
  then show "map_of method_switch k = Some m \<Longrightarrow> m < length method_strings"
    by (auto simp: list_all_iff simp del: method_switch_def dest!: map_of_SomeD)
qed

context tame_callbacks
begin

lemma datas_typed:
  assumes "settings env = s" and "typed (xp x)" and "\<And>y. typed (xp y) \<Longrightarrow> ctl_typed (k y)"
  shows "ctl_typed (data_header_field env adv x k)" "ctl_typed (data_header_value env adv x k)"
    "ctl_typed (data_url env adv x k)" "ctl_typed (data_status env adv x k)" "ctl_typed (data_body env stop er x k)"
  using assms tame_url tame_status tame_header_field tame_header_value tame_body
  by (auto simp: data_header_field_def data_header_value_def data_url_def data_status_def data_body_def intro!: data_typed)

lemmas notifies = tame_message_begin tame_headers_complete tame_message_complete tame_chunk_header tame_chunk_complete

lemmas typed_rules = datas_typed notify_typed COUNT_typed typed_fields notifies

lemma line_typed:
  assumes "settings env = s" and "typed (xp x)"
  shows "ctl_typed (case_dead env x)" "ctl_typed (case_start_req_or_res env x)" "ctl_typed (case_res_or_resp_H env x)"
    "ctl_typed (case_start_res env x)" "ctl_typed (case_expect c t x)" "ctl_typed (case_http_major t x)"
    "ctl_typed (case_http_dot t x)" "ctl_typed (case_http_minor t x)" "ctl_typed (case_res_http_end env x)"
    "ctl_typed (case_res_first_status_code env x)" "ctl_typed (case_res_status_code env x)"
    "ctl_typed (case_res_status_start env x)" "ctl_typed (case_res_status env x)"
    "ctl_typed (case_req_spaces_before_url env x)" "ctl_typed (case_req_schema env x)"
    "ctl_typed (case_req_http_start env x)" "ctl_typed (case_req_http_end env x)"
    "ctl_typed (case_req_line_almost_done env x)"
  using assms notifies
  by (auto simp: case_dead_def case_start_req_or_res_def case_res_or_resp_H_def case_start_res_def case_expect_def
      case_http_major_def case_http_dot_def case_http_minor_def case_res_http_end_def case_res_first_status_code_def
      case_res_status_code_def case_res_status_start_def case_res_status_def
      case_req_spaces_before_url_def case_req_schema_def case_req_http_start_def
      case_req_http_end_def case_req_line_almost_done_def url_step_def Let_def
      split: option.splits sum.splits intro!: typed_rules)

lemma start_req_typed:
  assumes "settings env = s" and "typed (xp x)"
  shows "ctl_typed (case_start_req env x)"
proof -
  have "0 < length method_strings" by simp
  then have base: "typed ((reset_message (xp x))\<lparr>meth := 0, index := 1\<rparr>)" using assms(2) by (intro typed_fields) simp_all
  show ?thesis
  proof (cases "first_method (xch x)")
    case None
    then show ?thesis using assms(2) base by (simp add: case_start_req_def Let_def)
  next
    case (Some m)
    have "typed ((reset_message (xp x))\<lparr>meth := 0, index := 1, meth := m\<rparr>)"
      by (rule typed_fields(2) [OF base methods_typed(1) [OF Some]])
    then show ?thesis using assms Some base notifies(1)
      by (auto simp: case_start_req_def Let_def intro!: notify_typed notifies)
  qed
qed

lemma req_method_typed:
  assumes "typed (xp x)"
  shows "ctl_typed (case_req_method env x)"
proof -
  have "typed (inc_index ((xp x)\<lparr>meth := m\<rparr>))" if "map_of method_switch k = Some m" for k m
    using typed_fields(2) [OF assms methods_typed(2) [OF that]] by simp
  then show ?thesis using assms by (auto simp: case_req_method_def split: sum.split option.split)
qed

lemma req_url_typed:
  assumes "settings env = s" and "typed (xp x)"
  shows "ctl_typed (case_req_url env x)"
proof -
  have "typed ((xp x)\<lparr>http_major := 0, http_minor := 9\<rparr>)" using assms(2) by (simp add: typed_def)
  then show ?thesis using assms by (auto simp: case_req_url_def url_step_def Let_def intro!: datas_typed)
qed

lemma finish_typed:
  assumes "settings env = s" and "typed (xp x)" and "\<And>y. typed (xp y) \<Longrightarrow> ctl_typed (k y)"
  shows "ctl_typed (finish_message env x k)"
  using assms notifies by (auto simp: finish_message_def intro!: notify_typed)

lemma headers_complete_typed:
  assumes "settings env = s" and "typed (xp x)" and "\<And>y. typed (xp y) \<Longrightarrow> ctl_typed (k y)"
  shows "ctl_typed (headers_complete env x k)"
proof (cases "on_headers_complete s")
  case (Some f)
  obtain r p u where f: "f (xp x) (xusr x) = (r, p, u)" by (cases rule: prod_cases3)
  have "typed p" using tame_typed(1) [of f "xp x" "xusr x"] tame_headers_complete Some assms(2) f by simp
  then show ?thesis using assms Some f by (simp add: headers_complete_def Let_def)
qed (use assms in \<open>simp add: headers_complete_def\<close>)

lemma body_typed:
  assumes "settings env = s" and "typed (xp x)"
  shows "ctl_typed (case_header_almost_done env x)" "ctl_typed (case_header_value_lws env x)"
    "ctl_typed (case_header_value_discard_ws_almost_done env x)" "ctl_typed (case_header_value_discard_lws env x)"
    "ctl_typed (case_headers_almost_done env x)" "ctl_typed (case_headers_done env x)"
    "ctl_typed (case_body_identity env x)" "ctl_typed (case_body_identity_eof env x)" "ctl_typed (case_message_done env x)"
    "ctl_typed (case_chunk_size_start env x)" "ctl_typed (case_chunk_size env x)" "ctl_typed (case_chunk_parameters env x)"
    "ctl_typed (case_chunk_size_almost_done env x)" "ctl_typed (case_chunk_data env x)"
    "ctl_typed (case_chunk_data_almost_done env x)" "ctl_typed (case_chunk_data_done env x)"
  using assms notifies
  by (auto simp: case_header_almost_done_def case_header_value_lws_def case_header_value_discard_ws_almost_done_def
      case_header_value_discard_lws_def case_headers_almost_done_def case_headers_done_def case_body_identity_def
      case_body_identity_eof_def case_message_done_def case_chunk_size_start_def case_chunk_size_def
      case_chunk_parameters_def case_chunk_size_almost_done_def case_chunk_data_def case_chunk_data_almost_done_def
      case_chunk_data_done_def take_body_def Let_def intro!: typed_rules finish_typed headers_complete_typed)

lemma header_start_typed:
  assumes "settings env = s" and "typed (xp x)"
  shows "ctl_typed (case_header_field_start env x)" "ctl_typed (case_header_value_start env x)"
    "ctl_typed (case_header_value_discard_ws env x)"
proof -
  have field: "typed ((xp x)\<lparr>index := 0\<rparr>)" using assms(2) by (intro typed_fields) simp_all
  then show "ctl_typed (case_header_field_start env x)"
    using assms by (simp add: case_header_field_start_def Let_def)
  show val: "ctl_typed (case_header_value_start env x)"
    using assms field by (auto simp: case_header_value_start_def Let_def split: sum.split dest: value_start_typed)
  show "ctl_typed (case_header_value_discard_ws env x)"
    using assms val by (simp add: case_header_value_discard_ws_def)
qed

lemma header_field_typed:
  assumes "settings env = s" and "typed (xp x)"
  shows "ctl_typed (case_header_field env x)"
proof (cases "field_loop env x")
  case (Inr y)
  have "typed (xp y)" by (rule field_loop_typed [OF assms(2) Inr])
  then show ?thesis using assms(1) Inr by (simp add: case_header_field_def Let_def) (auto intro!: COUNT_typed datas_typed)
qed (simp add: case_header_field_def)

lemma value_exit_typed: "typed (xp x) \<Longrightarrow> ctl_typed (value_exit env start h x)"
  by (auto simp: value_exit_def Let_def intro!: COUNT_typed)

lemma value_turn_typed:
  assumes "settings env = s" and "typed (xp x)"
  shows "value_turn env start h x = Inl r \<Longrightarrow> ctl_typed r"
    and "value_turn env start h x = Inr (h', y) \<Longrightarrow> typed (xp y)"
proof -
  let ?ch = "data env ! xpos x" and ?x = "x\<lparr>xch := data env ! xpos x\<rparr>"
  have cr: "ctl_typed (data_header_value env 1 (on_parser (\<lambda>p. p\<lparr>header_state := h\<rparr>) (UPDATE_STATE s_header_almost_done ?x))
      (value_exit env start h))"
    using assms by (intro datas_typed value_exit_typed) simp_all
  have lf: "ctl_typed (COUNT_HEADER_SIZE env (xpos ?x - start) (UPDATE_STATE s_header_almost_done ?x) (\<lambda>x.
      data_header_value env 0 (on_parser (\<lambda>p. p\<lparr>header_state := h\<rparr>) x) Reexec))"
    using assms by (intro COUNT_typed datas_typed) simp_all
  consider "?ch = CR" | "?ch = LF" | "?ch \<noteq> CR" "?ch \<noteq> LF" "\<not> lenient env \<and> \<not> IS_HEADER_CHAR ?ch"
    | "?ch \<noteq> CR" "?ch \<noteq> LF" "lenient env \<or> IS_HEADER_CHAR ?ch" by blast
  then have "(\<forall>r. value_turn env start h x = Inl r \<longrightarrow> ctl_typed r) \<and> (\<forall>h' y. value_turn env start h x = Inr (h', y) \<longrightarrow> typed (xp y))"
  proof cases
    case 4
    then have turn: "value_turn env start h x =
        (if h = h_general
         then (case scan_general env ?x (field_limit env (xpos x)) of
                 Inl e \<Rightarrow> Inl (Abort e)
               | Inr (False, x) \<Rightarrow> Inl (err HPE_INVALID_HEADER_TOKEN x)
               | Inr (True, x) \<Rightarrow> Inr (h, if xpos x = length (data env) then x\<lparr>xpos := xpos x - 1\<rparr> else x))
         else (case value_char ?ch h (xp ?x) of
                 Inl None \<Rightarrow> Inl (Abort Assert_Failed)
               | Inl (Some h') \<Rightarrow> Inl (Goto_error (on_parser (\<lambda>p. p\<lparr>header_state := h'\<rparr>) (SET_ERRNO HPE_INVALID_CONTENT_LENGTH ?x)))
               | Inr (h', p) \<Rightarrow> Inr (h', ?x\<lparr>xp := p\<rparr>)))"
      by (auto simp: value_turn_def Let_def)
    show ?thesis
    proof (cases "h = h_general")
      case True
      show ?thesis
      proof (cases "scan_general env ?x (field_limit env (xpos x))")
        case (Inr r)
        obtain b z where r: "r = (b, z)" by (cases r)
        have "typed (xp z)" using scan_general_parser [OF Inr [unfolded r]] assms(2) by simp
        then show ?thesis using True Inr r turn by (cases b) auto
      qed (use True turn in simp)
    next
      case False
      show ?thesis
      proof (cases "value_char ?ch h (xp x)")
        case (Inr r)
        obtain g q where r: "r = (g, q)" by (cases r)
        show ?thesis using value_char_typed [OF assms(2) Inr [unfolded r]] False Inr r turn by simp
      next
        case (Inl e)
        then show ?thesis using False turn assms(2) by (cases e) simp_all
      qed
    qed
  qed (use assms(2) cr lf in \<open>simp_all add: value_turn_def Let_def CR_def LF_def\<close>)
  then show "value_turn env start h x = Inl r \<Longrightarrow> ctl_typed r" "value_turn env start h x = Inr (h', y) \<Longrightarrow> typed (xp y)"
    by blast+
qed

lemma value_loop_typed:
  "settings env = s \<Longrightarrow> typed (xp x) \<Longrightarrow> ctl_typed (value_loop env start h x)"
proof (induction env start h x rule: value_loop.induct)
  case (1 env start h x)
  note turn = value_turn_typed [OF "1.prems"]
  show ?case
    using "1.prems" turn "1.IH"
    by (subst value_loop.simps) (auto split: sum.splits prod.splits intro!: value_exit_typed)
qed

lemma case_typed:
  assumes "settings env = s" and "typed (xp x)"
  shows "ctl_typed (execute_case env x)"
  using line_typed [OF assms] start_req_typed [OF assms] req_method_typed [OF assms(2), of env] req_url_typed [OF assms]
    body_typed [OF assms] header_start_typed [OF assms] header_field_typed [OF assms] value_loop_typed [OF assms]
  by (cases "xst x") (simp_all add: execute_case_def case_header_value_def)

lemma reexecute_typed: "settings env = s \<Longrightarrow> typed (xp x) \<Longrightarrow> ctl_typed (reexecute n env x)"
proof (induction n arbitrary: x)
  case (Suc n)
  with case_typed [of env x] show ?case by (auto split: ctl.splits)
qed simp

lemma byte_typed: "settings env = s \<Longrightarrow> typed (xp x) \<Longrightarrow> ctl_typed (execute_byte env x)"
  by (auto simp: execute_byte_def Let_def intro!: COUNT_typed reexecute_typed)

lemma loop_typed: "settings env = s \<Longrightarrow> typed (xp x) \<Longrightarrow> ctl_typed (execute_loop n env x)"
proof (induction n arbitrary: x)
  case (Suc n)
  have "ctl_typed (flush_marks env x)" using Suc.prems by (auto simp: flush_marks_def intro!: datas_typed)
  with Suc byte_typed [OF Suc.prems] show ?case by (auto split: ctl.splits simp: error_exit_def Let_def)
qed simp

lemma execute_typed:
  assumes "http_parser_execute s mhs p d u = Inr (n, q, v)" and "typed p"
  shows "typed q"
proof -
  let ?env = "make_env s mhs p d" and ?x = "initial_xstate p u"
  have env: "settings ?env = s" and x: "typed (xp ?x)" using assms(2) by (simp_all add: make_env_def initial_xstate_def)
  have "ctl_typed (execute_eof ?env ?x)" using env x tame_message_complete by (auto simp: execute_eof_def intro!: notify_typed)
  with loop_typed [OF env x, of "Suc (length d)"]
  have "ctl_typed (if d = [] then execute_eof ?env ?x else execute_loop (Suc (length d)) ?env ?x)" by (cases "d = []") (simp_all del: execute_loop.simps)
  with assms show ?thesis
    by (auto simp: http_parser_execute_def Let_def split: if_splits ctl.splits)
qed

end

lemma init_typed: "typed (http_parser_init t)"
  by (simp add: typed_def http_parser_init_def)

section \<open>Sequences of calls\<close>

lemma parser_step_typed:
  assumes "tame_callbacks s" and "parser_step s mhs m x = Inr (n, m')" and "typed (fst m)"
  shows "typed (fst m')"
proof -
  obtain p u q v where m: "m = (p, u)" "m' = (q, v)" by (cases m, cases m')
  show ?thesis
  proof (cases x)
    case (Feed d)
    then show ?thesis using tame_callbacks.execute_typed [OF assms(1), of mhs p d u n q v] assms(2,3) m by simp
  next
    case (Pause b)
    then show ?thesis using assms(2,3) m by (auto simp: http_parser_pause_def bind_run_Inr_iff split: if_splits)
  qed
qed

text \<open>
  C7. The fields fit.  Whatever a new parser is fed, paused and resumed in between, its \<open>index\<close>
  fits the 5 bits it has, \<open>status_code\<close> 16 bits, the versions are single digits, and \<open>method\<close> is
  the number of a method, so that \<open>http_method_str\<close> finds its name.
\<close>

theorem fields_fit:
  assumes "tame_callbacks s" and "run_with (parser_step s mhs) (http_parser_init t, u) ops = Inr (outs, p, v)"
  shows "index p < 2 ^ 5 \<and> status_code p < 2 ^ 16 \<and> http_major p < 10 \<and> http_minor p < 10 \<and>
    http_method_str (meth p) \<in> set method_strings"
proof -
  have "typed (fst m) \<Longrightarrow> run_with (parser_step s mhs) m ops = Inr (outs, m') \<Longrightarrow> typed (fst m')" for m m'
  proof (induction ops arbitrary: m outs)
    case (Cons x ops)
    obtain n m1 outs' where one: "parser_step s mhs m x = Inr (n, m1)" "run_with (parser_step s mhs) m1 ops = Inr (outs', m')"
      using Cons.prems(2) by (rule run_with_ConsE)
    from Cons.IH [OF parser_step_typed [OF assms(1) one(1) Cons.prems(1)] one(2)] show ?case .
  qed simp
  from this [OF _ assms(2)] init_typed have "typed p" by simp
  then show ?thesis by (simp add: typed_def http_method_str_def)
qed

theorem fields_fit_witness:
  "\<exists>outs p v. run_with (parser_step http_parser_settings_init HTTP_MAX_HEADER_SIZE) (http_parser_init HTTP_REQUEST, ())
      [Feed ''PROPPATCH / HTTP/1.'', Feed ''1''] = Inr (outs, p, v) \<and> http_minor p < 10"
proof -
  let ?f = "parser_step http_parser_settings_init HTTP_MAX_HEADER_SIZE"
  obtain n m where one: "?f (http_parser_init HTTP_REQUEST, ()) (Feed ''PROPPATCH / HTTP/1.'') = Inr (n, m)"
      "parser_ok HTTP_MAX_HEADER_SIZE (fst m)"
    using parser_step_ok [OF no_callbacks_tame, of HTTP_MAX_HEADER_SIZE "(http_parser_init HTTP_REQUEST, ())" "Feed ''PROPPATCH / HTTP/1.''"]
      parser_init_ok by auto
  obtain k p v where two: "?f m (Feed ''1'') = Inr (k, p, v)"
    using parser_step_ok [OF no_callbacks_tame one(2), of "Feed ''1''"] by auto
  from one(1) two have run: "run_with ?f (http_parser_init HTTP_REQUEST, ()) [Feed ''PROPPATCH / HTTP/1.'', Feed ''1''] = Inr ([n, k], p, v)"
    by (cases m) simp
  from fields_fit [OF no_callbacks_tame this] run show ?thesis by blast
qed

end
