(* ===== verification/Parse_Runs.thy ===== *)
theory Parse_Runs
  imports Http_Server
begin

text \<open>
  Runs of the loop of \<open>http_parser_execute\<close> (\<open>src/http/http_parser.cpp\<close>): how a stretch of the
  input takes the parser from one state to the next.  The theories on requests compose them.
\<close>

section \<open>Runs of the loop\<close>

text \<open>The loop gets from \<open>x\<close> to \<open>x'\<close> in \<open>k\<close> turns.\<close>

definition runs :: "'u env \<Rightarrow> nat \<Rightarrow> 'u xstate \<Rightarrow> 'u xstate \<Rightarrow> bool" where
  "runs env k x x' \<longleftrightarrow> (\<forall>n. execute_loop (k + n) env x = execute_loop n env x')"

lemma runs_0: "runs env 0 x x"
  by (simp add: runs_def)

lemma runs_trans: "runs env j x x' \<Longrightarrow> runs env k x' x'' \<Longrightarrow> runs env (j + k) x x''"
  unfolding runs_def by (metis add.assoc)

text \<open>A state with \<open>Q\<close> is reached in no more turns than bytes are consumed.\<close>

definition reaches :: "'u env \<Rightarrow> 'u xstate \<Rightarrow> ('u xstate \<Rightarrow> bool) \<Rightarrow> bool" where
  "reaches env x Q \<longleftrightarrow> (\<exists>k x'. runs env k x x' \<and> xpos x + k \<le> xpos x' \<and> Q x')"

lemma reaches_refl: "Q x \<Longrightarrow> reaches env x Q"
  unfolding reaches_def using runs_0 [of env x] by (intro exI [of _ 0] exI [of _ x]) simp

lemma reaches_trans: "reaches env x Q \<Longrightarrow> (\<And>y. Q y \<Longrightarrow> reaches env y R) \<Longrightarrow> reaches env x R"
proof -
  assume xy: "reaches env x Q" and yz: "\<And>y. Q y \<Longrightarrow> reaches env y R"
  obtain j y where y: "runs env j x y" "xpos x + j \<le> xpos y" "Q y" using xy by (auto simp: reaches_def)
  obtain k z where z: "runs env k y z" "xpos y + k \<le> xpos z" "R z" using yz [OF y(3)] by (auto simp: reaches_def)
  show ?thesis
    unfolding reaches_def using runs_trans [OF y(1) z(1)] y(2) z(2,3)
    by (intro exI [of _ "j + k"] exI [of _ z]) simp
qed

lemma reaches_mono: "reaches env x Q \<Longrightarrow> (\<And>y. Q y \<Longrightarrow> R y) \<Longrightarrow> reaches env x R"
  by (auto simp: reaches_def)

text \<open>The executions of one byte that end with a \<open>break\<close>.\<close>

definition turn :: "'u env \<Rightarrow> nat \<Rightarrow> 'u xstate \<Rightarrow> ('u xstate \<Rightarrow> bool) \<Rightarrow> bool" where
  "turn env n y P \<longleftrightarrow> (\<exists>y'. reexecute n env y = Break y' \<and> P y')"

lemma turn_break: "execute_case env y = Break y' \<Longrightarrow> P y' \<Longrightarrow> 0 < n \<Longrightarrow> turn env n y P"
  by (cases n) (simp_all add: turn_def)

lemma turn_again: "execute_case env y = Reexec y' \<Longrightarrow> turn env (n - 1) y' P \<Longrightarrow> 0 < n \<Longrightarrow> turn env n y P"
  by (cases n) (simp_all add: turn_def)

lemma reexec_limit_pos [simp]: "0 < reexec_limit" "Suc 0 < reexec_limit" "Suc (Suc 0) < reexec_limit"
  by (simp_all add: reexec_limit_def)

section \<open>The head of a message\<close>

type_synonym marks = "nat option \<times> nat option \<times> nat option \<times> nat option \<times> nat option"

definition marks :: "'u xstate \<Rightarrow> marks" where
  "marks x = (header_field_mark x, header_value_mark x, url_mark x, body_mark x, status_mark x)"

definition unmarked :: marks where "unmarked = (None, None, None, None, None)"

text \<open>
  Between two bytes of the first line or the headers: what is left to read, the user's state, the
  state, the marks, and a property of the parser.  All bytes so far are counted in \<open>nread\<close>.
\<close>

definition ready ::
  "(http_parser \<Rightarrow> bool) \<Rightarrow> string \<Rightarrow> 'u \<Rightarrow> parser_state \<Rightarrow> marks \<Rightarrow> 'u env \<Rightarrow> 'u xstate \<Rightarrow> bool" where
  "ready Q rest u s mk env x \<longleftrightarrow>
     drop (xpos x) (data env) = rest \<and> xpos x \<le> length (data env) \<and> unat (xnread x) = xpos x \<and>
     length (data env) \<le> unat (max_header_size env) \<and> xst x = s \<and> xusr x = u \<and> Q (xp x) \<and> marks x = mk"

lemma ready_mono: "ready Q rest u s mk env x \<Longrightarrow> (\<And>p. Q p \<Longrightarrow> R p) \<Longrightarrow> ready R rest u s mk env x"
  by (simp add: ready_def)

text \<open>The same with the next byte \<open>c\<close> fetched and counted.\<close>

definition fetched ::
  "(http_parser \<Rightarrow> bool) \<Rightarrow> char \<Rightarrow> string \<Rightarrow> 'u \<Rightarrow> parser_state \<Rightarrow> marks \<Rightarrow> 'u env \<Rightarrow> 'u xstate \<Rightarrow> bool" where
  "fetched Q c rest u s mk env y \<longleftrightarrow>
     drop (xpos y) (data env) = c # rest \<and> xch y = c \<and> unat (xnread y) = xpos y + 1 \<and>
     length (data env) \<le> unat (max_header_size env) \<and> xst y = s \<and> xusr y = u \<and> Q (xp y) \<and> marks y = mk"

lemma ready_pos: "ready Q rest u s mk env x \<Longrightarrow> xpos x + length rest = length (data env)"
  by (auto simp: ready_def)

lemma drop_Cons_pos: "drop n xs = c # rest \<Longrightarrow> n < length xs \<and> xs ! n = c \<and> n + length (c # rest) = length xs"
  by (metis drop_eq_Nil2 leI le_add_diff_inverse length_drop list.discI nth_via_drop order_less_imp_le)

lemma fetched_pos: "fetched Q c rest u s mk env y \<Longrightarrow>
    xpos y < length (data env) \<and> data env ! xpos y = c \<and> xpos y + length (c # rest) = length (data env)"
  unfolding fetched_def by (metis drop_Cons_pos)

text \<open>Counting header bytes that still fit does not wrap.\<close>

lemma count_bytes:
  assumes "unat (n :: u32) + k \<le> unat (m :: u32)"
  shows "n + of_nat k \<le> m" and "unat (n + of_nat k) = unat n + k"
proof -
  have "unat m < 2 ^ 32" using unsigned_less [of m] by simp
  then have "unat (of_nat k :: u32) = k" "unat n + k < 2 ^ 32"
    using assms by (simp_all add: unsigned_of_nat take_bit_nat_eq_self)
  then show u: "unat (n + of_nat k) = unat n + k" by (simp add: unat_word_ariths)
  show "n + of_nat k \<le> m" using assms by (simp add: word_le_nat_alt u)
qed

text \<open>
  One turn of the loop: the case consumes \<open>c\<close> and the bytes \<open>mid\<close> after it, and counts the
  latter.
\<close>

lemma ready_jump:
  assumes "ready Q (c # mid @ rest) u s mk env x" and "PARSING_HEADER s"
    and "\<And>y. fetched Q c (mid @ rest) u s mk env y \<Longrightarrow> turn env reexec_limit y (\<lambda>y'.
      xpos y' = xpos y + length mid \<and> xnread y' = xnread y + of_nat (length mid) \<and>
      R (xp y') \<and> xusr y' = u' \<and> xst y' = s' \<and> marks y' = mk')"
  shows "reaches env x (ready R rest u' s' mk' env)"
proof -
  let ?y = "x\<lparr>xch := c, xnread := xnread x + 1\<rparr>"
  have pos: "xpos x < length (data env)" "data env ! xpos x = c"
      "xpos x + length (c # mid @ rest) = length (data env)"
    using drop_Cons_pos assms(1) unfolding ready_def by metis+
  have "unat (xnread x) + 1 \<le> unat (max_header_size env)" using assms(1) pos(1) by (simp add: ready_def)
  moreover have max: "unat (max_header_size env) < 4294967296" using unsigned_less [of "max_header_size env"] by simp
  ultimately have n: "unat (xnread x + 1) = xpos x + 1" "xnread x + 1 \<le> max_header_size env"
    using assms(1) by (simp_all add: ready_def unat_word_ariths word_le_nat_alt)
  have "fetched Q c (mid @ rest) u s mk env ?y" using assms(1) n(1) by (simp add: ready_def fetched_def marks_def)
  from assms(3) [OF this] obtain y' where y': "reexecute reexec_limit env ?y = Break y'"
      "xpos y' = xpos x + length mid" "xnread y' = xnread x + 1 + of_nat (length mid)"
      "R (xp y')" "xusr y' = u'" "xst y' = s'" "marks y' = mk'"
    by (auto simp: turn_def)
  have "execute_byte env x = Break y'"
    using y'(1) pos(2) n(2) assms(1,2) by (simp add: execute_byte_def COUNT_HEADER_SIZE_def Let_def not_less ready_def)
  then have "runs env 1 x (y'\<lparr>xpos := xpos y' + 1\<rparr>)" using pos(1) by (simp add: runs_def)
  moreover have "ready R rest u' s' mk' env (y'\<lparr>xpos := xpos y' + 1\<rparr>)"
  proof -
    have le: "xpos x + 1 + length mid \<le> unat (max_header_size env)" using assms(1) pos(3) by (simp add: ready_def)
    then have "unat (of_nat (length mid) :: u32) = length mid" using max using le by (simp add: unsigned_of_nat take_bit_nat_eq_self)
    then have "unat (xnread y') = xpos x + 1 + length mid"
      using y'(3) n(1) max le by (simp add: unat_word_ariths)
    moreover have "drop (Suc (xpos x + length mid)) (data env) = rest"
    proof -
      have "drop (Suc (length mid)) (drop (xpos x) (data env)) = rest"
        using assms(1) by (simp add: ready_def del: drop_drop)
      then show ?thesis by (simp add: add.commute)
    qed
    ultimately show ?thesis using assms(1) y' pos(3) by (simp add: ready_def marks_def)
  qed
  ultimately show ?thesis
    unfolding reaches_def using y'(2) by (intro exI [of _ 1] exI [of _ "y'\<lparr>xpos := xpos y' + 1\<rparr>"]) simp
qed

text \<open>One byte, the position kept; and the common case of one execution.\<close>

lemma ready_turn:
  assumes "ready Q (c # rest) u s mk env x" and "PARSING_HEADER s"
    and "\<And>y. fetched Q c rest u s mk env y \<Longrightarrow> turn env reexec_limit y (\<lambda>y'.
      xpos y' = xpos y \<and> xnread y' = xnread y \<and> R (xp y') \<and> xusr y' = u' \<and> xst y' = s' \<and> marks y' = mk')"
  shows "reaches env x (ready R rest u' s' mk' env)"
  by (rule ready_jump [of Q c "[]"]) (use assms in simp_all)

lemma ready_step:
  assumes "ready Q (c # rest) u s mk env x" and "PARSING_HEADER s"
    and "\<And>y. fetched Q c rest u s mk env y \<Longrightarrow> \<exists>y'. execute_case env y = Break y' \<and>
      xpos y' = xpos y \<and> xnread y' = xnread y \<and> R (xp y') \<and> xusr y' = u' \<and> xst y' = s' \<and> marks y' = mk'"
  shows "reaches env x (ready R rest u' s' mk' env)"
proof (rule ready_turn [OF assms(1,2)])
  fix y assume "fetched Q c rest u s mk env y"
  from assms(3) [OF this] show "turn env reexec_limit y (\<lambda>y'. xpos y' = xpos y \<and> xnread y' = xnread y \<and>
      R (xp y') \<and> xusr y' = u' \<and> xst y' = s' \<and> marks y' = mk')"
    by (auto intro: turn_break)
qed

section \<open>Messages without surprises\<close>

text \<open>
  A message of the kind \<open>ty\<close>, with the method (of a request) or status code (of a response) \<open>m\<close> and the
  version \<open>v\<close>, whose headers so far announce a body of \<open>cl\<close> bytes (\<open>ULLONG_MAX\<close>: none) and nothing
  else that changes how the message ends.
\<close>

definition quiet_of :: "http_parser_type \<Rightarrow> nat \<Rightarrow> nat \<times> nat \<Rightarrow> u64 \<Rightarrow> http_parser \<Rightarrow> bool" where
  "quiet_of ty m v cl p \<longleftrightarrow> ptype p = ty \<and>
     (if ty = HTTP_REQUEST then meth p = m else status_code p = m \<and> meth p \<noteq> HTTP_CONNECT) \<and>
     (http_major p, http_minor p) = v \<and> http_errno p = HPE_OK \<and>
     \<not> uses_transfer_encoding p \<and> content_length p = cl \<and> (has_flag p F_CONTENTLENGTH \<longleftrightarrow> cl \<noteq> ULLONG_MAX) \<and>
     \<not> has_flag p F_CHUNKED \<and> \<not> has_flag p F_UPGRADE \<and> \<not> has_flag p F_SKIPBODY \<and> \<not> has_flag p F_TRAILING"

abbreviation quiet :: "nat \<Rightarrow> nat \<times> nat \<Rightarrow> u64 \<Rightarrow> http_parser \<Rightarrow> bool" where
  "quiet \<equiv> quiet_of HTTP_REQUEST"

lemma quiet_def:
  "quiet m v cl p \<longleftrightarrow> ptype p = HTTP_REQUEST \<and> meth p = m \<and> (http_major p, http_minor p) = v \<and> http_errno p = HPE_OK \<and>
     \<not> uses_transfer_encoding p \<and> content_length p = cl \<and> (has_flag p F_CONTENTLENGTH \<longleftrightarrow> cl \<noteq> ULLONG_MAX) \<and>
     \<not> has_flag p F_CHUNKED \<and> \<not> has_flag p F_UPGRADE \<and> \<not> has_flag p F_SKIPBODY \<and> \<not> has_flag p F_TRAILING"
  by (simp add: quiet_of_def)

lemma quiet_updates [simp]:
  "quiet_of ty m v cl (p\<lparr>index := i\<rparr>) = quiet_of ty m v cl p"
  "quiet_of ty m v cl (p\<lparr>header_state := h\<rparr>) = quiet_of ty m v cl p"
  "quiet_of ty m v cl (p\<lparr>pstate := s\<rparr>) = quiet_of ty m v cl p"
  "quiet_of ty m v cl (p\<lparr>nread := r\<rparr>) = quiet_of ty m v cl p"
  "quiet_of ty m v cl (inc_index p) = quiet_of ty m v cl p"
  by (simp_all add: quiet_of_def has_flag_def)

lemma quiet_sel:
  "quiet_of ty m v cl p \<Longrightarrow> ptype p = ty" "quiet_of ty m v cl p \<Longrightarrow> http_errno p = HPE_OK"
  "quiet_of ty m v cl p \<Longrightarrow> http_errno p = HPE_OK"
  by (simp_all add: quiet_of_def)

end
