(* ===== verification/Parse_Line.thy ===== *)
theory Parse_Line
  imports Parse_Runs
begin

text \<open>
  How \<open>http_parser_execute\<close> (\<open>src/http/http_parser.cpp\<close> 905-1205) reads a request line: every
  method name, every URL the URL automaton accepts, and the version.
\<close>

lemmas fetched_sel = fetched_def [THEN iffD1]

text \<open>What a callback that leaves the parser alone leaves of a state.\<close>

lemma no_callback:
  "http_errno (xp x) = HPE_OK \<Longrightarrow> CALLBACK_NOTIFY0 None e er x k = k x"
  by (simp add: CALLBACK_NOTIFY0_def ASSERT_def)

lemma data_callback:
  assumes "\<forall>p b u. f p b u = (0, p, g b u)" and "http_errno (xp x) = HPE_OK" and "mk \<le> stop" and "stop \<le> length (data env)"
  shows "CALLBACK_DATA0 env (Some f) e (Some mk) clear stop er x k =
    k (clear (x\<lparr>xp := (xp x)\<lparr>pstate := xst x\<rparr>, xusr := g (take (stop - mk) (drop mk (data env))) (xusr x)\<rparr>))"
  using assms by (simp add: CALLBACK_DATA0_def ASSERT_def after_callback_def Let_def not_less)

text \<open>The bytes between a mark and the position, when the text from the mark on is known.\<close>

lemma marked_text:
  assumes "drop mk d = pre @ rest" and "drop pos d = rest" and "rest \<noteq> []"
  shows "pos = mk + length pre \<and> take (pos - mk) (drop mk d) = pre"
proof -
  have "length pre + length rest = length d - mk" "length rest = length d - pos" using assms by (metis length_append length_drop)+
  moreover have "mk < length d" "pos < length d" using assms by (metis append_is_Nil_conv drop_eq_Nil2 not_le)+
  ultimately have "pos = mk + length pre" by linarith
  then show ?thesis using assms(1) by simp
qed

section \<open>The method\<close>

text \<open>The automaton of method names: the method and the number of bytes so far.\<close>

fun match_method :: "nat \<Rightarrow> nat \<Rightarrow> string \<Rightarrow> nat option" where
  "match_method m i [] = (if m < length method_strings \<and> i = length (method_strings ! m) then Some m else None)"
| "match_method m i (c # cs) =
     (if c \<in> {NUL, CHR '' ''} \<or> length method_strings \<le> m \<or> length (method_strings ! m) < i then None
      else if (method_strings ! m @ [NUL]) ! i = c then match_method m (i + 1) cs
      else if IS_UPPER_OR_DASH c then Option.bind (map_of method_switch (m, i, c)) (\<lambda>m'. match_method m' (i + 1) cs)
      else None)"

lemma method_names_matched:
  "list_all (\<lambda>m. case method_strings ! m of [] \<Rightarrow> False
     | c # cs \<Rightarrow> IS_ALPHA c \<and> c \<noteq> CR \<and> c \<noteq> LF \<and> length cs < 20 \<and>
         (case first_method c of None \<Rightarrow> False | Some m0 \<Rightarrow> match_method m0 1 cs = Some m)) [0..<length method_strings]"
  by code_simp

lemma method_name_matched:
  assumes "m < length method_strings"
  obtains c cs m0 where "method_strings ! m = c # cs" "IS_ALPHA c" "c \<noteq> CR" "c \<noteq> LF" "length cs < 20"
    "first_method c = Some m0" "match_method m0 1 cs = Some m"
proof -
  have "m \<in> set [0..<length method_strings]" using assms by simp
  from method_names_matched [unfolded list_all_iff, rule_format, OF this] that show ?thesis
    by (cases "method_strings ! m") (auto split: option.splits)
qed

lemma PARSING_line:
  "PARSING_HEADER s_start_req" "PARSING_HEADER s_req_method" "PARSING_HEADER s_req_spaces_before_url"
  "PARSING_HEADER s_req_http_start" "PARSING_HEADER s_req_http_H" "PARSING_HEADER s_req_http_HT"
  "PARSING_HEADER s_req_http_HTT" "PARSING_HEADER s_req_http_HTTP" "PARSING_HEADER s_req_http_major"
  "PARSING_HEADER s_req_http_dot" "PARSING_HEADER s_req_http_minor" "PARSING_HEADER s_req_http_end"
  "PARSING_HEADER s_req_line_almost_done" "s \<in> url_states \<Longrightarrow> PARSING_HEADER s"
  by (auto simp: header_states_before_body url_states_def)

lemma method_byte:
  assumes "xst y = s_req_method" and "xch y = c" and "c \<noteq> NUL" and "meth (xp y) = m" and "index (xp y) = i"
    and "m < length method_strings" and "i \<le> length (method_strings ! m)"
  shows "execute_case env y =
    (if c = CHR '' '' \<and> (method_strings ! m @ [NUL]) ! i = NUL
     then Break (on_parser inc_index (UPDATE_STATE s_req_spaces_before_url y))
     else if c = (method_strings ! m @ [NUL]) ! i then Break (on_parser inc_index y)
     else if IS_UPPER_OR_DASH c
     then (case map_of method_switch (m, i, c) of
             None \<Rightarrow> err HPE_INVALID_METHOD y
           | Some m' \<Rightarrow> Break (on_parser (\<lambda>p. inc_index (p\<lparr>meth := m'\<rparr>)) y))
     else err HPE_INVALID_METHOD y)"
proof -
  have "cstr_at (method_strings ! m) i = Inr ((method_strings ! m @ [NUL]) ! i)"
    using assms(7) by (auto simp: cstr_at_def nth_append)
  then show ?thesis using assms by (auto simp: execute_case_def case_req_method_def NUL_def)
qed

lemma quiet_meth: "quiet m v cl p \<Longrightarrow> quiet m' v cl (p\<lparr>meth := m'\<rparr>)"
  by (simp add: quiet_def has_flag_def)

abbreviation fresh :: "nat \<Rightarrow> http_parser \<Rightarrow> bool" where
  "fresh m \<equiv> quiet m (0, 0) ULLONG_MAX"

lemma method_loop:
  assumes "ready (\<lambda>p. fresh m p \<and> index p = i) (cs @ CHR '' '' # rest) u s_req_method mk env x"
    and "match_method m i cs = Some m'" and "i + length cs < 31"
  shows "reaches env x (ready (fresh m') rest u s_req_spaces_before_url mk env)"
  using assms
proof (induction cs arbitrary: m i x)
  case Nil
  then have at: "m < length method_strings" "i = length (method_strings ! m)" "m' = m"
    by (auto split: if_splits)
  show ?case
  proof (rule ready_step [OF Nil.prems(1) [unfolded append_Nil] PARSING_line(2)], goal_cases)
    case (1 y)
    then have "execute_case env y = Break (on_parser inc_index (UPDATE_STATE s_req_spaces_before_url y))"
      using at by (subst method_byte [of y "CHR '' ''" m i]) (auto simp: fetched_def quiet_def NUL_def)
    with 1 at show ?case by (auto simp: fetched_def marks_def)
  qed
next
  case (Cons c cs)
  obtain m1 where m1: "match_method m1 (i + 1) cs = Some m'" "c \<noteq> NUL" "c \<noteq> CHR '' ''" "m < length method_strings"
      "i \<le> length (method_strings ! m)"
      "if (method_strings ! m @ [NUL]) ! i = c then m1 = m else IS_UPPER_OR_DASH c \<and> map_of method_switch (m, i, c) = Some m1"
    using Cons.prems(2) by (auto split: if_splits simp: bind_eq_Some_conv)
  have "reaches env x (ready (\<lambda>p. fresh m1 p \<and> index p = i + 1) (cs @ CHR '' '' # rest) u s_req_method mk env)"
  proof (rule ready_step [OF Cons.prems(1) [unfolded append_Cons] PARSING_line(2)], goal_cases)
    case (1 y)
    then have "execute_case env y = (if (method_strings ! m @ [NUL]) ! i = c then Break (on_parser inc_index y)
        else Break (on_parser (\<lambda>p. inc_index (p\<lparr>meth := m1\<rparr>)) y))"
      using m1 by (subst method_byte [of y c m i]) (auto simp: fetched_def quiet_def split: if_splits)
    with 1 m1(6) Cons.prems(3) show ?case
      by (cases "(method_strings ! m @ [NUL]) ! i = c") (auto simp: fetched_def marks_def quiet_meth)
  qed
  then show ?case
    by (rule reaches_trans) (use Cons.IH m1(1) Cons.prems(3) in simp)
qed

lemma reset_quiet:
  assumes "ptype p = HTTP_REQUEST" and "http_errno p = HPE_OK" and "http_major p = 0" and "http_minor p = 0"
  shows "fresh m ((reset_message p)\<lparr>meth := k, index := i, meth := m\<rparr>)"
  using assms by (simp add: quiet_def reset_message_def has_flag_def flag_defs)

lemma method_phase:
  assumes "ready (\<lambda>p. p = http_parser_init HTTP_REQUEST) (method_strings ! m @ CHR '' '' # rest) u s_start_req mk env x"
    and "m < length method_strings" and "on_message_begin (settings env) = None"
  shows "reaches env x (ready (fresh m) rest u s_req_spaces_before_url mk env)"
proof -
  obtain c cs m0 where m: "method_strings ! m = c # cs" "IS_ALPHA c" "c \<noteq> CR" "c \<noteq> LF" "length cs < 20"
      "first_method c = Some m0" "match_method m0 1 cs = Some m"
    using method_name_matched [OF assms(2)] .
  have "reaches env x (ready (\<lambda>p. fresh m0 p \<and> index p = 1) (cs @ CHR '' '' # rest) u s_req_method mk env)"
  proof (rule ready_step [OF assms(1) [unfolded m(1) append_Cons] PARSING_line(1)], goal_cases)
    case (1 y)
    let ?p = "\<lambda>p. (reset_message p)\<lparr>meth := 0, index := 1, meth := m0\<rparr>"
    have "execute_case env y = Break (UPDATE_STATE s_req_method (on_parser ?p y))"
      using 1 m assms(3)
      by (simp add: fetched_def execute_case_def case_start_req_def no_callback reset_message_def http_parser_init_def Let_def)
    moreover have "fresh m0 (?p (xp y))"
      using 1 by (intro reset_quiet) (simp_all add: fetched_def http_parser_init_def)
    ultimately show ?case using 1 by (simp add: fetched_def marks_def)
  qed
  then show ?thesis
    by (rule reaches_trans) (use method_loop [OF _ m(7)] m(5) in simp)
qed

section \<open>The URL\<close>

text \<open>The states in which a URL may end, and the URLs that end in one of them.\<close>

definition url_end_states :: "parser_state set" where
  "url_end_states = {s_req_server, s_req_server_with_at, s_req_path, s_req_query_string_start,
     s_req_query_string, s_req_fragment_start, s_req_fragment}"

definition url_ok :: "string \<Rightarrow> bool" where
  "url_ok url \<longleftrightarrow> foldl parse_url_char s_req_spaces_before_url url \<in> url_end_states"

lemma url_dead: "foldl parse_url_char s_dead cs = s_dead"
  by (induction cs) (simp_all add: parse_url_char_def)

lemma url_byte:
  assumes "s \<in> url_states" and "xst y = s" and "xch y = c" and "parse_url_char s c \<noteq> s_dead"
  shows "execute_case env y = Break (UPDATE_STATE (parse_url_char s c) y)"
proof -
  have "c \<noteq> CHR '' ''" "c \<noteq> CR" "c \<noteq> LF" using assms(4) parse_url_char_stop by blast+
  then show ?thesis using assms
    by (auto simp: url_states_def execute_case_def case_req_schema_def case_req_url_def url_step_def Let_def)
qed

lemma url_end:
  assumes "s \<in> url_end_states" and "xst y = s" and "xch y = CHR '' ''"
  shows "execute_case env y = data_url env 1 (UPDATE_STATE s_req_http_start y) Break"
  using assms by (auto simp: url_end_states_def execute_case_def case_req_url_def)

lemma url_loop:
  assumes "drop mk (data env) = url @ CHR '' '' # rest" and "url = pre @ cs"
    and "ready Q (cs @ CHR '' '' # rest) u s (None, None, Some mk, None, None) env x"
    and "s \<in> url_states" and "foldl parse_url_char s cs \<in> url_end_states"
    and "\<And>p. Q p \<Longrightarrow> http_errno p = HPE_OK" and "\<And>p t. Q p \<Longrightarrow> Q (p\<lparr>pstate := t\<rparr>)"
    and "on_url (settings env) = Some f" and "\<forall>p b u. f p b u = (0, p, g b u)"
  shows "reaches env x (ready Q rest (g url u) s_req_http_start unmarked env)"
  using assms(2-5)
proof (induction cs arbitrary: pre s x)
  case Nil
  show ?case
  proof (rule ready_step [OF Nil.prems(2) [unfolded append_Nil] PARSING_line(14) [OF Nil.prems(3)]], goal_cases)
    case (1 y)
    have at: "xpos y = mk + length url" "take (xpos y - mk) (drop mk (data env)) = url"
      using marked_text [OF assms(1), of "xpos y"] 1 by (auto simp: fetched_def)
    have "execute_case env y = Break (y\<lparr>xst := s_req_http_start, xp := (xp y)\<lparr>pstate := s_req_http_start\<rparr>,
        xusr := g url (xusr y), url_mark := None\<rparr>)"
      using 1 Nil.prems(4) url_end [of s y env] at assms(6,8,9) fetched_pos [OF 1]
      by (simp add: fetched_def data_url_def marks_def data_callback [OF assms(9)])
    then show ?case using 1 assms(7) by (auto simp: fetched_def marks_def unmarked_def)
  qed
next
  case (Cons c cs)
  have live: "parse_url_char s c \<noteq> s_dead"
    using Cons.prems(4) url_dead [of cs] by (auto simp: url_end_states_def)
  then have next_state: "parse_url_char s c \<in> url_states" using parse_url_char_range by blast
  have "reaches env x (ready Q (cs @ CHR '' '' # rest) u (parse_url_char s c) (None, None, Some mk, None, None) env)"
  proof (rule ready_step [OF Cons.prems(2) [unfolded append_Cons] PARSING_line(14) [OF Cons.prems(3)]], goal_cases)
    case (1 y)
    then show ?case using url_byte [OF Cons.prems(3) _ _ live, of y env] by (auto simp: fetched_def marks_def)
  qed
  then show ?case
    by (rule reaches_trans) (use Cons.IH [of "pre @ [c]"] Cons.prems(1,4) next_state in simp)
qed

lemma url_phase:
  assumes "ready (fresh m) (url @ CHR '' '' # rest) u s_req_spaces_before_url unmarked env x"
    and "url_ok url" and "m \<noteq> HTTP_CONNECT"
    and "on_url (settings env) = Some f" and "\<forall>p b u. f p b u = (0, p, g b u)"
  shows "reaches env x (ready (fresh m) rest (g url u) s_req_http_start unmarked env)"
proof -
  obtain c cs where url: "url = c # cs"
    using assms(2) by (cases url) (auto simp: url_ok_def url_end_states_def)
  let ?s = "parse_url_char s_req_spaces_before_url c" and ?mk = "xpos x"
  have live: "?s \<noteq> s_dead" using assms(2) url_dead [of cs] by (auto simp: url_ok_def url_end_states_def url)
  then have c: "?s \<in> url_states" "c \<noteq> CHR '' ''" using parse_url_char_range parse_url_char_stop by blast+
  have pos: "\<And>y. fetched (fresh m) c (cs @ CHR '' '' # rest) u s_req_spaces_before_url unmarked env y \<Longrightarrow> xpos y = ?mk"
    using assms(1) ready_pos fetched_pos unfolding url by (metis add_right_cancel append_Cons)
  have "reaches env x (ready (fresh m) (cs @ CHR '' '' # rest) u ?s (None, None, Some ?mk, None, None) env)"
  proof (rule ready_step [OF assms(1) [unfolded url append_Cons] PARSING_line(3)], goal_cases)
    case (1 y)
    then have "execute_case env y = Break (UPDATE_STATE ?s (y\<lparr>url_mark := Some ?mk\<rparr>))"
      using c(2) assms(3) live pos [OF 1]
      by (simp add: fetched_def execute_case_def case_req_spaces_before_url_def url_step_def Let_def quiet_def
          marks_def unmarked_def MARK_def)
    then show ?case using 1 by (auto simp: fetched_def marks_def unmarked_def)
  qed
  moreover have "drop ?mk (data env) = url @ CHR '' '' # rest" using assms(1) by (simp add: ready_def)
  moreover have "foldl parse_url_char ?s cs \<in> url_end_states" using assms(2) by (simp add: url_ok_def url)
  ultimately show ?thesis
    using url_loop [where pre = "[c]" and cs = cs and url = url and mk = ?mk and env = env and rest = rest
        and Q = "fresh m" and f = f and g = g] c(1) assms(4,5) url quiet_sel(3)
    by (auto intro: reaches_trans)
qed

section \<open>The version\<close>

text \<open>A case that only changes the state, and a case that changes the parser too.\<close>

lemma line_step:
  assumes "ready Q (c # rest) u s mk env x" and "PARSING_HEADER s"
    and "\<And>y. xst y = s \<Longrightarrow> xch y = c \<Longrightarrow> execute_case env y = Break (UPDATE_STATE s' (on_parser g y))"
    and "\<And>p. Q p \<Longrightarrow> R (g p)"
  shows "reaches env x (ready R rest u s' mk env)"
proof (rule ready_step [OF assms(1,2)], goal_cases)
  case (1 y)
  then show ?case using assms(3) [of y] assms(4) by (auto simp: fetched_def marks_def)
qed

definition version_line :: "char \<Rightarrow> char \<Rightarrow> string" where
  "version_line a b = ''HTTP/'' @ [a, CHR ''.'', b, CR, LF]"

lemma version_phase:
  assumes "ready (fresh m) (version_line a b @ rest) u s_req_http_start mk env x" and "IS_NUM a" and "IS_NUM b"
  shows "reaches env x (ready (quiet m (digit a, digit b) ULLONG_MAX) rest u s_header_field_start mk env)"
proof -
  let ?Q = "\<lambda>i j. quiet m (i, j) ULLONG_MAX"
  have major: "?Q (digit a) 0 (p\<lparr>http_major := digit a\<rparr>)" if "fresh m p" for p
    using that by (simp add: quiet_def has_flag_def)
  have minor: "?Q (digit a) (digit b) (p\<lparr>http_minor := digit b\<rparr>)" if "?Q (digit a) 0 p" for p
    using that by (simp add: quiet_def has_flag_def)
  note strict = case_expect_def STRICT_CHECK_def
  have "reaches env x (ready (fresh m) (''TTP/'' @ [a, CHR ''.'', b, CR, LF] @ rest) u s_req_http_H mk env)"
    using assms(1) unfolding version_line_def append.simps
    by (rule line_step [OF _ PARSING_line(4), where g = id]) (simp_all add: execute_case_def case_req_http_start_def)
  then have "reaches env x (ready (fresh m) (''TP/'' @ [a, CHR ''.'', b, CR, LF] @ rest) u s_req_http_HT mk env)"
    unfolding append.simps
    by (rule reaches_trans) (erule line_step [OF _ PARSING_line(5), where g = id], simp_all add: execute_case_def strict)
  then have "reaches env x (ready (fresh m) (''P/'' @ [a, CHR ''.'', b, CR, LF] @ rest) u s_req_http_HTT mk env)"
    unfolding append.simps
    by (rule reaches_trans) (erule line_step [OF _ PARSING_line(6), where g = id], simp_all add: execute_case_def strict)
  then have "reaches env x (ready (fresh m) (''/'' @ [a, CHR ''.'', b, CR, LF] @ rest) u s_req_http_HTTP mk env)"
    unfolding append.simps
    by (rule reaches_trans) (erule line_step [OF _ PARSING_line(7), where g = id], simp_all add: execute_case_def strict)
  then have "reaches env x (ready (fresh m) (a # CHR ''.'' # b # CR # LF # rest) u s_req_http_major mk env)"
    unfolding append.simps
    by (rule reaches_trans) (erule line_step [OF _ PARSING_line(8), where g = id], simp_all add: execute_case_def strict)
  then have "reaches env x (ready (?Q (digit a) 0) (CHR ''.'' # b # CR # LF # rest) u s_req_http_dot mk env)"
    by (rule reaches_trans)
      (erule line_step [OF _ PARSING_line(9), where g = "\<lambda>p. p\<lparr>http_major := digit a\<rparr>"],
        simp_all add: execute_case_def case_http_major_def assms(2) major)
  then have "reaches env x (ready (?Q (digit a) 0) (b # CR # LF # rest) u s_req_http_minor mk env)"
    by (rule reaches_trans)
      (erule line_step [OF _ PARSING_line(10), where g = id], simp_all add: execute_case_def case_http_dot_def)
  then have "reaches env x (ready (?Q (digit a) (digit b)) (CR # LF # rest) u s_req_http_end mk env)"
    by (rule reaches_trans)
      (erule line_step [OF _ PARSING_line(11), where g = "\<lambda>p. p\<lparr>http_minor := digit b\<rparr>"],
        simp_all add: execute_case_def case_http_minor_def assms(3) minor)
  then have "reaches env x (ready (?Q (digit a) (digit b)) (LF # rest) u s_req_line_almost_done mk env)"
    by (rule reaches_trans)
      (erule line_step [OF _ PARSING_line(12), where g = id], simp_all add: execute_case_def case_req_http_end_def)
  then show ?thesis
    by (rule reaches_trans)
      (erule line_step [OF _ PARSING_line(13), where g = id], simp_all add: execute_case_def case_req_line_almost_done_def)
qed

end
