(* ===== verification/Parse_Name.thy ===== *)
theory Parse_Name
  imports Parse_Runs
begin

text \<open>
  How the loop of \<open>s_header_field\<close> (\<open>src/http/http_parser.cpp\<close> 1242-1387) reads the name of a
  header: the automaton recognises the names the parser cares about, whatever their case.
\<close>

section \<open>The automaton of names\<close>

text \<open>What one byte of a name does to the parser; \<open>h_general\<close> does not look at it.\<close>

definition name_char :: "http_parser \<Rightarrow> char \<Rightarrow> http_parser" where
  "name_char p c = (if header_state p = h_general then p
     else case field_char c (TOKEN c) p of Inl e \<Rightarrow> p | Inr q \<Rightarrow> q)"

definition name_start :: "char \<Rightarrow> http_parser \<Rightarrow> http_parser" where
  "name_start c p = p\<lparr>index := 0, header_state := first_header_state (TOKEN c)\<rparr>"

definition lower :: "string \<Rightarrow> string" where
  "lower n = map to_lower n"

definition token_name :: "string \<Rightarrow> bool" where
  "token_name n \<longleftrightarrow> (\<forall>c\<in>set n. is_rfc_token_char c)"

lemma token_char: "is_rfc_token_char c \<Longrightarrow> TOKEN c = to_lower c \<and> TOKEN c \<noteq> NUL \<and> c \<noteq> CHR '' '' \<and> c \<noteq> CR \<and> c \<noteq> LF"
proof -
  assume c: "is_rfc_token_char c"
  have "0 < byte (to_lower c)" using c by (auto simp: is_rfc_token_char_def to_lower_def byte_char_of)
  then have "to_lower c \<noteq> NUL" by (auto simp: NUL_def byte_def)
  moreover have "\<not> is_rfc_token_char (CHR '' '')" "\<not> is_rfc_token_char CR" "\<not> is_rfc_token_char LF" by code_simp+
  with c have "c \<noteq> CHR '' ''" "c \<noteq> CR" "c \<noteq> LF" by metis+
  ultimately show ?thesis using c by (simp add: TOKEN_iff)
qed

text \<open>The states of the automaton while a name is read, with the part of it that was read.\<close>

definition matching :: "string \<Rightarrow> string \<Rightarrow> nat \<Rightarrow> bool" where
  "matching m pre i \<longleftrightarrow> 0 < length pre \<and> length pre < length m \<and> pre = take (length pre) m \<and> i = length pre - 1"

definition recognised :: "string \<Rightarrow> http_parser \<Rightarrow> bool" where
  "recognised pre p \<longleftrightarrow> (case header_state p of
      h_general \<Rightarrow> True
    | h_C \<Rightarrow> pre = ''c'' \<and> index p = 0
    | h_CO \<Rightarrow> pre = ''co'' \<and> index p = 1
    | h_CON \<Rightarrow> pre = ''con'' \<and> index p = 2
    | h_matching_connection \<Rightarrow> matching CONNECTION pre (index p)
    | h_matching_proxy_connection \<Rightarrow> matching PROXY_CONNECTION pre (index p)
    | h_matching_content_length \<Rightarrow> matching CONTENT_LENGTH pre (index p)
    | h_matching_transfer_encoding \<Rightarrow> matching TRANSFER_ENCODING pre (index p)
    | h_matching_upgrade \<Rightarrow> matching UPGRADE pre (index p)
    | h_connection \<Rightarrow> pre = CONNECTION \<or> pre = PROXY_CONNECTION
    | h_content_length \<Rightarrow> pre = CONTENT_LENGTH
    | h_transfer_encoding \<Rightarrow> pre = TRANSFER_ENCODING
    | h_upgrade \<Rightarrow> pre = UPGRADE
    | _ \<Rightarrow> False)"

lemma match_field_sel [simp]:
  "index (match_field m hit c p) = (index p + 1) mod 32"
  "header_state (match_field m hit c p) = match_step m (header_state p) h_general hit c ((index p + 1) mod 32)"
  by (simp_all add: match_field_def Let_def)

lemma match_step_ok:
  assumes "matching m pre i" and "length m \<le> 20" and "stay \<noteq> hit" "stay \<noteq> miss" "hit \<noteq> miss"
  shows "case_prod (\<lambda>s j. (s = stay \<longrightarrow> matching m (pre @ [c]) j) \<and> (s = hit \<longrightarrow> pre @ [c] = m) \<and> s \<in> {stay, miss, hit})
    (match_step m stay miss hit c ((i + 1) mod 32), (i + 1) mod 32)"
proof -
  let ?n = "length pre"
  have n: "(i + 1) mod 32 = ?n" "?n < length m" "pre = take ?n m" using assms(1,2) by (auto simp: matching_def)
  have "c = m ! ?n \<Longrightarrow> pre @ [c] = take (Suc ?n) m" using n(2,3) by (simp add: take_Suc_conv_app_nth)
  then show ?thesis
    using n(2) assms(3-5) unfolding n(1) by (auto simp: match_step_def matching_def nth_append)
qed

lemma name_char_recognised:
  assumes "recognised pre p" and "is_rfc_token_char c"
  shows "recognised (pre @ [to_lower c]) (name_char p c)"
proof -
  let ?c = "to_lower c"
  have c: "TOKEN c = ?c" "c \<noteq> CHR '' ''" using token_char [OF assms(2)] by simp_all
  note step = name_char_def recognised_def field_char_def Let_def
  have m: "case match_step m stay h_general hit ?c ((i + 1) mod 32) of s \<Rightarrow>
      (s = stay \<longrightarrow> matching m (pre @ [?c]) ((i + 1) mod 32)) \<and> (s = hit \<longrightarrow> pre @ [?c] = m) \<and> s \<in> {stay, h_general, hit}"
    if "matching m pre i" "length m \<le> 20" "stay \<noteq> hit" "stay \<noteq> h_general" "hit \<noteq> h_general" for m stay hit i
    using match_step_ok [OF that(1-3), of h_general ?c] that by simp
  have len: "length CONNECTION \<le> 20" "length PROXY_CONNECTION \<le> 20" "length CONTENT_LENGTH \<le> 20"
      "length TRANSFER_ENCODING \<le> 20" "length UPGRADE \<le> 20" by (simp_all add: matcher_defs)
  show ?thesis
  proof (cases "header_state p")
    case h_matching_connection
    then show ?thesis using m [of CONNECTION "index p" h_matching_connection h_connection] assms(1) len c
      by (auto simp: step)
  next
    case h_matching_proxy_connection
    then show ?thesis using m [of PROXY_CONNECTION "index p" h_matching_proxy_connection h_connection] assms(1) len c
      by (auto simp: step)
  next
    case h_matching_content_length
    then show ?thesis using m [of CONTENT_LENGTH "index p" h_matching_content_length h_content_length] assms(1) len c
      by (auto simp: step)
  next
    case h_matching_transfer_encoding
    then show ?thesis using m [of TRANSFER_ENCODING "index p" h_matching_transfer_encoding h_transfer_encoding] assms(1) len c
      by (auto simp: step)
  next
    case h_matching_upgrade
    then show ?thesis using m [of UPGRADE "index p" h_matching_upgrade h_upgrade] assms(1) len c
      by (auto simp: step)
  qed (use assms(1) c in \<open>auto simp: step matching_def matcher_defs\<close>)
qed

lemma name_start_recognised: "is_rfc_token_char c \<Longrightarrow> recognised [to_lower c] (name_start c p)"
  using token_char [of c]
  by (auto simp: name_start_def recognised_def first_header_state_def matching_def matcher_defs)

lemma name_run_recognised:
  "recognised pre p \<Longrightarrow> token_name cs \<Longrightarrow> recognised (pre @ lower cs) (foldl name_char p cs)"
proof (induction cs arbitrary: pre p)
  case (Cons c cs)
  have "recognised (pre @ [to_lower c]) (name_char p c)"
    using Cons.prems by (intro name_char_recognised) (simp_all add: token_name_def)
  from Cons.IH [OF this] Cons.prems(2) show ?case by (simp add: token_name_def lower_def)
qed (simp add: lower_def)

lemma name_recognised:
  assumes "token_name n" and "n = c # cs"
  shows "recognised (lower n) (foldl name_char (name_start c p) cs)"
  using name_run_recognised [OF name_start_recognised, of c cs p] assms by (simp add: token_name_def lower_def)

text \<open>The converse: a name in any case drives the automaton like the name in lower case.\<close>

lemma name_char_cong:
  assumes "header_state p = header_state q" and "index p = index q" and "TOKEN c = TOKEN d" and "c \<noteq> CHR '' ''" and "d \<noteq> CHR '' ''"
  shows "header_state (name_char p c) = header_state (name_char q d) \<and> index (name_char p c) = index (name_char q d)"
  using assms by (cases "header_state q") (simp_all add: name_char_def field_char_def Let_def)

lemma name_run_cong:
  assumes "header_state p = header_state q" and "index p = index q" and "token_name cs" and "token_name ds"
    and "map TOKEN cs = map TOKEN ds"
  shows "header_state (foldl name_char p cs) = header_state (foldl name_char q ds)"
  using assms
proof (induction cs arbitrary: ds p q)
  case (Cons c cs)
  then obtain d ds' where ds: "ds = d # ds'" "TOKEN c = TOKEN d" "map TOKEN cs = map TOKEN ds'" by auto
  have "c \<noteq> CHR '' ''" "d \<noteq> CHR '' ''" using Cons.prems(3,4) token_char by (auto simp: ds token_name_def)
  from name_char_cong [OF Cons.prems(1,2) ds(2) this] Cons.prems(3,4) ds show ?case
    by (auto intro!: Cons.IH simp: token_name_def)
qed simp

section \<open>Names that mean nothing to the parser\<close>

definition plain_name :: "string \<Rightarrow> bool" where
  "plain_name n \<longleftrightarrow> n \<noteq> [] \<and> token_name n \<and> lower n \<noteq> CONTENT_LENGTH \<and> lower n \<noteq> UPGRADE \<and>
     take (length TRANSFER_ENCODING) (lower n) \<noteq> TRANSFER_ENCODING"

text \<open>What such a name may leave behind.\<close>

definition plain_name_states :: "header_states set" where
  "plain_name_states = {h_general, h_C, h_CO, h_CON, h_matching_connection, h_matching_proxy_connection,
     h_matching_content_length, h_matching_transfer_encoding, h_matching_upgrade, h_connection}"

text \<open>A parser that is \<open>quiet\<close> stays so, unless \<open>transfer-encoding\<close> is found.\<close>

lemma name_char_quiet:
  assumes "quiet_of ty m v cl p" and "header_state (name_char p c) \<noteq> h_transfer_encoding"
  shows "quiet_of ty m v cl (name_char p c)"
  using assms
  by (cases "header_state p") (simp_all add: name_char_def field_char_def match_field_def Let_def split: if_splits)

lemma name_run_quiet:
  assumes "quiet_of ty m v cl p" and "recognised pre p" and "token_name cs"
    and "\<forall>k\<le>length cs. pre @ lower (take k cs) \<noteq> TRANSFER_ENCODING"
  shows "quiet_of ty m v cl (foldl name_char p cs)"
  using assms
proof (induction cs arbitrary: pre p)
  case (Cons c cs)
  have r: "recognised (pre @ [to_lower c]) (name_char p c)"
    using Cons.prems by (intro name_char_recognised) (simp_all add: token_name_def)
  have ne: "\<forall>k\<le>length cs. (pre @ [to_lower c]) @ lower (take k cs) \<noteq> TRANSFER_ENCODING"
    using Cons.prems(4) by (auto simp: lower_def dest: spec [of _ "Suc _"])
  from ne have "pre @ [to_lower c] \<noteq> TRANSFER_ENCODING" by (auto simp: lower_def dest: spec [of _ 0])
  with r have "header_state (name_char p c) \<noteq> h_transfer_encoding" by (auto simp: recognised_def)
  from Cons.IH [OF name_char_quiet [OF Cons.prems(1) this] r _ ne] Cons.prems(3) show ?case
    by (simp add: token_name_def)
qed simp

lemma take_lower: "lower (take k n) = take k (lower n)"
  by (simp add: lower_def take_map)

lemma plain_name_run:
  assumes "plain_name n" and "n = c # cs" and "quiet_of ty m v cl p"
  shows "quiet_of ty m v cl (foldl name_char (name_start c p) cs)"
    and "header_state (foldl name_char (name_start c p) cs) \<in> plain_name_states"
proof -
  have n: "token_name n" "token_name cs" "is_rfc_token_char c" using assms(1,2) by (auto simp: plain_name_def token_name_def)
  have no_te: "take k (lower n) \<noteq> TRANSFER_ENCODING" for k
  proof
    assume te: "take k (lower n) = TRANSFER_ENCODING"
    then have "length TRANSFER_ENCODING \<le> k" by (metis length_take min.cobounded2)
    with te have "take (length TRANSFER_ENCODING) (lower n) = TRANSFER_ENCODING"
      by (metis min.absorb_iff1 order_refl take_all_iff take_take)
    with assms(1) show False by (simp add: plain_name_def)
  qed
  have "\<forall>k\<le>length cs. [to_lower c] @ lower (take k cs) \<noteq> TRANSFER_ENCODING"
  proof (intro allI impI)
    fix k
    show "[to_lower c] @ lower (take k cs) \<noteq> TRANSFER_ENCODING"
      using no_te [of "Suc k"] by (simp add: assms(2) lower_def take_map)
  qed
  then show "quiet_of ty m v cl (foldl name_char (name_start c p) cs)"
    using name_run_quiet [OF _ name_start_recognised [OF n(3)] n(2), of ty m v cl p] assms(3) by (simp add: name_start_def)
  show "header_state (foldl name_char (name_start c p) cs) \<in> plain_name_states"
    using name_recognised [OF n(1) assms(2), of p] assms(1) no_te [of "length (lower n)"]
    by (cases "header_state (foldl name_char (name_start c p) cs)")
      (auto simp: plain_name_def recognised_def plain_name_states_def)
qed

text \<open>The name \<open>Content-Length\<close>, in any case.\<close>

lemma length_name_lower: "header_state (foldl name_char (name_start (CHR ''c'') (http_parser_init HTTP_REQUEST)) ''ontent-length'') = h_content_length"
  by code_simp

lemma length_name_run:
  assumes "token_name n" and "n = c # cs" and "lower n = CONTENT_LENGTH" and "quiet_of ty m v cl p"
  shows "quiet_of ty m v cl (foldl name_char (name_start c p) cs)"
    and "header_state (foldl name_char (name_start c p) cs) = h_content_length"
proof -
  have n: "token_name cs" "is_rfc_token_char c" using assms(1,2) by (auto simp: token_name_def)
  have low: "to_lower c = CHR ''c''" "lower cs = ''ontent-length''" using assms(2,3) by (auto simp: lower_def CONTENT_LENGTH_def)
  have "to_lower c # lower (take k cs) \<noteq> TRANSFER_ENCODING" for k
    by (simp add: low(1) TRANSFER_ENCODING_def)
  then show "quiet_of ty m v cl (foldl name_char (name_start c p) cs)"
    using name_run_quiet [OF _ name_start_recognised [OF n(2)] n(1), of ty m v cl p] assms(4) by (simp add: name_start_def)
  have "map TOKEN cs = lower cs" using n(1) token_char by (simp add: token_name_def lower_def)
  also have "\<dots> = map TOKEN ''ontent-length''" unfolding low(2) by code_simp
  finally have "map TOKEN cs = map TOKEN ''ontent-length''" .
  moreover have "token_name ''ontent-length''" by code_simp
  moreover have "first_header_state (TOKEN c) = first_header_state (TOKEN (CHR ''c''))"
    using token_char [OF n(2)] low(1) by (simp add: TOKEN_iff [of "CHR ''c''"]) code_simp
  ultimately show "header_state (foldl name_char (name_start c p) cs) = h_content_length"
    using name_run_cong [of "name_start c p" "name_start (CHR ''c'') (http_parser_init HTTP_REQUEST)", OF _ _ n(1)]
      length_name_lower by (simp add: name_start_def)
qed

end
