(* ===== verification/Parse_Header.thy ===== *)
theory Parse_Header
  imports Parse_Line Parse_Name
begin

text \<open>
  How \<open>http_parser_execute\<close> (\<open>src/http/http_parser.cpp\<close> 1207-1741) reads one header line: the
  loops over the name and over the value, and the callbacks with the two texts.
\<close>

section \<open>The loop over a name\<close>

lemma skip_tokens_run:
  assumes "drop p d = cs @ c # rest" and "TOKEN c = NUL" and "\<forall>b\<in>set cs. TOKEN b \<noteq> NUL" and "cs \<noteq> []"
    and "pe \<le> length d"
  shows "\<exists>j<length cs. skip_tokens d p pe = Inr (p + j)"
  using assms
proof (induction cs arbitrary: p)
  case (Cons b cs)
  have at: "p < length d" "drop (p + 1) d = cs @ c # rest" "p + 1 < length d"
  proof -
    show "p < length d" using Cons.prems(1) drop_Cons_pos [of p d b] by simp
    show *: "drop (p + 1) d = cs @ c # rest" using Cons.prems(1) by (metis Suc_eq_plus1 append_Cons drop_Suc list.sel(3) tl_drop)
    show "p + 1 < length d" using * by (metis append_is_Nil_conv drop_eq_Nil2 leI list.distinct(1))
  qed
  have hd: "d ! (p + 1) = hd (cs @ c # rest)" using at(2,3) by (metis hd_drop_conv_nth)
  show ?case
  proof (cases "p + 1 < pe \<and> cs \<noteq> []")
    case True
    then have "TOKEN (d ! (p + 1)) \<noteq> NUL" using hd Cons.prems(3) by (cases cs) auto
    moreover obtain j where "j < length cs" "skip_tokens d (p + 1) pe = Inr (p + 1 + j)"
      using Cons.IH [OF at(2) Cons.prems(2)] Cons.prems(3,5) True by auto
    ultimately show ?thesis using True at(3) by (subst skip_tokens.simps) (auto intro!: exI [of _ "Suc j"])
  next
    case False
    then have "skip_tokens d p pe = Inr p" using hd at(3) Cons.prems(2) by (subst skip_tokens.simps) auto
    then show ?thesis by (auto intro!: exI [of _ 0])
  qed
qed simp

lemma field_char_name: "recognised pre p \<Longrightarrow> header_state p \<noteq> h_general \<Longrightarrow> field_char c (TOKEN c) p = Inr (name_char p c)"
  by (cases "header_state p") (simp_all add: recognised_def name_char_def field_char_def Let_def)

lemma name_general: "header_state p = h_general \<Longrightarrow> foldl name_char p cs = p"
  by (induction cs) (simp_all add: name_char_def)

lemma colon: "TOKEN (CHR '':'') = NUL"
  by code_simp

lemma drop_add_pos: "drop p d = cs @ rest \<Longrightarrow> j \<le> length cs \<Longrightarrow> drop (p + j) d = drop j cs @ rest"
  by (metis add.commute append_eq_append_conv_if drop_append drop_drop diff_is_0_eq' drop0)

lemma field_limit_le: "p \<le> length (data env) \<Longrightarrow> field_limit env p \<le> length (data env)"
  by (simp add: field_limit_def)

lemma field_loop_run:
  assumes "drop (xpos x) (data env) = cs @ CHR '':'' # rest" and "token_name cs" and "recognised pre (xp x)"
  shows "field_loop env x = Inr (x\<lparr>xpos := xpos x + length cs, xp := foldl name_char (xp x) cs, xch := CHR '':''\<rparr>)"
  using assms
proof (induction "length cs" arbitrary: cs pre x rule: less_induct)
  case less
  have pos: "xpos x < length (data env)" "data env ! xpos x = hd (cs @ CHR '':'' # rest)"
    using less.prems(1) by (cases cs; force dest: drop_Cons_pos)+
  show ?case
  proof (cases cs)
    case Nil
    then show ?thesis using pos colon by (subst field_loop.simps) (simp add: field_turn_def Let_def)
  next
    case (Cons c cs')
    have rfc: "is_rfc_token_char c" "token_name cs'" using less.prems(2) by (auto simp: Cons token_name_def)
    with token_char have c: "TOKEN c \<noteq> NUL" "is_rfc_token_char c" "token_name cs'" by blast+
    show ?thesis
    proof (cases "header_state (xp x) = h_general")
      case True
      have "\<forall>b\<in>set cs. TOKEN b \<noteq> NUL" using less.prems(2) token_char unfolding token_name_def by blast
      then obtain j where j: "j < length cs" "skip_tokens (data env) (xpos x) (field_limit env (xpos x)) = Inr (xpos x + j)"
        using skip_tokens_run [OF less.prems(1) colon _ _ field_limit_le [of "xpos x" env]] pos(1) Cons
        by (metis list.distinct(1) less_imp_le)
      let ?x = "x\<lparr>xch := c, xpos := xpos x + Suc j\<rparr>"
      have step: "field_loop env x = field_loop env ?x"
        using pos c(1) True j(2) by (subst field_loop.simps) (simp add: field_turn_def Let_def Cons)
      have "drop (xpos ?x) (data env) = drop (Suc j) cs @ CHR '':'' # rest"
        using drop_add_pos [OF less.prems(1), of "Suc j"] j(1) by simp
      moreover have "token_name (drop (Suc j) cs)" using less.prems(2) by (auto simp: token_name_def dest: in_set_dropD)
      ultimately have "field_loop env ?x = Inr (?x\<lparr>xpos := xpos ?x + length (drop (Suc j) cs),
          xp := foldl name_char (xp ?x) (drop (Suc j) cs), xch := CHR '':''\<rparr>)"
        using less.hyps [of "drop (Suc j) cs" ?x pre] less.prems(3) j(1) by simp
      then show ?thesis using step True j(1) by (simp add: name_general)
    next
      case False
      let ?x = "x\<lparr>xch := c, xp := name_char (xp x) c, xpos := xpos x + 1\<rparr>"
      have step: "field_loop env x = field_loop env ?x"
        using pos c(1) False field_char_name [OF less.prems(3) False, of c]
        by (subst field_loop.simps) (simp add: field_turn_def Let_def Cons)
      have "drop (xpos ?x) (data env) = cs' @ CHR '':'' # rest"
        using drop_add_pos [OF less.prems(1), of 1] by (simp add: Cons)
      from less.hyps [OF _ this c(3), of "pre @ [to_lower c]"] name_char_recognised [OF less.prems(3) c(2)]
      show ?thesis unfolding step by (simp add: Cons)
    qed
  qed
qed

section \<open>The loop over a value\<close>

definition value_text :: "string \<Rightarrow> bool" where
  "value_text v \<longleftrightarrow> (\<forall>c\<in>set v. IS_HEADER_CHAR c \<and> c \<noteq> CR \<and> c \<noteq> LF)"

lemma scan_general_run:
  assumes "drop (xpos x) (data env) = cs @ CR # rest" and "value_text cs" and "cs \<noteq> [] \<or> 0 < xpos x"
  shows "scan_general env x (length (data env)) = Inr (True, x\<lparr>xpos := xpos x + length cs - 1, xch := CR\<rparr>)"
  using assms
proof (induction cs arbitrary: x)
  case Nil
  then show ?case using drop_Cons_pos [of "xpos x" "data env" CR rest] by (subst scan_general.simps) simp
next
  case (Cons c cs)
  have pos: "xpos x < length (data env)" "data env ! xpos x = c"
    using drop_Cons_pos [of "xpos x" "data env" c] Cons.prems(1) by simp_all
  let ?x = "x\<lparr>xch := c, xpos := xpos x + 1\<rparr>"
  have "drop (xpos ?x) (data env) = cs @ CR # rest" using drop_add_pos [OF Cons.prems(1), of 1] by simp
  with Cons.IH [of ?x] Cons.prems(2)
  have "scan_general env ?x (length (data env)) = Inr (True, ?x\<lparr>xpos := xpos ?x + length cs - 1, xch := CR\<rparr>)"
    by (simp add: value_text_def)
  then show ?case using pos Cons.prems(2) by (subst scan_general.simps) (simp add: value_text_def)
qed

lemma field_limit_data: "length (data env) \<le> unat (max_header_size env) \<Longrightarrow> p \<le> length (data env) \<Longrightarrow> field_limit env p = length (data env)"
  by (simp add: field_limit_def)

text \<open>
  \<open>J h p cs\<close> holds of the local \<open>h_state\<close> and the parser before the bytes \<open>cs\<close> of the value are
  read; \<open>h_general\<close> runs over the rest of the value at once.
\<close>

lemma value_loop_run:
  assumes "drop (xpos x) (data env) = cs @ CR # rest" and "value_text cs" and "start \<le> xpos x"
    and "drop mk (data env) = val @ CR # rest" and "J h (xp x) cs"
    and "length (data env) \<le> unat (max_header_size env)" and "unat (xnread x) = start + 1"
    and "xst x = s_header_value" and "marks x = (None, Some mk, None, None, None)"
    and "on_header_value (settings env) = Some f" and "\<forall>p b u. f p b u = (0, p, g b u)"
    and step: "\<And>h p c cs. J h p (c # cs) \<Longrightarrow> h \<noteq> h_general \<Longrightarrow> IS_HEADER_CHAR c \<Longrightarrow> \<exists>h' p'. value_char c h p = Inr (h', p') \<and> J h' p' cs"
    and general: "\<And>p cs. J h_general p cs \<Longrightarrow> J h_general p []"
    and ok: "\<And>h p cs. J h p cs \<Longrightarrow> http_errno p = HPE_OK"
    and state: "\<And>h p cs t. J h p cs \<Longrightarrow> J h (p\<lparr>header_state := h, pstate := t\<rparr>) cs"
  shows "\<exists>y' h'. value_loop env start h x = Break y' \<and> xpos y' = xpos x + length cs \<and>
    xnread y' = xnread x + of_nat (xpos x + length cs - start) \<and> J h' (xp y') [] \<and> header_state (xp y') = h' \<and>
    xusr y' = g val (xusr x) \<and> xst y' = s_header_almost_done \<and> marks y' = unmarked \<and>
    pstate (xp y') = s_header_almost_done"
  using assms(1-3,5,7-9)
proof (induction "length cs" arbitrary: cs h x rule: less_induct)
  case less
  have pos: "xpos x < length (data env)" "data env ! xpos x = hd (cs @ CR # rest)"
      "xpos x + length (cs @ CR # rest) = length (data env)"
    using less.prems(1) by (cases cs; force dest: drop_Cons_pos)+
  show ?case
  proof (cases cs)
    case Nil
    have at: "xpos x = mk + length val" "take (xpos x - mk) (drop mk (data env)) = val"
      using marked_text [OF assms(4), of "xpos x"] less.prems(1) Nil by auto
    let ?p = "(xp x)\<lparr>header_state := h, pstate := s_header_almost_done\<rparr>"
    let ?y = "x\<lparr>xch := CR, xst := s_header_almost_done, xp := ?p, xusr := g val (xusr x), header_value_mark := None\<rparr>"
    have "xnread x + of_nat (xpos x - start) \<le> max_header_size env"
      using assms(6) less.prems(3,5) pos(1) by (intro count_bytes) simp
    then have "value_loop env start h x = Break (?y\<lparr>xnread := xnread x + of_nat (xpos x - start)\<rparr>)"
      using pos Nil less.prems(7) ok [OF less.prems(4)] at assms(10)
      by (subst value_loop.simps) (simp add: value_turn_def Let_def data_header_value_def marks_def
          data_callback [OF assms(11)] value_exit_def COUNT_HEADER_SIZE_def not_less)
    then show ?thesis using less.prems(4,7) state Nil by (simp add: marks_def unmarked_def)
  next
    case (Cons c cs')
    have c: "IS_HEADER_CHAR c" "c \<noteq> CR" "c \<noteq> LF" "value_text cs'" using less.prems(2) by (auto simp: Cons value_text_def)
    show ?thesis
    proof (cases "h = h_general")
      case True
      let ?x = "x\<lparr>xch := CR, xpos := xpos x + length cs\<rparr>"
      have "value_loop env start h x = value_loop env start h ?x"
        using pos c True scan_general_run [of "x\<lparr>xch := c\<rparr>" env cs rest] less.prems(1,2)
          field_limit_data [OF assms(6), of "xpos x"]
        by (subst value_loop.simps) (simp add: value_turn_def Let_def Cons)
      moreover have "drop (xpos ?x) (data env) = [] @ CR # rest" using drop_add_pos [OF less.prems(1), of "length cs"] by simp
      ultimately show ?thesis
        using less.hyps [of "[]" ?x h] less.prems(3-7) general True by (simp add: Cons marks_def value_text_def)
    next
      case False
      obtain h' p' where v: "value_char c h (xp x) = Inr (h', p')" "J h' p' cs'"
        using step [OF less.prems(4) [unfolded Cons] False c(1)] by blast
      let ?x = "x\<lparr>xch := c, xp := p', xpos := xpos x + 1\<rparr>"
      have "value_loop env start h x = value_loop env start h' ?x"
        using pos c False v(1) by (subst value_loop.simps) (simp add: value_turn_def Let_def Cons)
      moreover have "drop (xpos ?x) (data env) = cs' @ CR # rest" using drop_add_pos [OF less.prems(1), of 1] by (simp add: Cons)
      ultimately show ?thesis
        using less.hyps [of cs' ?x h'] less.prems(3-7) c(4) v(2) by (simp add: Cons marks_def)
    qed
  qed
qed

section \<open>A name, up to the colon\<close>

text \<open>Where a header line may start, and what the parser may hold of the line before it.\<close>

definition between_headers :: "parser_state \<Rightarrow> http_parser \<Rightarrow> bool" where
  "between_headers s p \<longleftrightarrow> s = s_header_field_start \<or> s = s_header_value_lws \<and> header_state p \<noteq> h_transfer_encoding_chunked"

lemma has_flag_other: "f AND g = 0 \<Longrightarrow> has_flag (set_flag f p) g = has_flag p g"
  by (simp add: has_flag_def set_flag_def bit.conj_disj_distrib2)

lemma quiet_connection:
  "quiet_of ty m v cl (set_flag F_CONNECTION_KEEP_ALIVE p) = quiet_of ty m v cl p"
  "quiet_of ty m v cl (set_flag F_CONNECTION_CLOSE p) = quiet_of ty m v cl p"
  "quiet_of ty m v cl (set_flag F_CONNECTION_UPGRADE p) = quiet_of ty m v cl p"
  by (simp_all add: quiet_of_def has_flag_other flag_defs)

lemma finish_flag_quiet:
  assumes "quiet_of ty m v cl p" and "header_state p \<noteq> h_transfer_encoding_chunked"
  shows "quiet_of ty m v cl (finish_flag p)"
  using assms by (cases "header_state p") (simp_all add: finish_flag_def quiet_connection)

lemma finish_flag_pstate: "pstate (finish_flag p) = pstate p"
  by (simp add: finish_flag_def set_flag_def split: header_states.split)

lemma PARSING_header:
  "PARSING_HEADER s_header_field_start" "PARSING_HEADER s_header_field" "PARSING_HEADER s_header_value_discard_ws"
  "PARSING_HEADER s_header_value" "PARSING_HEADER s_header_value_lws" "PARSING_HEADER s_header_almost_done"
  "PARSING_HEADER s_headers_almost_done" "between_headers s p \<Longrightarrow> PARSING_HEADER s"
  by (auto simp: header_states_before_body between_headers_def)

text \<open>A line end is not white space, so the state after a value only passes the byte on.\<close>

lemma between_turn:
  assumes "between_headers s (xp y)" and "xst y = s" and "xch y = c" and "c \<noteq> CHR '' ''" and "c \<noteq> HT"
    and "quiet_of ty m v cl (xp y)" and "0 < n - 1"
    and "\<And>p. quiet_of ty m v cl p \<Longrightarrow> pstate p = pstate (xp y) \<Longrightarrow>
      turn env (n - 1) (y\<lparr>xst := s_header_field_start, xp := p\<rparr>) P"
    and "\<And>p. quiet_of ty m v cl p \<Longrightarrow> pstate p = pstate (xp y) \<Longrightarrow>
      turn env n (y\<lparr>xst := s_header_field_start, xp := p\<rparr>) P"
  shows "turn env n y P"
proof (cases "s = s_header_field_start")
  case True
  then have "y\<lparr>xst := s_header_field_start, xp := xp y\<rparr> = y" using assms(2) by simp
  then show ?thesis using assms(9) [OF assms(6)] by simp
next
  case False
  then have s: "s = s_header_value_lws" "header_state (xp y) \<noteq> h_transfer_encoding_chunked"
    using assms(1) by (auto simp: between_headers_def)
  have "execute_case env y = Reexec (y\<lparr>xst := s_header_field_start, xp := finish_flag (xp y)\<rparr>)"
    using assms(2-5) s by (simp add: execute_case_def case_header_value_lws_def)
  then show ?thesis
    by (rule turn_again) (use assms(7) assms(8) [OF finish_flag_quiet [OF assms(6) s(2)] finish_flag_pstate] in simp_all)
qed

lemma name_first:
  assumes "ready (\<lambda>p. quiet_of ty m v cl p \<and> between_headers s p) (c # rest) u s unmarked env x" and "is_rfc_token_char c"
  shows "reaches env x (ready (\<lambda>p. \<exists>q. quiet_of ty m v cl q \<and> p = name_start c q) rest u s_header_field
    (Some (xpos x), None, None, None, None) env)"
proof -
  have c: "TOKEN c \<noteq> NUL" "c \<noteq> CHR '' ''" "c \<noteq> CR" "c \<noteq> LF" using token_char [OF assms(2)] by auto
  have ht: "c \<noteq> HT" using assms(2) by (auto simp: is_rfc_token_char_def is_separator_def)
  have s: "PARSING_HEADER s" using assms(1) PARSING_header(8) by (auto simp: ready_def)
  show ?thesis
  proof (rule ready_turn [OF assms(1) s])
    fix y assume y: "fetched (\<lambda>p. quiet_of ty m v cl p \<and> between_headers s p) c rest u s unmarked env y"
    let ?P = "\<lambda>y'. xpos y' = xpos y \<and> xnread y' = xnread y \<and>
      (\<exists>q. quiet_of ty m v cl q \<and> xp y' = name_start c q) \<and> xusr y' = u \<and> xst y' = s_header_field \<and>
      marks y' = (Some (xpos x), None, None, None, None)"
    have pos: "xpos y = xpos x" using ready_pos [OF assms(1)] fetched_pos [OF y] by simp
    have start: "turn env n (y\<lparr>xst := s_header_field_start, xp := p\<rparr>) ?P" if "quiet_of ty m v cl p" "0 < n" for p n
    proof (rule turn_break [OF _ _ that(2)])
      show "execute_case env (y\<lparr>xst := s_header_field_start, xp := p\<rparr>) =
          Break (y\<lparr>xst := s_header_field, header_field_mark := Some (xpos y), xp := name_start c p\<rparr>)"
        using y c by (simp add: fetched_def execute_case_def case_header_field_start_def Let_def MARK_def marks_def
            unmarked_def name_start_def)
      show "?P (y\<lparr>xst := s_header_field, header_field_mark := Some (xpos y), xp := name_start c p\<rparr>)"
        using y pos that by (auto simp: fetched_def marks_def unmarked_def)
    qed
    show "turn env reexec_limit y ?P"
      by (rule between_turn [where c = c and s = s, OF _ _ _ c(2) ht]) (use y start in \<open>auto simp: fetched_def\<close>)
  qed
qed

lemma name_rest:
  assumes "ready (\<lambda>p. recognised pre p \<and> Q (foldl name_char p cs)) (cs @ CHR '':'' # rest) u s_header_field
      (Some mk, None, None, None, None) env x"
    and "drop mk (data env) = n @ CHR '':'' # rest" and "token_name cs"
    and "\<And>p. Q p \<Longrightarrow> http_errno p = HPE_OK" and "\<And>p t. Q p \<Longrightarrow> Q (p\<lparr>pstate := t\<rparr>)"
    and "on_header_field (settings env) = Some f" and "\<forall>p b u. f p b u = (0, p, g b u)"
  shows "reaches env x (ready Q rest (g n u) s_header_value_discard_ws unmarked env)"
proof -
  obtain c mid where cm: "cs @ CHR '':'' # rest = c # mid @ rest" "length mid = length cs"
    by (cases cs) (auto intro: that [of "CHR '':''" "[]"] that [of "hd cs" "tl cs @ [CHR '':'']"])
  show ?thesis
  proof (rule ready_jump [OF assms(1) [unfolded cm(1)] PARSING_header(2)], goal_cases)
    case (1 y)
    let ?x = "y\<lparr>xpos := xpos y + length cs, xp := foldl name_char (xp y) cs, xch := CHR '':''\<rparr>"
    have d: "drop (xpos y) (data env) = cs @ CHR '':'' # rest" using 1 cm(1) by (simp add: fetched_def)
    have at: "xpos ?x < length (data env)" "drop (xpos ?x) (data env) = CHR '':'' # rest"
      using drop_add_pos [OF d, of "length cs"] drop_Cons_pos [of "xpos y + length cs" "data env"] by simp_all
    have name: "mk \<le> xpos y + length cs" "take (xpos y + length cs - mk) (drop mk (data env)) = n"
      using marked_text [OF assms(2) at(2)] by auto
    have count: "xnread y + of_nat (length cs) \<le> max_header_size env"
      using 1 at(1) by (intro count_bytes) (simp add: fetched_def)
    have loop: "field_loop env y = Inr ?x"
      using 1 by (intro field_loop_run [OF d assms(3)]) (auto simp: fetched_def)
    let ?y = "?x\<lparr>xnread := xnread y + of_nat (length cs), xst := s_header_value_discard_ws,
      xp := (foldl name_char (xp y) cs)\<lparr>pstate := s_header_value_discard_ws\<rparr>, xusr := g n u, header_field_mark := None\<rparr>"
    have "execute_case env y = Break ?y"
      using 1 loop at(1) count name assms(4,6)
      by (simp add: fetched_def execute_case_def case_header_field_def Let_def COUNT_HEADER_SIZE_def not_less
          data_header_field_def marks_def data_callback [OF assms(7)])
    then show ?case using 1 cm(2) assms(5) by (intro turn_break) (auto simp: fetched_def marks_def unmarked_def)
  qed
qed

text \<open>A name and its colon: the callback gets exactly the name.\<close>

lemma name_phase:
  assumes "ready (\<lambda>p. quiet_of ty m v cl p \<and> between_headers s p) (n @ CHR '':'' # rest) u s unmarked env x"
    and "token_name n" and "n = c # cs"
    and "\<And>q. quiet_of ty m v cl q \<Longrightarrow> N (foldl name_char (name_start c q) cs)"
    and "\<And>p. N p \<Longrightarrow> http_errno p = HPE_OK" and "\<And>p t. N p \<Longrightarrow> N (p\<lparr>pstate := t\<rparr>)"
    and "on_header_field (settings env) = Some f" and "\<forall>p b u. f p b u = (0, p, g b u)"
  shows "reaches env x (ready N rest (g n u) s_header_value_discard_ws unmarked env)"
proof -
  have n: "is_rfc_token_char c" "token_name cs" using assms(2,3) by (simp_all add: token_name_def)
  show ?thesis
  proof (rule reaches_trans [OF name_first [OF assms(1) [unfolded assms(3) append_Cons] n(1)]])
    fix y assume y: "ready (\<lambda>p. \<exists>q. quiet_of ty m v cl q \<and> p = name_start c q) (cs @ CHR '':'' # rest) u s_header_field
      (Some (xpos x), None, None, None, None) env y"
    show "reaches env y (ready N rest (g n u) s_header_value_discard_ws unmarked env)"
    proof (rule name_rest [where Q = N and pre = "[to_lower c]", OF _ _ n(2) assms(5-8)])
      show "ready (\<lambda>p. recognised [to_lower c] p \<and> N (foldl name_char p cs))
          (cs @ CHR '':'' # rest) u s_header_field (Some (xpos x), None, None, None, None) env y"
        using y assms(4) name_start_recognised [OF n(1)] by (auto simp: ready_def)
      show "drop (xpos x) (data env) = n @ CHR '':'' # rest" using assms(1) by (simp add: ready_def)
    qed
  qed
qed

section \<open>A value, up to the line end\<close>

lemma value_first:
  assumes "ready N (c # rest) u s_header_value_discard_ws unmarked env x"
    and "c \<noteq> CHR '' ''" and "c \<noteq> HT" and "c \<noteq> CR" and "c \<noteq> LF"
    and "\<And>p. N p \<Longrightarrow> \<exists>q. value_start c (p\<lparr>index := 0\<rparr>) = Inr q \<and> R q"
  shows "reaches env x (ready R rest u s_header_value (None, Some (xpos x), None, None, None) env)"
proof (rule ready_step [OF assms(1) PARSING_header(3)], goal_cases)
  case (1 y)
  obtain q where q: "value_start c ((xp y)\<lparr>index := 0\<rparr>) = Inr q" "R q"
    using assms(6) [of "xp y"] 1 by (auto simp: fetched_def)
  have pos: "xpos y = xpos x" using ready_pos [OF assms(1)] fetched_pos [OF 1] by simp
  have "execute_case env y = Break (y\<lparr>xst := s_header_value, header_value_mark := Some (xpos y), xp := q\<rparr>)"
    using 1 assms(2-5) q(1)
    by (simp add: fetched_def execute_case_def case_header_value_discard_ws_def case_header_value_start_def Let_def
        MARK_def marks_def unmarked_def)
  then show ?case using 1 q(2) pos by (auto simp: fetched_def marks_def unmarked_def)
qed

lemma value_rest:
  assumes "ready (\<lambda>p. J (header_state p) p cs) (cs @ CR # rest) u s_header_value (None, Some mk, None, None, None) env x"
    and "drop mk (data env) = val @ CR # rest" and "value_text cs"
    and "on_header_value (settings env) = Some f" and "\<forall>p b u. f p b u = (0, p, g b u)"
    and "\<And>h p c cs. J h p (c # cs) \<Longrightarrow> h \<noteq> h_general \<Longrightarrow> IS_HEADER_CHAR c \<Longrightarrow> \<exists>h' p'. value_char c h p = Inr (h', p') \<and> J h' p' cs"
    and "\<And>p cs. J h_general p cs \<Longrightarrow> J h_general p []"
    and "\<And>h p cs. J h p cs \<Longrightarrow> http_errno p = HPE_OK"
    and "\<And>h p cs t. J h p cs \<Longrightarrow> J h (p\<lparr>header_state := h, pstate := t\<rparr>) cs"
  shows "reaches env x (ready (\<lambda>p. J (header_state p) p [] \<and> pstate p = s_header_almost_done) rest (g val u)
    s_header_almost_done unmarked env)"
proof -
  obtain c mid where cm: "cs @ CR # rest = c # mid @ rest" "length mid = length cs"
    by (cases cs) (auto intro: that [of CR "[]"] that [of "hd cs" "tl cs @ [CR]"])
  show ?thesis
  proof (rule ready_jump [OF assms(1) [unfolded cm(1)] PARSING_header(4)])
    fix y assume y: "fetched (\<lambda>p. J (header_state p) p cs) c (mid @ rest) u s_header_value (None, Some mk, None, None, None) env y"
    have d: "drop (xpos y) (data env) = cs @ CR # rest" using y cm(1) by (simp add: fetched_def)
    have run: "\<exists>y' h'. value_loop env (xpos y) (header_state (xp y)) y = Break y' \<and> xpos y' = xpos y + length cs \<and>
        xnread y' = xnread y + of_nat (xpos y + length cs - xpos y) \<and> J h' (xp y') [] \<and> header_state (xp y') = h' \<and>
        xusr y' = g val (xusr y) \<and> xst y' = s_header_almost_done \<and> marks y' = unmarked \<and>
        pstate (xp y') = s_header_almost_done"
      by (rule value_loop_run [where J = J and f = f, OF d assms(3) _ assms(2)])
        (use y assms(4-9) in \<open>auto simp: fetched_def\<close>)
    have u: "xusr y = u" using y by (simp add: fetched_def)
    obtain y' where y': "value_loop env (xpos y) (header_state (xp y)) y = Break y'"
        "xpos y' = xpos y + length cs" "xnread y' = xnread y + of_nat (length cs)"
        "J (header_state (xp y')) (xp y') []" "xusr y' = g val u" "xst y' = s_header_almost_done" "marks y' = unmarked"
        "pstate (xp y') = s_header_almost_done"
      using run unfolding u by auto
    then have "execute_case env y = Break y'" using y by (simp add: fetched_def execute_case_def case_header_value_def)
    then show "turn env reexec_limit y (\<lambda>y'. xpos y' = xpos y + length mid \<and> xnread y' = xnread y + word_of_nat (length mid) \<and>
        (J (header_state (xp y')) (xp y') [] \<and> pstate (xp y') = s_header_almost_done) \<and> xusr y' = g val u \<and>
        xst y' = s_header_almost_done \<and> marks y' = unmarked)"
      using y' cm(2) by (intro turn_break) auto
  qed
qed

section \<open>Header lines\<close>

definition header_line_text :: "string \<Rightarrow> string \<Rightarrow> string" where
  "header_line_text n v = n @ '': '' @ v @ [CR, LF]"

text \<open>A value without white space in front of it.\<close>

definition proper_value :: "string \<Rightarrow> bool" where
  "proper_value v \<longleftrightarrow> value_text v \<and> v \<noteq> [] \<and> hd v \<noteq> CHR '' '' \<and> hd v \<noteq> HT"

text \<open>
  One header line, whatever it means to the parser: \<open>N\<close> is what the name leaves behind, \<open>J\<close> is
  kept by the bytes of the value.
\<close>

lemma header_phase:
  assumes "ready (\<lambda>p. quiet_of ty m v cl p \<and> between_headers s p) (header_line_text n val @ rest) u s unmarked env x"
    and "token_name n" and "n = c # cs"
    and "\<And>q. quiet_of ty m v cl q \<Longrightarrow> N (foldl name_char (name_start c q) cs)"
    and "\<And>p. N p \<Longrightarrow> http_errno p = HPE_OK" and "\<And>p t. N p \<Longrightarrow> N (p\<lparr>pstate := t\<rparr>)"
    and "on_header_field (settings env) = Some f" and "\<forall>p b u. f p b u = (0, p, g b u)"
    and "proper_value val" and "val = d # ds"
    and "\<And>p. N p \<Longrightarrow> \<exists>q. value_start d (p\<lparr>index := 0\<rparr>) = Inr q \<and> J (header_state q) q ds"
    and "on_header_value (settings env) = Some f'" and "\<forall>p b u. f' p b u = (0, p, g' b u)"
    and "\<And>h p c cs. J h p (c # cs) \<Longrightarrow> h \<noteq> h_general \<Longrightarrow> IS_HEADER_CHAR c \<Longrightarrow> \<exists>h' p'. value_char c h p = Inr (h', p') \<and> J h' p' cs"
    and "\<And>p cs. J h_general p cs \<Longrightarrow> J h_general p []"
    and "\<And>h p cs. J h p cs \<Longrightarrow> http_errno p = HPE_OK"
    and "\<And>h p cs t. J h p cs \<Longrightarrow> J h (p\<lparr>header_state := h, pstate := t\<rparr>) cs"
  shows "reaches env x (ready (\<lambda>p. J (header_state p) p [] \<and> pstate p = s_header_almost_done) rest (g' val (g n u))
    s_header_value_lws unmarked env)"
proof -
  let ?u = "g n u"
  have d: "d \<noteq> CHR '' ''" "d \<noteq> HT" "d \<noteq> CR" "d \<noteq> LF" "value_text ds"
    using assms(9,10) by (auto simp: proper_value_def value_text_def)
  have "reaches env x (ready N (CHR '' '' # val @ CR # LF # rest) ?u s_header_value_discard_ws unmarked env)"
    using assms(1) by (intro name_phase [where N = N, OF _ assms(2-8)]) (simp add: header_line_text_def)
  then have "reaches env x (ready N (d # ds @ CR # LF # rest) ?u s_header_value_discard_ws unmarked env)"
    unfolding assms(10) append_Cons
    by (rule reaches_trans)
      (erule line_step [OF _ PARSING_header(3), where g = id], simp_all add: execute_case_def case_header_value_discard_ws_def)
  then have "reaches env x (ready (\<lambda>p. J (header_state p) p [] \<and> pstate p = s_header_almost_done) (LF # rest) (g' val ?u)
      s_header_almost_done unmarked env)"
  proof (rule reaches_trans)
    fix y assume y: "ready N (d # ds @ CR # LF # rest) ?u s_header_value_discard_ws unmarked env y"
    then have "drop (xpos y) (data env) = val @ CR # LF # rest" by (simp add: ready_def assms(10))
    moreover have "reaches env y (ready (\<lambda>p. J (header_state p) p ds) (ds @ CR # LF # rest) ?u s_header_value (None, Some (xpos y), None, None, None) env)"
      by (rule value_first [where N = N, OF y d(1-4)]) (use assms(11) in blast)
    ultimately show "reaches env y (ready (\<lambda>p. J (header_state p) p [] \<and> pstate p = s_header_almost_done) (LF # rest) (g' val ?u)
      s_header_almost_done unmarked env)"
      by (elim reaches_trans) (rule value_rest [where J = J, OF _ _ d(5) assms(12-17)])
  qed
  then show ?thesis
    by (rule reaches_trans)
      (erule line_step [OF _ PARSING_header(6), where g = id], simp_all add: execute_case_def case_header_almost_done_def)
qed

text \<open>A header that only \<open>Connection\<close> gives a meaning to the parser.\<close>

definition connection_states :: "header_states set" where
  "connection_states = {h_matching_connection_token_start, h_matching_connection_keep_alive, h_matching_connection_close,
     h_matching_connection_upgrade, h_matching_connection_token, h_connection_keep_alive, h_connection_close,
     h_connection_upgrade}"

definition plain_value :: "http_parser_type \<Rightarrow> nat \<Rightarrow> nat \<times> nat \<Rightarrow> u64 \<Rightarrow> header_states \<Rightarrow> http_parser \<Rightarrow> string \<Rightarrow> bool" where
  "plain_value ty m v cl h p cs \<longleftrightarrow> quiet_of ty m v cl p \<and> (h = h_general \<or> h \<in> connection_states)"

lemma match_step_range: "match_step m stay miss hit c i \<in> {stay, miss, hit}"
  by (simp add: match_step_def)

lemma plain_value_step:
  assumes "plain_value ty m v cl h p (c # cs)" and "h \<noteq> h_general"
  shows "\<exists>h' p'. value_char c h p = Inr (h', p') \<and> plain_value ty m v cl h' p' cs"
proof -
  have q: "quiet_of ty m v cl p" and h: "h \<in> connection_states" using assms by (auto simp: plain_value_def)
  have flag: "quiet_of ty m v cl (connection_flag h p)" for h using q by (simp add: connection_flag_def quiet_connection)
  have match: "\<exists>h' p'. match_value w h1 h2 h3 b p = Inr (h', p') \<and> plain_value ty m v cl h' p' cs"
    if "{h1, h2, h3} \<subseteq> connection_states" for w h1 h2 h3 b
    using that q match_step_range [of w h1 h2 h3 b] by (fastforce simp: match_value_def plain_value_def Let_def)
  have over: "\<exists>h' p'. connection_done c h1 p = Inr (h', p') \<and> plain_value ty m v cl h' p' cs"
    if "h1 \<in> connection_states" for h1
    using that q flag [of h1] by (auto simp: connection_done_def plain_value_def connection_states_def)
  have keep: "\<exists>h' p'. Inr (h1, p1) = (Inr (h', p') :: value_result) \<and> plain_value ty m v cl h' p' cs"
    if "quiet_of ty m v cl p1" "h1 = h_general \<or> h1 \<in> connection_states" for h1 p1
    using that by (simp add: plain_value_def)
  have index: "quiet_of ty m v cl (p\<lparr>index := 0\<rparr>)" using q by simp
  from h show ?thesis unfolding connection_states_def
  proof (elim insertE emptyE)
    assume "h = h_matching_connection_token_start"
    then show ?thesis by (simp only: value_char_def Let_def header_states.case)
      (rule keep [OF q], simp add: connection_states_def)
  next
    assume "h = h_matching_connection_token"
    then show ?thesis using q index keep by (cases "c = CHR '',''") (simp_all add: value_char_def Let_def connection_states_def)
  qed (simp_all add: value_char_def Let_def match over connection_states_def)
qed

lemma plain_line:
  assumes "ready (\<lambda>p. quiet_of ty m v cl p \<and> between_headers s p) (header_line_text n val @ rest) u s unmarked env x"
    and "plain_name n" and "proper_value val"
    and "on_header_field (settings env) = Some f" and "\<forall>p b u. f p b u = (0, p, g b u)"
    and "on_header_value (settings env) = Some f'" and "\<forall>p b u. f' p b u = (0, p, g' b u)"
  shows "reaches env x (ready (\<lambda>p. quiet_of ty m v cl p \<and> between_headers s_header_value_lws p \<and>
    pstate p = s_header_almost_done) rest (g' val (g n u)) s_header_value_lws unmarked env)"
proof -
  obtain c cs where n: "n = c # cs" "token_name n" using assms(2) by (cases n) (auto simp: plain_name_def)
  obtain d ds where val: "val = d # ds" using assms(3) by (cases val) (auto simp: proper_value_def)
  let ?N = "\<lambda>p. quiet_of ty m v cl p \<and> header_state p \<in> plain_name_states"
  have start: "\<exists>q. value_start d (p\<lparr>index := 0\<rparr>) = Inr q \<and> plain_value ty m v cl (header_state q) q ds"
    if "?N p" for p
    using that by (cases "header_state p") (auto simp: value_start_def plain_value_def plain_name_states_def connection_states_def Let_def)
  have "reaches env x (ready (\<lambda>p. plain_value ty m v cl (header_state p) p [] \<and> pstate p = s_header_almost_done) rest
      (g' val (g n u)) s_header_value_lws unmarked env)"
    by (rule header_phase [where N = ?N and J = "plain_value ty m v cl", OF assms(1) n(2,1) _ _ _ assms(4,5,3) val start assms(6,7)])
      (use plain_name_run [OF assms(2) n(1)] plain_value_step in \<open>auto simp: plain_value_def dest: quiet_sel(3)\<close>)
  then show ?thesis
    by (rule reaches_mono) (auto simp: ready_def plain_value_def between_headers_def connection_states_def)
qed

section \<open>The length of the body\<close>

lemma dec_value_Cons: "dec_value k (c # ds) = dec_value (10 * k + digit c) ds"
  by (simp add: digit_def mult.commute)

lemma dec_value_ge: "k \<le> dec_value k ds"
proof (induction ds arbitrary: k)
  case (Cons c ds)
  from Cons.IH [of "10 * k + digit c"] show ?case unfolding dec_value_Cons by linarith
qed simp

declare dec_value.simps(2) [simp del]

definition length_value :: "http_parser_type \<Rightarrow> nat \<Rightarrow> nat \<times> nat \<Rightarrow> nat \<Rightarrow> header_states \<Rightarrow> http_parser \<Rightarrow> string \<Rightarrow> bool" where
  "length_value ty m v N h p cs \<longleftrightarrow> h = h_content_length_num \<and> (\<forall>c\<in>set cs. IS_NUM c) \<and> N < 2 ^ 60 \<and>
     (\<exists>k. quiet_of ty m v (of_nat k) p \<and> dec_value k cs = N)"

lemma unat_small: "k < 2 ^ 60 \<Longrightarrow> unat (of_nat k :: u64) = k"
  by (simp add: unsigned_of_nat take_bit_nat_eq_self)

lemma of_nat_not_max: "k < 2 ^ 60 \<Longrightarrow> (of_nat k :: u64) \<noteq> ULLONG_MAX"
proof
  assume k: "k < 2 ^ 60" and "(of_nat k :: u64) = ULLONG_MAX"
  then have "unat (of_nat k :: u64) = unat ULLONG_MAX" by simp
  moreover have "unat (- 1 :: u64) = 2 ^ 64 - 1" by (simp add: unsigned_minus_1_eq_mask mask_eq_exp_minus_1)
  ultimately show False using k unat_small [OF k] by (simp add: ULLONG_MAX_def)
qed

lemma length_value_step:
  assumes "length_value ty m v N h p (c # cs)"
  shows "\<exists>h' p'. value_char c h p = Inr (h', p') \<and> length_value ty m v N h' p' cs"
proof -
  obtain k where k: "quiet_of ty m v (of_nat k) p" "dec_value (10 * k + digit c) cs = N"
    using assms by (auto simp: length_value_def dec_value_Cons)
  have N: "N < 2 ^ 60" "h = h_content_length_num" "IS_NUM c" "\<forall>c\<in>set cs. IS_NUM c" using assms by (auto simp: length_value_def)
  have small: "10 * k + digit c < 2 ^ 60" using dec_value_ge [of "10 * k + digit c" cs] k(2) N(1) by simp
  have c: "c \<noteq> CHR '' ''" using N(3) by (auto simp: IS_NUM_def byte_def)
  have cl: "content_length p = of_nat k" using k(1) by (simp add: quiet_of_def)
  have "unat ((ULLONG_MAX - 10) div 10) = 1844674407370955160" by (simp add: ULLONG_MAX_def unat_div)
  then have "\<not> (ULLONG_MAX - 10) div 10 < content_length p"
    using small unat_small [of k] by (simp add: cl word_less_nat_alt)
  then have "value_char c h p = Inr (h_content_length_num, p\<lparr>content_length := of_nat (10 * k + digit c)\<rparr>)"
    using N c by (simp add: value_char_def content_length_digit_def Let_def cl digit_def algebra_simps)
  moreover have "quiet_of ty m v (of_nat (10 * k + digit c)) (p\<lparr>content_length := of_nat (10 * k + digit c)\<rparr>)"
    using k(1) of_nat_not_max [OF small] of_nat_not_max [of k] small by (simp add: quiet_of_def has_flag_def split: if_splits)
  ultimately show ?thesis using N k(2) unfolding length_value_def by blast
qed

text \<open>The header \<open>Content-Length\<close>, in any case, the first of its kind.\<close>

lemma length_line:
  assumes "ready (\<lambda>p. quiet_of ty m v ULLONG_MAX p \<and> between_headers s p) (header_line_text n val @ rest) u s unmarked env x"
    and "token_name n" and "lower n = CONTENT_LENGTH"
    and "val \<noteq> []" and "\<forall>c\<in>set val. IS_NUM c" and "dec_value 0 val < 2 ^ 60"
    and "on_header_field (settings env) = Some f" and "\<forall>p b u. f p b u = (0, p, g b u)"
    and "on_header_value (settings env) = Some f'" and "\<forall>p b u. f' p b u = (0, p, g' b u)"
  shows "reaches env x (ready (\<lambda>p. quiet_of ty m v (of_nat (dec_value 0 val)) p \<and> between_headers s_header_value_lws p) rest (g' val (g n u))
    s_header_value_lws unmarked env)"
proof -
  let ?N = "dec_value 0 val"
  obtain c cs where n: "n = c # cs" using assms(3) by (cases n) (auto simp: lower_def CONTENT_LENGTH_def)
  obtain d ds where val: "val = d # ds" using assms(4) by (cases val) auto
  have "IS_HEADER_CHAR b \<and> b \<noteq> CR \<and> b \<noteq> LF \<and> b \<noteq> CHR '' '' \<and> b \<noteq> HT" if "IS_NUM b" for b
    using that by (auto simp: IS_NUM_def IS_HEADER_CHAR_def CR_def LF_def HT_def byte_def)
  then have proper: "proper_value val" using assms(4,5) val by (simp add: proper_value_def value_text_def)
  have d: "IS_NUM d" "digit d < 2 ^ 60" "dec_value (digit d) ds = ?N"
    using assms(5) by (auto simp: val IS_NUM_def digit_def dec_value_Cons)
  have start: "\<exists>q. value_start d (p\<lparr>index := 0\<rparr>) = Inr q \<and> length_value ty m v ?N (header_state q) q ds"
    if "quiet_of ty m v ULLONG_MAX p \<and> header_state p = h_content_length" for p
  proof -
    let ?q = "(set_flag F_CONTENTLENGTH (p\<lparr>index := 0\<rparr>))\<lparr>content_length := of_nat (digit d), header_state := h_content_length_num\<rparr>"
    have "\<not> has_flag p F_CONTENTLENGTH" using that by (simp add: quiet_of_def)
    then have "value_start d (p\<lparr>index := 0\<rparr>) = Inr ?q"
      using d(1) that by (simp add: value_start_def Let_def digit_def has_flag_def)
    moreover have "quiet_of ty m v (of_nat (digit d)) ?q"
      using that of_nat_not_max [OF d(2)]
      by (simp add: quiet_of_def has_flag_def set_flag_def flag_defs bit.conj_disj_distrib2 split: if_splits)
    ultimately show ?thesis using d(3) assms(5,6) unfolding length_value_def by (auto simp: val)
  qed
  have "reaches env x (ready (\<lambda>p. length_value ty m v ?N (header_state p) p [] \<and> pstate p = s_header_almost_done) rest
      (g' val (g n u)) s_header_value_lws unmarked env)"
    by (rule header_phase [where N = "\<lambda>p. quiet_of ty m v ULLONG_MAX p \<and> header_state p = h_content_length" and J = "length_value ty m v ?N",
          OF assms(1,2) n _ _ _ assms(7,8) proper val start assms(9,10)])
      (use length_name_run [OF assms(2) n assms(3)] length_value_step in \<open>auto simp: length_value_def dest: quiet_sel(3)\<close>)
  then show ?thesis
    by (rule reaches_mono) (auto simp: ready_def length_value_def between_headers_def)
qed

end
