(* ===== verification/Parse_Request.thy ===== *)
theory Parse_Request
  imports Parse_Header
begin

text \<open>
  What \<open>HttpRequestParser::execute\<close> (\<open>src/http/http11_parser.cpp\<close>) makes of the text of a
  request: an abstract request, its text, and the \<open>HttpRequest\<close> it means.
\<close>

section \<open>Requests, their texts and their meaning\<close>

record request_spec =
  spMethod :: nat
  spUrl :: string
  spMajor :: char
  spMinor :: char
  spHeaders :: "(string \<times> string) list"
  spBody :: string

text \<open>A body comes with its length.\<close>

definition all_headers :: "request_spec \<Rightarrow> (string \<times> string) list" where
  "all_headers r = spHeaders r @ (if spBody r = [] then [] else [(''Content-Length'', to_dec (length (spBody r)))])"

definition request_head :: "request_spec \<Rightarrow> string" where
  "request_head r =
     method_strings ! spMethod r @ '' '' @ spUrl r @ '' '' @ version_line (spMajor r) (spMinor r) @
     concat (map (case_prod header_line_text) (all_headers r)) @ [CR, LF]"

definition request_text :: "request_spec \<Rightarrow> string" where
  "request_text r = request_head r @ spBody r"

text \<open>
  Any method but \<open>CONNECT\<close>, any URL of the automaton, any version, headers whose names are not
  those that frame the message, and any body.
\<close>

definition well_formed :: "request_spec \<Rightarrow> bool" where
  "well_formed r \<longleftrightarrow> spMethod r < length method_strings \<and> spMethod r \<noteq> HTTP_CONNECT \<and> url_ok (spUrl r) \<and>
     IS_NUM (spMajor r) \<and> IS_NUM (spMinor r) \<and> list_all (\<lambda>(n, v). plain_name n \<and> proper_value v) (spHeaders r)"

definition keep_alive_after :: "(string \<times> string) list \<Rightarrow> bool" where
  "keep_alive_after hs =
     foldl (\<lambda>k (n, v). if strcasecmp n ''connection'' = 0 then strcasecmp v ''close'' \<noteq> 0 else k) False hs"

definition meaning :: "request_spec \<Rightarrow> http_request" where
  "meaning r =
     \<lparr>reqMethod = spMethod r, reqTmpHeader = (if all_headers r = [] then '''' else fst (last (all_headers r))),
      reqVersion = [spMajor r, CHR ''.'', spMinor r], reqQuery = '''', reqPath = spUrl r, reqFrag = '''',
      reqBody = spBody r, reqKeepAlive = keep_alive_after (all_headers r), reqWebSocket = False,
      reqHeaders = foldl (\<lambda>m (n, v). map_assign CaseInsensitiveLess n v m) [] (all_headers r),
      reqCookies = [], reqParams = []\<rparr>"

section \<open>The end of the headers\<close>

lemma runs_byte:
  assumes "execute_byte env y = Break y'" and "xpos y < length (data env)"
  shows "runs env 1 y (y'\<lparr>xpos := xpos y' + 1\<rparr>)"
  using assms by (simp add: runs_def)

text \<open>All bytes are read, and no callback is due.\<close>

definition finished :: "'u \<Rightarrow> 'u env \<Rightarrow> 'u xstate \<Rightarrow> bool" where
  "finished u env z \<longleftrightarrow> xpos z = length (data env) \<and> marks z = unmarked \<and> xusr z = u \<and> http_errno (xp z) = HPE_OK"

lemma loop_returns:
  assumes "reaches env x Q" and "xpos x = 0"
    and "\<And>z. Q z \<Longrightarrow> xpos z = length (data env) \<and> (\<exists>w. flush_marks env z = Return (length (data env)) w \<and> R w)"
  shows "\<exists>w. execute_loop (Suc (length (data env))) env x = Return (length (data env)) w \<and> R w"
proof -
  obtain k z where z: "runs env k x z" "k \<le> xpos z" "Q z" using assms(1,2) by (auto simp: reaches_def)
  obtain w where w: "xpos z = length (data env)" "flush_marks env z = Return (length (data env)) w" "R w"
    using assms(3) [OF z(3)] by blast
  obtain n where n: "Suc (length (data env)) = k + Suc n"
    using z(2) w(1) by (metis add_Suc_right le_Suc_ex)
  have "execute_loop (Suc n) env z = Return (length (data env)) w" using w by simp
  then show ?thesis using z(1) w(3) unfolding n runs_def by (simp del: execute_loop.simps add_Suc_right)
qed

lemma flush_unmarked:
  assumes "marks z = unmarked" and "http_errno (xp z) = HPE_OK"
  shows "flush_marks env z = Return (length (data env)) (z\<lparr>xp := (xp z)\<lparr>nread := xnread z, pstate := xst z\<rparr>\<rparr>)"
  using assms
  by (simp add: flush_marks_def marks_def unmarked_def mark_count_def ASSERT_def RETURN_def
      data_header_field_def data_header_value_def data_url_def data_body_def data_status_def CALLBACK_DATA0_def)

lemma finished_returns:
  "reaches env x (finished u env) \<Longrightarrow> xpos x = 0 \<Longrightarrow>
    \<exists>z. execute_loop (Suc (length (data env))) env x = Return (length (data env)) z \<and> xusr z = u"
  by (rule loop_returns [where Q = "finished u env"]) (auto simp: finished_def flush_unmarked)

lemma headers_end:
  assumes "ready (\<lambda>p. quiet m v cl p \<and> between_headers s p) (CR # rest) u s unmarked env x"
  shows "reaches env x (ready (quiet m v cl) rest u s_headers_almost_done unmarked env)"
proof (rule ready_turn [OF assms])
  show "PARSING_HEADER s" using assms PARSING_header(8) by (auto simp: ready_def)
  fix y assume y: "fetched (\<lambda>p. quiet m v cl p \<and> between_headers s p) CR rest u s unmarked env y"
  let ?P = "\<lambda>y'. xpos y' = xpos y \<and> xnread y' = xnread y \<and> quiet m v cl (xp y') \<and> xusr y' = u \<and>
    xst y' = s_headers_almost_done \<and> marks y' = unmarked"
  have start: "turn env n (y\<lparr>xst := s_header_field_start, xp := p\<rparr>) ?P" if "quiet m v cl p" "0 < n" for p n
    by (rule turn_break [OF _ _ that(2), where y' = "y\<lparr>xst := s_headers_almost_done, xp := p\<rparr>"])
      (use y that in \<open>auto simp: fetched_def execute_case_def case_header_field_start_def marks_def\<close>)
  show "turn env reexec_limit y ?P"
    by (rule between_turn [where c = CR and s = s])
      (use y start in \<open>auto simp: fetched_def CR_def HT_def\<close>)
qed

text \<open>The line end after the headers: the message is complete, or its body follows.\<close>

lemma last_line:
  assumes "ready (quiet m v cl) (LF # body) u s_headers_almost_done unmarked env x" and "m \<noteq> HTTP_CONNECT"
    and "on_headers_complete (settings env) = Some f" and "\<And>p. quiet m v cl p \<Longrightarrow> f p u = (0, p, u')"
  shows "\<exists>y. xpos y = xpos x \<and> quiet m v cl (xp y) \<and> \<not> upgrade (xp y) \<and> xusr y = u' \<and> marks y = unmarked \<and>
    xst y = s_headers_done \<and> xch y = LF \<and> execute_byte env x = reexecute 7 env y"
proof -
  let ?y = "x\<lparr>xch := LF, xnread := xnread x + 1\<rparr>"
  let ?p = "(xp x)\<lparr>upgrade := False\<rparr>"
  let ?z = "?y\<lparr>xst := s_headers_done, xp := ?p, xusr := u'\<rparr>"
  have pos: "xpos x < length (data env)" "data env ! xpos x = LF" using assms(1) drop_Cons_pos unfolding ready_def by metis+
  have q: "quiet m v cl (xp x)" "quiet m v cl ?p" using assms(1) by (auto simp: ready_def quiet_def has_flag_def)
  have n: "\<not> max_header_size env < xnread x + 1"
    using assms(1) pos(1) count_bytes(1) [of "xnread x" 1 "max_header_size env"] by (simp add: ready_def not_less)
  have up: "upgrade_of (xp x) = False" using q(1) assms(2) by (simp add: upgrade_of_def quiet_def)
  have "execute_case env ?y = Reexec ?z"
    using assms(1,3) assms(4) [OF q(2)] q(1) up
    by (simp add: ready_def execute_case_def case_headers_almost_done_def STRICT_CHECK_def length_conflict_def
        headers_complete_def quiet_def)
  then have "reexecute reexec_limit env ?y = reexecute 7 env ?z" by (simp add: reexec_limit_def eval_nat_numeral)
  then have "execute_byte env x = reexecute 7 env ?z"
    using assms(1) pos(2) n PARSING_header(7) by (simp add: execute_byte_def COUNT_HEADER_SIZE_def Let_def ready_def)
  then show ?thesis using assms(1) q(2)
    by (intro exI [of _ ?z]) (simp add: ready_def marks_def unmarked_def)
qed

lemma finish_message_break:
  assumes "http_errno (xp y) = HPE_OK" and "on_message_complete (settings env) = Some f" and "\<And>p. f p u = (0, p, u')"
    and "xusr y = u"
  shows "finish_message env y k = k (y\<lparr>xp := (xp y)\<lparr>pstate := NEW_MESSAGE (xp y)\<rparr>, xusr := u', xst := NEW_MESSAGE (xp y)\<rparr>)"
  using assms by (simp add: finish_message_def CALLBACK_NOTIFY0_def ASSERT_def after_callback_def)

lemma message_end:
  assumes "ready (quiet m v cl) [LF] u s_headers_almost_done unmarked env x" and "m \<noteq> HTTP_CONNECT"
    and "cl = ULLONG_MAX"
    and "on_headers_complete (settings env) = Some f" and "\<And>p. quiet m v cl p \<Longrightarrow> f p u = (0, p, u')"
    and "on_message_complete (settings env) = Some f'" and "\<And>p. f' p u' = (0, p, u'')"
  shows "reaches env x (finished u'' env)"
proof -
  obtain y where y: "xpos y = xpos x" "quiet m v cl (xp y)" "\<not> upgrade (xp y)" "xusr y = u'" "marks y = unmarked"
      "xst y = s_headers_done" "xch y = LF" "execute_byte env x = reexecute 7 env y"
    using last_line [OF assms(1,2,4,5)] by blast
  let ?y = "(on_parser (\<lambda>p. p\<lparr>nread := 0\<rparr>) y)\<lparr>xnread := 0\<rparr>"
  let ?s = "NEW_MESSAGE (xp ?y)"
  let ?z = "?y\<lparr>xst := ?s, xp := (xp ?y)\<lparr>pstate := ?s\<rparr>, xusr := u''\<rparr>"
  have "execute_case env y = Break ?z"
    using y assms(3) finish_message_break [of ?y env f' u' u'' Break] assms(6,7)
    by (simp add: execute_case_def case_headers_done_def STRICT_CHECK_def quiet_def has_flag_def
        http_message_needs_eof_def ULLONG_MAX_def Let_def)
  then have "execute_byte env x = Break ?z" using y(8) by (simp add: eval_nat_numeral)
  from runs_byte [OF this] have "runs env 1 x (?z\<lparr>xpos := xpos ?z + 1\<rparr>)"
    using ready_pos [OF assms(1)] by simp
  moreover have "finished u'' env (?z\<lparr>xpos := xpos ?z + 1\<rparr>)"
    using y ready_pos [OF assms(1)] by (auto simp: finished_def marks_def unmarked_def quiet_def)
  ultimately show ?thesis unfolding reaches_def using y(1)
    by (intro exI [of _ 1] exI [of _ "?z\<lparr>xpos := xpos ?z + 1\<rparr>"]) simp
qed

section \<open>The body\<close>

text \<open>\<open>k\<close> bytes of the body are still to come, and \<open>rest\<close> is what is left of the data.\<close>

definition body_left :: "nat \<Rightarrow> http_parser \<Rightarrow> bool" where
  "body_left k p \<longleftrightarrow> http_errno p = HPE_OK \<and> \<not> upgrade p \<and> content_length p = of_nat k"

definition in_body :: "nat \<Rightarrow> string \<Rightarrow> 'u \<Rightarrow> 'u env \<Rightarrow> 'u xstate \<Rightarrow> bool" where
  "in_body k rest u env x \<longleftrightarrow> drop (xpos x) (data env) = rest \<and> xpos x \<le> length (data env) \<and> xst x = s_body_identity \<and>
     xusr x = u \<and> body_left k (xp x) \<and> marks x = unmarked"

lemma body_start:
  assumes "ready (quiet m v (of_nat k)) (LF # rest) u s_headers_almost_done unmarked env x" and "m \<noteq> HTTP_CONNECT"
    and "0 < k" and "k < 2 ^ 60"
    and "on_headers_complete (settings env) = Some f" and "\<And>p. quiet m v (of_nat k) p \<Longrightarrow> f p u = (0, p, u')"
  shows "reaches env x (in_body k rest u' env)"
proof -
  let ?cl = "of_nat k :: u64"
  have cl: "?cl \<noteq> ULLONG_MAX" "?cl \<noteq> 0"
    using of_nat_not_max [OF assms(4)] unat_small [OF assms(4)] assms(3) by auto
  obtain y where y: "xpos y = xpos x" "quiet m v ?cl (xp y)" "\<not> upgrade (xp y)" "xusr y = u'" "marks y = unmarked"
      "xst y = s_headers_done" "xch y = LF" "execute_byte env x = reexecute 7 env y"
    using last_line [OF assms(1,2,5,6)] by blast
  let ?y = "(on_parser (\<lambda>p. p\<lparr>nread := 0\<rparr>) y)\<lparr>xnread := 0, xst := s_body_identity\<rparr>"
  have "execute_case env y = Break ?y"
    using y cl
    by (simp add: execute_case_def case_headers_done_def STRICT_CHECK_def quiet_def has_flag_def Let_def)
  then have "execute_byte env x = Break ?y" using y(8) by (simp add: eval_nat_numeral)
  from runs_byte [OF this] have "runs env 1 x (?y\<lparr>xpos := xpos x + 1\<rparr>)"
    using ready_pos [OF assms(1)] y(1) by simp
  moreover have "drop (Suc (xpos x)) (data env) = rest"
    using assms(1) by (simp add: ready_def) (metis drop_Suc list.sel(3) tl_drop)
  then have "in_body k rest u' env (?y\<lparr>xpos := xpos x + 1\<rparr>)"
    using y ready_pos [OF assms(1)] by (auto simp: in_body_def body_left_def quiet_def marks_def)
  ultimately show ?thesis unfolding reaches_def
    by (intro exI [of _ 1] exI [of _ "?y\<lparr>xpos := xpos x + 1\<rparr>"]) simp
qed

text \<open>The first byte of a piece of the body takes all of it.\<close>

lemma body_byte:
  assumes "in_body k b u env x" and "b \<noteq> []" and "length b \<le> k" and "k < 2 ^ 60"
  shows "xpos x < length (data env)" and "xpos x + length b = length (data env)"
    and "execute_byte env x = reexecute reexec_limit env (x\<lparr>xch := data env ! xpos x\<rparr>)"
    and "execute_case env (x\<lparr>xch := data env ! xpos x\<rparr>) =
      (let y = x\<lparr>xch := data env ! xpos x, body_mark := Some (xpos x),
         xp := (xp x)\<lparr>content_length := of_nat (k - length b)\<rparr>, xpos := length (data env) - 1\<rparr>
       in if length b = k then data_body env (length (data env)) (length (data env) - 1) (UPDATE_STATE s_message_done y) Reexec
          else Break y)"
proof -
  have b: "0 < length b" using assms(2) by simp
  have len: "length b = length (data env) - xpos x" using assms(1) by (auto simp: in_body_def)
  show pos: "xpos x < length (data env)" "xpos x + length b = length (data env)" using len b by simp_all
  show "execute_byte env x = reexecute reexec_limit env (x\<lparr>xch := data env ! xpos x\<rparr>)"
    using assms(1) by (simp add: execute_byte_def in_body_def header_states_before_body)
  have cl: "(of_nat k :: u64) \<noteq> ULLONG_MAX" "unat (of_nat k :: u64) = k" "(of_nat k :: u64) \<noteq> 0"
    using of_nat_not_max [OF assms(4)] unat_small [OF assms(4)] assms(3) b by auto
  let ?x = "x\<lparr>xch := data env ! xpos x\<rparr>"
  have take: "to_read env ?x = length b" using assms(1,3) len cl(2) by (simp add: to_read_def in_body_def body_left_def)
  have left: "content_length (xp x) - of_nat (length b) = of_nat (k - length b)"
    using assms(1,3) by (simp add: in_body_def body_left_def of_nat_diff)
  have "unat (of_nat (k - length b) :: u64) = k - length b" by (rule unat_small) (use assms(4) in simp)
  then have "(of_nat (k - length b) :: u64) = 0 \<longleftrightarrow> k - length b = 0" by (metis unsigned_eq_0_iff)
  also have "\<dots> \<longleftrightarrow> length b = k" using assms(3) by linarith
  finally have zero: "(of_nat (k - length b) :: u64) = 0 \<longleftrightarrow> length b = k" .
  have last: "Suc (length (data env) - Suc 0) = length (data env)" "xpos x + length b - 1 = length (data env) - 1"
    using pos by linarith+
  show "execute_case env ?x =
      (let y = x\<lparr>xch := data env ! xpos x, body_mark := Some (xpos x),
         xp := (xp x)\<lparr>content_length := of_nat (k - length b)\<rparr>, xpos := length (data env) - 1\<rparr>
       in if length b = k then data_body env (length (data env)) (length (data env) - 1) (UPDATE_STATE s_message_done y) Reexec
          else Break y)"
    using assms(1) cl(1,3) take left zero last
    by (simp add: execute_case_def case_body_identity_def take_body_def Let_def ASSERT_def in_body_def body_left_def
        marks_def unmarked_def MARK_def)
qed

text \<open>The piece that completes the body completes the message.\<close>

lemma body_whole:
  assumes "in_body (length b) b u env x" and "b \<noteq> []" and "length b < 2 ^ 60"
    and "on_message_complete (settings env) = Some f" and "\<And>p. f p (g b u) = (0, p, u')"
    and "on_body (settings env) = Some f'" and "\<forall>p b u. f' p b u = (0, p, g b u)"
  shows "reaches env x (finished u' env)"
proof -
  note byte = body_byte [OF assms(1,2) order_refl assms(3)]
  let ?b = "x\<lparr>xch := data env ! xpos x\<rparr>"
  let ?d = "?b\<lparr>xpos := length (data env) - 1, xp := (xp x)\<lparr>content_length := 0, pstate := s_message_done\<rparr>,
    xst := s_message_done, xusr := g b u\<rparr>"
  have x: "drop (xpos x) (data env) = b" "xusr x = u" "http_errno (xp x) = HPE_OK" "\<not> upgrade (xp x)" "marks x = unmarked"
    using assms(1) by (auto simp: in_body_def body_left_def)
  have "take (length (data env) - xpos x) b = b" using byte(2) by simp
  then have "execute_case env ?b = Reexec ?d"
    using byte(1,4) assms(6) x
    by (simp add: data_body_def marks_def unmarked_def data_callback [OF assms(7)])
  moreover have "execute_case env ?d = Break (?d\<lparr>xst := NEW_MESSAGE (xp ?d), xp := (xp ?d)\<lparr>pstate := NEW_MESSAGE (xp ?d)\<rparr>, xusr := u'\<rparr>)"
    (is "_ = Break ?z")
    using x finish_message_break [of ?d env f "g b u" u'] assms(4,5)
    by (simp add: execute_case_def case_message_done_def)
  ultimately have "execute_byte env x = Break ?z" unfolding byte(3) by (simp add: reexec_limit_def eval_nat_numeral)
  moreover have "Suc (length (data env) - Suc 0) = length (data env)" using byte(1) by linarith
  ultimately have "runs env 1 x (?z\<lparr>xpos := length (data env)\<rparr>)" using runs_byte [OF _ byte(1)] by fastforce
  moreover have "finished u' env (?z\<lparr>xpos := length (data env)\<rparr>)"
    using x by (auto simp: finished_def marks_def unmarked_def)
  ultimately show ?thesis unfolding reaches_def using byte(1)
    by (intro exI [of _ 1] exI [of _ "?z\<lparr>xpos := length (data env)\<rparr>"]) simp
qed

section \<open>What the callbacks collect\<close>

definition take_header :: "request_data \<Rightarrow> string \<times> string \<Rightarrow> request_data" where
  "take_header u h = (case h of (n, v) \<Rightarrow>
     snd (snd (request_header_value_callback (http_parser_init HTTP_REQUEST) v (on_req (req_setTmpHeader n) u))))"

lemma request_callbacks:
  "on_url request_settings = Some request_url_callback" "on_header_field request_settings = Some request_header_field_callback"
  "on_header_value request_settings = Some request_header_value_callback" "on_body request_settings = Some request_body_callback"
  "on_headers_complete request_settings = Some request_header_complete" "on_message_begin request_settings = None"
  "on_message_complete request_settings = Some request_body_complete"
  by (simp_all add: request_settings_def http_parser_settings_init_def)

lemma take_headers:
  "foldl take_header u hs = u\<lparr>reqData := (reqData u)
     \<lparr>reqTmpHeader := (if hs = [] then reqTmpHeader (reqData u) else fst (last hs)),
      reqKeepAlive := foldl (\<lambda>k (n, v). if strcasecmp n ''connection'' = 0 then strcasecmp v ''close'' \<noteq> 0 else k)
                        (reqKeepAlive (reqData u)) hs,
      reqHeaders := foldl (\<lambda>m (n, v). map_assign CaseInsensitiveLess n v m) (reqHeaders (reqData u)) hs\<rparr>\<rparr>"
proof (induction hs arbitrary: u)
  case (Cons h hs)
  then show ?case
    by (cases h) (simp add: take_header_def request_header_value_callback_def req_setTmpHeader_def req_setKeepAlive_def
        req_addHeader_def Let_def)
qed simp

lemma header_value_callback:
  "\<forall>p v u. request_header_value_callback p v u =
     (0, p, snd (snd (request_header_value_callback (http_parser_init HTTP_REQUEST) v u)))"
  by (simp add: request_header_value_callback_def Let_def)

lemma header_field_callback: "\<forall>p n u. request_header_field_callback p n u = (0, p, on_req (req_setTmpHeader n) u)"
  by (simp add: request_header_field_callback_def)

lemma headers_phase:
  assumes "ready (\<lambda>p. quiet m v cl p \<and> between_headers s p) (concat (map (case_prod header_line_text) hs) @ rest) u s unmarked env x"
    and "list_all (\<lambda>(n, v). plain_name n \<and> proper_value v) hs" and "settings env = request_settings"
  shows "reaches env x (ready (\<lambda>p. quiet m v cl p \<and> between_headers (if hs = [] then s else s_header_value_lws) p)
    rest (foldl take_header u hs) (if hs = [] then s else s_header_value_lws) unmarked env)"
  using assms(1,2)
proof (induction hs arbitrary: s u x)
  case Nil
  then show ?case by (auto intro!: reaches_refl)
next
  case (Cons h hs)
  obtain n w where h: "h = (n, w)" by (cases h)
  let ?rest = "concat (map (case_prod header_line_text) hs) @ rest"
  have one: "reaches env x (ready (\<lambda>p. quiet m v cl p \<and> between_headers s_header_value_lws p) ?rest (take_header u h)
      s_header_value_lws unmarked env)"
    unfolding h take_header_def prod.case
    by (rule reaches_mono [OF plain_line [OF _ _ _ _ header_field_callback _ header_value_callback]])
      (use Cons.prems assms(3) request_callbacks in \<open>auto simp: h elim: ready_mono\<close>)
  show ?case
    by (rule reaches_trans [OF one]) (use Cons.IH [where s = s_header_value_lws, unfolded if_cancel] Cons.prems(2) in simp)
qed

lemma version_text_digits:
  assumes "(http_major p, http_minor p) = (digit a, digit b)" and "IS_NUM a" and "IS_NUM b"
  shows "version_text p = [a, CHR ''.'', b]"
proof -
  have one: "to_dec (digit c mod 65536) = [c]" if "IS_NUM c" for c
  proof -
    have "digit c < 10" "48 + digit c = byte c" using that by (auto simp: IS_NUM_def digit_def)
    then show ?thesis by (subst to_dec.simps) (simp add: digit_char_def)
  qed
  show ?thesis using assms one by (simp add: version_text_def)
qed

text \<open>The request line.\<close>

lemma line_phase:
  assumes "well_formed r" and "settings env = request_settings"
    and "ready (\<lambda>p. p = http_parser_init HTTP_REQUEST) (method_strings ! spMethod r @ '' '' @ spUrl r @ '' '' @
      version_line (spMajor r) (spMinor r) @ rest) u s_start_req unmarked env x"
  shows "reaches env x (ready (\<lambda>p. quiet (spMethod r) (digit (spMajor r), digit (spMinor r)) ULLONG_MAX p \<and>
    between_headers s_header_field_start p) rest (on_req (req_setPath (spUrl r)) u) s_header_field_start unmarked env)"
proof -
  let ?u = "on_req (req_setPath (spUrl r)) u"
  have "reaches env x (ready (fresh (spMethod r)) (spUrl r @ CHR '' '' # version_line (spMajor r) (spMinor r) @ rest) u
      s_req_spaces_before_url unmarked env)"
    using assms by (intro method_phase) (simp_all add: well_formed_def request_callbacks)
  then have "reaches env x (ready (fresh (spMethod r)) (version_line (spMajor r) (spMinor r) @ rest) ?u s_req_http_start unmarked env)"
    by (rule reaches_trans)
      (rule url_phase [where f = request_url_callback and g = "\<lambda>b. on_req (req_setPath b)"],
        use assms(1,2) in \<open>simp_all add: well_formed_def request_callbacks request_url_callback_def\<close>)
  then have "reaches env x (ready (quiet (spMethod r) (digit (spMajor r), digit (spMinor r)) ULLONG_MAX) rest ?u
      s_header_field_start unmarked env)"
    by (rule reaches_trans) (rule version_phase, use assms(1) in \<open>simp_all add: well_formed_def\<close>)
  then show ?thesis by (rule reaches_mono) (simp add: ready_def between_headers_def)
qed

section \<open>A request in one piece\<close>

lemma header_end_phase:
  assumes "well_formed r" and "settings env = request_settings"
    and "ready (\<lambda>p. quiet m v ULLONG_MAX p \<and> between_headers s_header_field_start p)
      (concat (map (case_prod header_line_text) (all_headers r)) @ [CR, LF] @ body) u s_header_field_start unmarked env x"
    and "length (spBody r) < 2 ^ 60"
  shows "reaches env x (ready (quiet m v (if spBody r = [] then ULLONG_MAX else of_nat (length (spBody r)))) (LF # body)
    (foldl take_header u (all_headers r)) s_headers_almost_done unmarked env)"
proof -
  let ?s = "if spHeaders r = [] then s_header_field_start else s_header_value_lws"
  let ?cl = "if spBody r = [] then ULLONG_MAX else of_nat (length (spBody r))"
  let ?line = "header_line_text ''Content-Length'' (to_dec (length (spBody r)))"
  let ?rest = "(if spBody r = [] then [] else ?line) @ CR # LF # body"
  have hs: "reaches env x (ready (\<lambda>p. quiet m v ULLONG_MAX p \<and> between_headers ?s p) ?rest
      (foldl take_header u (spHeaders r)) ?s unmarked env)"
    using assms(3) by (intro headers_phase) (use assms(1,2) in \<open>auto simp: all_headers_def well_formed_def\<close>)
  have "\<exists>s. \<forall>y. ready (\<lambda>p. quiet m v ULLONG_MAX p \<and> between_headers ?s p) ?rest (foldl take_header u (spHeaders r)) ?s unmarked env y
      \<longrightarrow> reaches env y (ready (\<lambda>p. quiet m v ?cl p \<and> between_headers s p) (CR # LF # body)
        (foldl take_header u (all_headers r)) s unmarked env)"
  proof (cases "spBody r = []")
    case True
    then show ?thesis by (intro exI [of _ ?s]) (auto simp: all_headers_def intro!: reaches_refl)
  next
    case False
    have name: "token_name ''Content-Length''" "lower ''Content-Length'' = CONTENT_LENGTH" by code_simp+
    have "reaches env y (ready (\<lambda>p. quiet m v ?cl p \<and> between_headers s_header_value_lws p) (CR # LF # body)
        (foldl take_header u (all_headers r)) s_header_value_lws unmarked env)"
      if "ready (\<lambda>p. quiet m v ULLONG_MAX p \<and> between_headers ?s p) ?rest (foldl take_header u (spHeaders r)) ?s unmarked env y" for y
      using length_line [OF _ name to_dec_not_Nil _ _ _ header_field_callback _ header_value_callback,
          of HTTP_REQUEST m v ?s "length (spBody r)" "CR # LF # body" "foldl take_header u (spHeaders r)" env y]
        that False assms(2,4) to_dec_digits request_callbacks
      by (simp add: all_headers_def take_header_def)
    then show ?thesis by blast
  qed
  then obtain s where s: "\<And>y. ready (\<lambda>p. quiet m v ULLONG_MAX p \<and> between_headers ?s p) ?rest (foldl take_header u (spHeaders r)) ?s unmarked env y
      \<Longrightarrow> reaches env y (ready (\<lambda>p. quiet m v ?cl p \<and> between_headers s p) (CR # LF # body)
        (foldl take_header u (all_headers r)) s unmarked env)"
    by blast
  show ?thesis
    by (rule reaches_trans [OF reaches_trans [OF hs s]]) (assumption | erule headers_end)+
qed

text \<open>What is known of the request when its headers are over.\<close>

definition head_data :: "request_spec \<Rightarrow> request_data" where
  "head_data r = \<lparr>reqData = (meaning r)\<lparr>reqBody := []\<rparr>, reqFinish = False\<rparr>"

definition raw_head_data :: "request_spec \<Rightarrow> request_data" where
  "raw_head_data r = foldl take_header (on_req (req_setPath (spUrl r))
     \<lparr>reqData = newHttpRequest ''1.1'' False, reqFinish = False\<rparr>) (all_headers r)"

lemma head_complete:
  assumes "well_formed r" and "(http_major p, http_minor p) = (digit (spMajor r), digit (spMinor r))" and "meth p = spMethod r"
  shows "request_header_complete p (raw_head_data r) = (0, p, head_data r)"
proof -
  have wf: "IS_NUM (spMajor r)" "IS_NUM (spMinor r)" using assms(1) by (simp_all add: well_formed_def)
  show ?thesis
    using version_text_digits [OF assms(2) wf] assms(3)
    by (simp add: request_header_complete_def Let_def head_data_def raw_head_data_def take_headers meaning_def
        newHttpRequest_def req_setPath_def req_setVersion_def req_setMethod_def keep_alive_after_def)
qed

text \<open>The head of a request, followed by some bytes of its body.\<close>

lemma head_run:
  assumes "well_formed r" and "length (request_head r @ b) \<le> unat HTTP_MAX_HEADER_SIZE" and "length (spBody r) < 2 ^ 60"
    and "env = make_env request_settings HTTP_MAX_HEADER_SIZE (http_parser_init HTTP_REQUEST) (request_head r @ b)"
    and "u = \<lparr>reqData = newHttpRequest ''1.1'' False, reqFinish = False\<rparr>"
  shows "reaches env (initial_xstate (http_parser_init HTTP_REQUEST) u)
    (ready (quiet (spMethod r) (digit (spMajor r), digit (spMinor r))
       (if spBody r = [] then ULLONG_MAX else of_nat (length (spBody r)))) (LF # b) (raw_head_data r)
       s_headers_almost_done unmarked env)"
proof -
  let ?x = "initial_xstate (http_parser_init HTTP_REQUEST) u"
  have env: "settings env = request_settings" "data env = request_head r @ b" "max_header_size env = HTTP_MAX_HEADER_SIZE"
    by (simp_all add: assms(4) make_env_def)
  have "ready (\<lambda>p. p = http_parser_init HTTP_REQUEST) (request_head r @ b) u s_start_req unmarked env ?x"
    using assms(2) env
    by (simp add: ready_def initial_xstate_def http_parser_init_def marks_def unmarked_def url_states_def)
  then have "reaches env ?x (ready (\<lambda>p. quiet (spMethod r) (digit (spMajor r), digit (spMinor r)) ULLONG_MAX p \<and>
      between_headers s_header_field_start p) (concat (map (case_prod header_line_text) (all_headers r)) @ [CR, LF] @ b)
      (on_req (req_setPath (spUrl r)) u) s_header_field_start unmarked env)"
    by (intro line_phase [OF assms(1) env(1)]) (simp add: request_head_def)
  then show ?thesis unfolding raw_head_data_def assms(5)
    by (rule reaches_trans) (erule header_end_phase [OF assms(1) env(1) _ assms(3)])
qed

lemma request_run:
  assumes "well_formed r" and "length (request_text r) \<le> unat HTTP_MAX_HEADER_SIZE"
    and "env = make_env request_settings HTTP_MAX_HEADER_SIZE (http_parser_init HTTP_REQUEST) (request_text r)"
    and "u = \<lparr>reqData = newHttpRequest ''1.1'' False, reqFinish = False\<rparr>"
  shows "reaches env (initial_xstate (http_parser_init HTTP_REQUEST) u)
    (finished \<lparr>reqData = meaning r, reqFinish = True\<rparr> env)"
proof -
  let ?m = "spMethod r" and ?v = "(digit (spMajor r), digit (spMinor r))" and ?body = "spBody r"
  let ?cl = "if ?body = [] then ULLONG_MAX else of_nat (length ?body)"
  have env: "settings env = request_settings" "data env = request_text r" "max_header_size env = HTTP_MAX_HEADER_SIZE"
    by (simp_all add: assms(3) make_env_def)
  have m: "?m \<noteq> HTTP_CONNECT" using assms(1) by (simp add: well_formed_def)
  have "unat HTTP_MAX_HEADER_SIZE = 81920" by (simp add: HTTP_MAX_HEADER_SIZE_def)
  then have small: "length ?body < 2 ^ 60" using assms(2) by (simp add: request_text_def)
  have complete: "request_header_complete p (raw_head_data r) = (0, p, head_data r)" if "quiet ?m ?v cl p" for p cl
    using that by (intro head_complete [OF assms(1)]) (simp_all add: quiet_def)
  have "reaches env y (finished \<lparr>reqData = meaning r, reqFinish = True\<rparr> env)"
    if y: "ready (quiet ?m ?v ?cl) (LF # ?body) (raw_head_data r) s_headers_almost_done unmarked env y" for y
  proof (cases "?body = []")
    case True
    show ?thesis
    proof (rule message_end [where f = request_header_complete and f' = request_body_complete and u' = "head_data r", OF _ m])
      show "request_body_complete p (head_data r) = (0, p, \<lparr>reqData = meaning r, reqFinish = True\<rparr>)" for p
        using True by (simp add: request_body_complete_def head_data_def meaning_def)
    qed (use y True env(1) request_callbacks complete in simp_all)
  next
    case False
    have "reaches env y (in_body (length ?body) ?body (head_data r) env)"
      by (rule body_start [OF _ m _ small, where f = request_header_complete])
        (use y False env(1) request_callbacks complete in simp_all)
    then show ?thesis
    proof (rule reaches_trans)
      fix x assume x: "in_body (length ?body) ?body (head_data r) env x"
      show "reaches env x (finished \<lparr>reqData = meaning r, reqFinish = True\<rparr> env)"
        by (rule body_whole [OF x False small, where g = "\<lambda>b. on_req (req_setBody b)" and f = request_body_complete
              and f' = request_body_callback])
          (simp_all add: env(1) request_callbacks request_body_complete_def head_data_def req_setBody_def meaning_def
            request_body_callback_def)
    qed
  qed
  then show ?thesis
    using head_run [OF assms(1) _ small, of ?body env u] assms(2-4) by (auto simp: request_text_def intro: reaches_trans)
qed

text \<open>What a run over all bytes of a message returns to the caller.\<close>

lemma request_returns:
  assumes "reaches (make_env request_settings HTTP_MAX_HEADER_SIZE (http_parser_init HTTP_REQUEST) d)
      (initial_xstate (http_parser_init HTTP_REQUEST) \<lparr>reqData = newHttpRequest ''1.1'' False, reqFinish = False\<rparr>)
      (finished u (make_env request_settings HTTP_MAX_HEADER_SIZE (http_parser_init HTTP_REQUEST) d))"
    and "d \<noteq> []"
  shows "\<exists>p. request_execute newHttpRequestParser d = Inr (length d, \<lparr>rqParser = p, rqData = u\<rparr>)"
proof -
  let ?p = "http_parser_init HTTP_REQUEST"
  let ?env = "make_env request_settings HTTP_MAX_HEADER_SIZE ?p d"
  from finished_returns [OF assms(1)] obtain z
    where "execute_loop (Suc (length (data ?env))) ?env (initial_xstate ?p \<lparr>reqData = newHttpRequest ''1.1'' False, reqFinish = False\<rparr>)
        = Return (length (data ?env)) z" "xusr z = u"
    by (auto simp: initial_xstate_def)
  moreover have "data ?env = d" "http_errno ?p = HPE_OK" by (simp_all add: make_env_def http_parser_init_def)
  ultimately show ?thesis using assms(2)
    by (simp add: request_execute_def newHttpRequestParser_def http_parser_execute_def Let_def del: execute_loop.simps)
qed

lemma request_parse_ok:
  assumes "well_formed r" and "length (request_text r) \<le> 81920"
  shows "\<exists>p. request_execute newHttpRequestParser (request_text r) =
    Inr (length (request_text r), \<lparr>rqParser = p, rqData = \<lparr>reqData = meaning r, reqFinish = True\<rparr>\<rparr>)"
proof -
  have "length (request_text r) \<le> unat HTTP_MAX_HEADER_SIZE" using assms(2) by (simp add: HTTP_MAX_HEADER_SIZE_def)
  from request_run [OF assms(1) this refl refl] show ?thesis by (rule request_returns) (simp add: request_text_def request_head_def)
qed

text \<open>
  C3. A well-formed request that arrives in one piece is parsed to exactly the \<open>HttpRequest\<close> it
  means: the method, the path, the version, the headers in the order of the map, the keep-alive
  flag of the last \<open>Connection\<close> header, and the body.
\<close>

theorem request_parsed:
  assumes "well_formed r" and "length (request_text r) \<le> 81920"
  shows "\<exists>p. request_execute newHttpRequestParser (request_text r) =
    Inr (length (request_text r), \<lparr>rqParser = p, rqData = \<lparr>reqData = meaning r, reqFinish = True\<rparr>\<rparr>)"
  using assms by (rule request_parse_ok)

definition example_post :: request_spec where
  "example_post = \<lparr>spMethod = HTTP_POST, spUrl = ''/form?x=1'', spMajor = CHR ''1'', spMinor = CHR ''1'',
     spHeaders = [(''Host'', ''a.b''), (''Connection'', ''keep-alive'')], spBody = ''v=2''\<rparr>"

theorem request_parsed_witness:
  "\<exists>p d. request_execute newHttpRequestParser
     (''POST /form?x=1 HTTP/1.1'' @ CRLF @ ''Host: a.b'' @ CRLF @ ''Connection: keep-alive'' @ CRLF @
      ''Content-Length: 3'' @ CRLF @ CRLF @ ''v=2'') = Inr (84, \<lparr>rqParser = p, rqData = d\<rparr>) \<and> reqFinish d \<and>
     reqMethod (reqData d) = HTTP_POST \<and> reqPath (reqData d) = ''/form?x=1'' \<and> reqBody (reqData d) = ''v=2'' \<and>
     reqKeepAlive (reqData d) \<and>
     reqHeaders (reqData d) = [(''Connection'', ''keep-alive''), (''Content-Length'', ''3''), (''Host'', ''a.b'')]"
proof -
  have printed: "request_text example_post = ''POST /form?x=1 HTTP/1.1'' @ CRLF @ ''Host: a.b'' @ CRLF @
      ''Connection: keep-alive'' @ CRLF @ ''Content-Length: 3'' @ CRLF @ CRLF @ ''v=2''"
    by code_simp
  have len: "length (request_text example_post) = 84" by code_simp
  have ok: "well_formed example_post" by code_simp
  have headers: "reqHeaders (meaning example_post) = [(''Connection'', ''keep-alive''), (''Content-Length'', ''3''), (''Host'', ''a.b'')]"
    by code_simp
  have keep: "reqKeepAlive (meaning example_post)" by code_simp
  from request_parsed [OF ok] obtain p where "request_execute newHttpRequestParser (request_text example_post) =
      Inr (84, \<lparr>rqParser = p, rqData = \<lparr>reqData = meaning example_post, reqFinish = True\<rparr>\<rparr>)"
    unfolding len by auto
  then show ?thesis unfolding printed using headers keep
    by (intro exI [of _ p] exI [of _ "\<lparr>reqData = meaning example_post, reqFinish = True\<rparr>"])
      (simp add: meaning_def example_post_def)
qed

section \<open>Two requests that go wrong\<close>

text \<open>
  A URL that arrives in two reads is handed to \<open>on_url\<close> in two pieces, and \<open>setPath\<close> keeps the
  second.
\<close>

lemma split_url_keeps_last:
  "(case run_with request_execute newHttpRequestParser [''GET /ab'', ''c HTTP/1.1'' @ CRLF @ CRLF] of
     Inl e \<Rightarrow> False | Inr (outs, rp) \<Rightarrow> reqFinish (rqData rp) \<and> reqPath (reqData (rqData rp)) = ''c'')"
  by code_simp

text \<open>
  A header whose name only starts with \<open>Transfer-Encoding\<close> sets \<open>uses_transfer_encoding\<close>, so the
  request is refused.
\<close>

lemma transfer_prefix_rejected:
  "(case request_execute newHttpRequestParser (''GET / HTTP/1.1'' @ CRLF @ ''Transfer-Encoding-Hint: x'' @ CRLF @ CRLF) of
     Inl e \<Rightarrow> False
   | Inr (n, rp) \<Rightarrow> http_errno (rqParser rp) = HPE_INVALID_TRANSFER_ENCODING \<and> \<not> reqFinish (rqData rp))"
  by code_simp

end
