(* ===== verification/Parse_Pieces.thy ===== *)
theory Parse_Pieces
  imports Parse_Request
begin

text \<open>
  Requests whose body arrives in several reads: what \<open>http_parser_execute\<close>
  (\<open>src/http/http_parser.cpp\<close> 1945-1995) and \<open>HttpRequestParser::execute\<close>
  (\<open>src/http/http11_parser.cpp\<close>) keep between the calls, and what they make of the pieces.
\<close>

section \<open>Between two calls\<close>

text \<open>The parser waits for \<open>k\<close> more bytes of a body.\<close>

definition body_waits :: "nat \<Rightarrow> http_parser \<Rightarrow> bool" where
  "body_waits k p \<longleftrightarrow> body_left k p \<and> pstate p = s_body_identity"

lemma waits_in_body:
  "body_waits k p \<Longrightarrow> data env = d \<Longrightarrow> in_body k d u env (initial_xstate p u)"
  by (simp add: body_waits_def in_body_def initial_xstate_def marks_def unmarked_def body_left_def url_states_def)

text \<open>A piece that does not complete the body.\<close>

lemma body_part:
  assumes "in_body k b u env x" and "length b < k" and "k < 2 ^ 60"
    and "on_body (settings env) = Some f" and "\<forall>p b u. f p b u = (0, p, g b u)" and "g [] u = u"
  shows "reaches env x (\<lambda>z. xpos z = length (data env) \<and> (\<exists>w. flush_marks env z = Return (length (data env)) w \<and>
    xusr w = g b u \<and> body_waits (k - length b) (xp w)))"
proof (cases "b = []")
  case True
  then have "xpos x = length (data env)" using assms(1) by (simp add: in_body_def)
  then show ?thesis using assms(1,6) True flush_unmarked [of x env]
    by (intro reaches_refl) (simp add: in_body_def body_left_def body_waits_def)
next
  case False
  note byte = body_byte [OF assms(1) False less_imp_le [OF assms(2)] assms(3)]
  let ?y = "x\<lparr>xch := data env ! xpos x, body_mark := Some (xpos x),
         xp := (xp x)\<lparr>content_length := of_nat (k - length b)\<rparr>, xpos := length (data env) - 1\<rparr>"
  let ?z = "?y\<lparr>xpos := length (data env)\<rparr>"
  have "execute_byte env x = Break ?y" unfolding byte(3) using byte(4) assms(2) by (simp add: reexec_limit_def eval_nat_numeral Let_def)
  moreover have "Suc (length (data env) - Suc 0) = length (data env)" using byte(1) by linarith
  ultimately have "runs env 1 x ?z" using runs_byte [OF _ byte(1)] by fastforce
  moreover have "\<exists>w. flush_marks env ?z = Return (length (data env)) w \<and> xusr w = g b u \<and> body_waits (k - length b) (xp w)"
  proof -
    have x: "drop (xpos x) (data env) = b" "http_errno (xp x) = HPE_OK" "xusr x = u" using assms(1) by (auto simp: in_body_def body_left_def)
    have "take (length (data env) - xpos x) b = b" using byte(2) by simp
    then show ?thesis
      using assms(1,4) byte(1) x
      by (simp add: flush_marks_def marks_def unmarked_def mark_count_def ASSERT_def RETURN_def in_body_def
          data_header_field_def data_header_value_def data_url_def data_body_def data_status_def
          CALLBACK_DATA0_def [of _ _ _ None] data_callback [OF assms(5)] body_waits_def body_left_def)
  qed
  ultimately show ?thesis unfolding reaches_def using byte(1) by (intro exI [of _ 1] exI [of _ ?z]) simp
qed

lemma part_returns:
  assumes "reaches env x (\<lambda>z. xpos z = length (data env) \<and> (\<exists>w. flush_marks env z = Return (length (data env)) w \<and>
      xusr w = v \<and> body_waits j (xp w)))" and "xpos x = 0"
  shows "\<exists>w. execute_loop (Suc (length (data env))) env x = Return (length (data env)) w \<and> xusr w = v \<and> body_waits j (xp w)"
  by (rule loop_returns [OF assms]) blast

section \<open>The calls\<close>

abbreviation add_body :: "string \<Rightarrow> request_data \<Rightarrow> request_data" where
  "add_body b \<equiv> on_req (req_setBody b)"

lemma execute_returns:
  assumes "execute_loop (Suc (length d)) (make_env request_settings HTTP_MAX_HEADER_SIZE p d) (initial_xstate p u) = Return n w"
    and "http_errno p = HPE_OK" and "d \<noteq> []"
  shows "request_execute \<lparr>rqParser = p, rqData = u\<rparr> d = Inr (n, \<lparr>rqParser = xp w, rqData = xusr w\<rparr>)"
  using assms by (simp add: request_execute_def http_parser_execute_def Let_def del: execute_loop.simps)

lemma body_callback:
  "on_body (settings (make_env request_settings n p d)) = Some request_body_callback"
  "\<forall>p b u. request_body_callback p b u = (0, p, add_body b u)" "add_body [] u = u"
  by (simp_all add: make_env_def request_callbacks request_body_callback_def req_setBody_def)

lemma piece_more:
  assumes "body_waits k p" and "b \<noteq> []" and "length b < k" and "k < 2 ^ 60"
  shows "\<exists>p'. request_execute \<lparr>rqParser = p, rqData = u\<rparr> b = Inr (length b, \<lparr>rqParser = p', rqData = add_body b u\<rparr>) \<and>
    body_waits (k - length b) p'"
proof -
  let ?env = "make_env request_settings HTTP_MAX_HEADER_SIZE p b"
  have d: "data ?env = b" by (simp add: make_env_def)
  from part_returns [OF body_part [OF waits_in_body [OF assms(1) d] assms(3,4) body_callback], unfolded d]
  obtain w where "execute_loop (Suc (length b)) ?env (initial_xstate p u) = Return (length b) w"
      "xusr w = add_body b u" "body_waits (k - length b) (xp w)"
    by (auto simp: initial_xstate_def simp del: execute_loop.simps)
  with execute_returns [of b p u "length b" w] assms(1,2) show ?thesis by (simp add: body_waits_def body_left_def)
qed

lemma piece_last:
  assumes "body_waits (length b) p" and "b \<noteq> []" and "length b < 2 ^ 60"
  shows "\<exists>p'. request_execute \<lparr>rqParser = p, rqData = u\<rparr> b = Inr (length b, \<lparr>rqParser = p', rqData = (add_body b u)\<lparr>reqFinish := True\<rparr>\<rparr>)"
proof -
  let ?env = "make_env request_settings HTTP_MAX_HEADER_SIZE p b"
  have d: "data ?env = b" "on_message_complete (settings ?env) = Some request_body_complete"
    by (simp_all add: make_env_def request_callbacks)
  have complete: "request_body_complete p u = (0, p, u\<lparr>reqFinish := True\<rparr>)" for p u by (simp add: request_body_complete_def)
  from finished_returns [OF body_whole [OF waits_in_body [OF assms(1) d(1)] assms(2,3) d(2) complete body_callback(1,2)]]
  obtain w where "execute_loop (Suc (length b)) ?env (initial_xstate p u) = Return (length b) w"
      "xusr w = (add_body b u)\<lparr>reqFinish := True\<rparr>"
    by (auto simp: d initial_xstate_def simp del: execute_loop.simps)
  with execute_returns [of b p u "length b" w] assms(1,2) show ?thesis by (simp add: body_waits_def body_left_def)
qed

text \<open>The head of a request, with a part of its body.\<close>

lemma head_piece:
  assumes "well_formed r" and "spBody r = b @ rest" and "rest \<noteq> []" and "length (request_head r @ b) \<le> 81920"
    and "length (spBody r) < 2 ^ 60"
  shows "\<exists>p. request_execute newHttpRequestParser (request_head r @ b) =
      Inr (length (request_head r @ b), \<lparr>rqParser = p, rqData = add_body b (head_data r)\<rparr>) \<and> body_waits (length rest) p"
proof -
  let ?p = "http_parser_init HTTP_REQUEST" and ?d = "request_head r @ b" and ?k = "length (spBody r)"
  let ?u = "\<lparr>reqData = newHttpRequest ''1.1'' False, reqFinish = False\<rparr>"
  let ?env = "make_env request_settings HTTP_MAX_HEADER_SIZE ?p ?d"
  have d: "data ?env = ?d" "on_headers_complete (settings ?env) = Some request_header_complete"
    by (simp_all add: make_env_def request_callbacks)
  have m: "spMethod r \<noteq> HTTP_CONNECT" using assms(1) by (simp add: well_formed_def)
  have k: "0 < ?k" "length b < ?k" "?k - length b = length rest" using assms(2,3) by simp_all
  have "length ?d \<le> unat HTTP_MAX_HEADER_SIZE" using assms(4) by (simp add: HTTP_MAX_HEADER_SIZE_def)
  from head_run [OF assms(1) this assms(5) refl refl]
  have head: "reaches ?env (initial_xstate ?p ?u) (ready (quiet (spMethod r) (digit (spMajor r), digit (spMinor r)) (of_nat ?k))
      (LF # b) (raw_head_data r) s_headers_almost_done unmarked ?env)"
    using assms(2,3) by simp
  have complete: "request_header_complete p (raw_head_data r) = (0, p, head_data r)"
    if "quiet (spMethod r) (digit (spMajor r), digit (spMinor r)) (of_nat ?k) p" for p
    using that by (intro head_complete [OF assms(1)]) (simp_all add: quiet_def)
  have "reaches ?env (initial_xstate ?p ?u) (in_body ?k b (head_data r) ?env)"
    by (rule reaches_trans [OF head]) (erule body_start [OF _ m k(1) assms(5) d(2) complete])
  then have "reaches ?env (initial_xstate ?p ?u) (\<lambda>z. xpos z = length (data ?env) \<and> (\<exists>w. flush_marks ?env z = Return (length (data ?env)) w \<and>
      xusr w = add_body b (head_data r) \<and> body_waits (?k - length b) (xp w)))"
    by (rule reaches_trans) (erule body_part [OF _ k(2) assms(5) body_callback])
  from part_returns [OF this] obtain w where "execute_loop (Suc (length ?d)) ?env (initial_xstate ?p ?u) = Return (length ?d) w"
      "xusr w = add_body b (head_data r)" "body_waits (length rest) (xp w)"
    unfolding d(1) k(3) by (auto simp: initial_xstate_def simp del: execute_loop.simps)
  moreover have "?d \<noteq> []" "http_errno ?p = HPE_OK" by (simp_all add: request_head_def http_parser_init_def)
  ultimately show ?thesis
    using execute_returns [of ?d ?p ?u] by (simp add: newHttpRequestParser_def del: execute_loop.simps)
qed

section \<open>All pieces\<close>

lemma setBody_twice: "req_setBody c (req_setBody b r) = req_setBody (b @ c) r"
  by (simp add: req_setBody_def)

lemma rest_pieces:
  assumes "body_waits (length (concat bs)) p" and "bs \<noteq> []" and "[] \<notin> set bs" and "length (concat bs) < 2 ^ 60"
  shows "\<exists>p'. run_with request_execute \<lparr>rqParser = p, rqData = u\<rparr> bs =
    Inr (map length bs, \<lparr>rqParser = p', rqData = (add_body (concat bs) u)\<lparr>reqFinish := True\<rparr>\<rparr>)"
  using assms
proof (induction bs arbitrary: p u)
  case (Cons b bs)
  have b: "b \<noteq> []" "[] \<notin> set bs" using Cons.prems(3) by auto
  show ?case
  proof (cases "bs = []")
    case True
    then show ?thesis using piece_last [of b p u] Cons.prems(1,4) b by auto
  next
    case False
    then obtain c cs where "bs = c # cs" "c \<noteq> []" using b(2) by (cases bs) auto
    then have less: "length b < length (concat (b # bs))" "length (concat (b # bs)) - length b = length (concat bs)" by simp_all
    obtain p' where p': "request_execute \<lparr>rqParser = p, rqData = u\<rparr> b = Inr (length b, \<lparr>rqParser = p', rqData = add_body b u\<rparr>)"
        "body_waits (length (concat bs)) p'"
      using piece_more [OF Cons.prems(1) b(1) less(1) Cons.prems(4), of u] less(2) by auto
    from Cons.IH [OF p'(2) False b(2), of "add_body b u"] Cons.prems(4) p'(1) show ?thesis
      by (auto simp: setBody_twice)
  qed
qed simp

text \<open>
  C4. A request whose body arrives in any number of reads, the first of which holds the head and
  a part of the body, is parsed as if it had arrived in one: every read is consumed in full, the
  request is finished by the last one and not before, and it is what the text means.
\<close>

theorem request_in_pieces:
  assumes "well_formed r" and "spBody r = b @ concat bs" and "bs \<noteq> []" and "[] \<notin> set bs"
    and "length (request_head r @ b) \<le> 81920" and "length (spBody r) < 2 ^ 60"
  shows "\<exists>p. run_with request_execute newHttpRequestParser ((request_head r @ b) # bs) =
    Inr (map length ((request_head r @ b) # bs), \<lparr>rqParser = p, rqData = \<lparr>reqData = meaning r, reqFinish = True\<rparr>\<rparr>)"
proof -
  have ne: "concat bs \<noteq> []" using assms(3,4) by (cases bs) auto
  obtain p where p: "request_execute newHttpRequestParser (request_head r @ b) =
      Inr (length (request_head r @ b), \<lparr>rqParser = p, rqData = add_body b (head_data r)\<rparr>)" "body_waits (length (concat bs)) p"
    using head_piece [OF assms(1,2) ne assms(5,6)] by blast
  have "length (concat bs) < 2 ^ 60" using assms(2,6) by simp
  from rest_pieces [OF p(2) assms(3,4) this, of "add_body b (head_data r)"] p(1) show ?thesis
    using assms(2) by (auto simp: setBody_twice head_data_def req_setBody_def meaning_def)
qed

theorem request_in_pieces_witness:
  "\<exists>p. run_with request_execute newHttpRequestParser [request_head example_post, ''v'', ''=2''] =
    Inr ([length (request_head example_post), 1, 2], \<lparr>rqParser = p, rqData = \<lparr>reqData = meaning example_post, reqFinish = True\<rparr>\<rparr>)"
proof -
  have ok: "well_formed example_post" "length (request_head example_post @ []) \<le> 81920" by code_simp+
  have body: "spBody example_post = [] @ concat [''v'', ''=2'']" by (simp add: example_post_def)
  have short: "length (spBody example_post) < 2 ^ 60" by (simp add: example_post_def)
  from request_in_pieces [OF ok(1) body _ _ ok(2) short] show ?thesis by (simp add: eval_nat_numeral del: run_with.simps)
qed

end
