(* ===== verification/Serve_Session.thy ===== *)
theory Serve_Session
  imports Parse_Pieces
begin

text \<open>
  From the bytes of a connection to the bytes of its answers: \<open>handleClient\<close> of
  \<open>src/http/http_server.cpp\<close> on the texts of well-formed requests.
\<close>

section \<open>Requests through the receive buffer\<close>

text \<open>The text of a request holds no NUL, unless its body does.\<close>

lemma url_not_nul: "url_ok url \<Longrightarrow> NUL \<notin> set url"
proof -
  have nul: "parse_url_char s NUL = s_dead" for s
    by (cases s) (simp_all add: parse_url_char_def url_authority_char_def IS_URL_CHAR_iff IS_USERINFO_CHAR_def
        IS_ALPHANUM_def IS_MARK_def IS_ALPHA_def IS_NUM_def LOWER_def NUL_def CR_def LF_def HT_def FF_def byte_def)
  have "NUL \<in> set cs \<Longrightarrow> foldl parse_url_char s cs = s_dead" for s cs
    by (induction cs arbitrary: s) (auto simp: nul url_dead)
  then show "url_ok url \<Longrightarrow> NUL \<notin> set url" by (auto simp: url_ok_def url_end_states_def)
qed

lemma method_not_nul: "m < length method_strings \<Longrightarrow> NUL \<notin> set (method_strings ! m)"
proof -
  assume m: "m < length method_strings"
  have "list_all (\<lambda>s. list_all (\<lambda>c. c \<noteq> NUL) s) method_strings" by code_simp
  then have "list_all (\<lambda>c. c \<noteq> NUL) (method_strings ! m)" using m unfolding list_all_length by blast
  then show "NUL \<notin> set (method_strings ! m)" by (auto simp: list_all_iff)
qed

lemma digit_not_nul: "IS_NUM c \<Longrightarrow> c \<noteq> NUL"
  by (auto simp: IS_NUM_def NUL_def byte_def)

lemma header_not_nul: "plain_name n \<Longrightarrow> proper_value v \<Longrightarrow> NUL \<notin> set (header_line_text n v)"
proof -
  assume n: "plain_name n" and v: "proper_value v"
  have "\<not> is_rfc_token_char NUL" "\<not> IS_HEADER_CHAR NUL" by code_simp+
  then show ?thesis using n v
    by (auto simp: header_line_text_def plain_name_def token_name_def proper_value_def value_text_def NUL_def CR_def LF_def)
qed

lemma request_not_nul:
  assumes "well_formed r" and "NUL \<notin> set (spBody r)"
  shows "NUL \<notin> set (request_text r)"
proof -
  have line: "NUL \<notin> set (version_line (spMajor r) (spMinor r))"
    using assms(1) digit_not_nul [of "spMajor r"] digit_not_nul [of "spMinor r"]
    by (auto simp: version_line_def well_formed_def NUL_def CR_def LF_def)
  have len: "NUL \<notin> set (header_line_text ''Content-Length'' (to_dec n))" for n
    using to_dec_digits digit_not_nul by (auto simp: header_line_text_def NUL_def CR_def LF_def)
  have "NUL \<notin> set (case_prod header_line_text h)" if "h \<in> set (all_headers r)" for h
    using that assms(1) header_not_nul len
    by (auto simp: all_headers_def well_formed_def list_all_iff split: if_splits)
  then have heads: "NUL \<notin> set (concat (map (case_prod header_line_text) (all_headers r)))" by auto
  have sp: "NUL \<noteq> CHR '' ''" "NUL \<noteq> CR" "NUL \<noteq> LF" by (simp_all add: NUL_def CR_def LF_def)
  from assms(1) have "NUL \<notin> set (method_strings ! spMethod r)" "NUL \<notin> set (spUrl r)"
    using method_not_nul url_not_nul by (auto simp: well_formed_def)
  then show ?thesis using line heads sp assms(2) unfolding request_text_def request_head_def by simp
qed

lemma byte_zero: "byte c = 0 \<longleftrightarrow> c = NUL"
proof -
  have "byte NUL = 0" by code_simp
  then show ?thesis by (metis byte_eq_iff)
qed

lemma c_str_id: "NUL \<notin> set s \<Longrightarrow> c_str s = s"
  unfolding c_str_def by (rule takeWhile_eq_all_conv [THEN iffD2]) (auto simp: byte_zero)

text \<open>
  The reads in which a request arrives: the first holds the head and a part of the body, and each
  fits the buffer.
\<close>

definition arrives :: "request_spec \<Rightarrow> string list \<Rightarrow> bool" where
  "arrives r ps \<longleftrightarrow> well_formed r \<and> NUL \<notin> set (spBody r) \<and> length (spBody r) < 2 ^ 60 \<and> ps \<noteq> [] \<and> concat ps = request_text r \<and>
     [] \<notin> set ps \<and> length (request_head r) \<le> length (hd ps) \<and> list_all (\<lambda>p. length p < BUF_SIZE) ps"

lemma arrives_pieces:
  assumes "arrives r ps"
  obtains b bs where "ps = (request_head r @ b) # bs" "spBody r = b @ concat bs" "[] \<notin> set bs"
proof -
  obtain p bs where ps: "ps = p # bs" using assms by (cases ps) (auto simp: arrives_def)
  have "p @ concat bs = request_head r @ spBody r" "length (request_head r) \<le> length p"
    using assms by (simp_all add: arrives_def ps request_text_def)
  then obtain b where "p = request_head r @ b" "b @ concat bs = spBody r"
    by (metis append_assoc append_eq_append_conv append_take_drop_id length_take min.absorb2)
  with that [of b bs] assms show thesis by (simp add: arrives_def ps del: append_assoc)
qed

lemma read_step:
  assumes "length p < BUF_SIZE" and "NUL \<notin> set p" and "request_execute rp p = Inr (length p, rp')"
  shows "read_request rp (Received p # rs) = (if reqFinish (rqData rp') then Inr (Parsed rp', rs) else read_request rp' rs)"
  using read_text_ok [OF assms(1)] c_str_id [OF assms(2)] assms(3) by simp

text \<open>Reading the rest of a body, piece by piece.\<close>

lemma read_pieces:
  assumes "body_waits (length (concat bs)) p" and "bs \<noteq> []" and "[] \<notin> set bs" and "length (concat bs) < 2 ^ 60"
    and "NUL \<notin> set (concat bs)" and "list_all (\<lambda>p. length p < BUF_SIZE) bs" and "\<not> reqFinish u"
  shows "\<exists>p'. read_request \<lparr>rqParser = p, rqData = u\<rparr> (map Received bs @ rs) =
    Inr (Parsed \<lparr>rqParser = p', rqData = (add_body (concat bs) u)\<lparr>reqFinish := True\<rparr>\<rparr>, rs)"
  using assms
proof (induction bs arbitrary: p u)
  case (Cons b bs)
  have b: "b \<noteq> []" "[] \<notin> set bs" "length b < BUF_SIZE" "NUL \<notin> set b" using Cons.prems(3,5,6) by auto
  show ?case
  proof (cases "bs = []")
    case True
    then obtain p' where "request_execute \<lparr>rqParser = p, rqData = u\<rparr> b =
        Inr (length b, \<lparr>rqParser = p', rqData = (add_body b u)\<lparr>reqFinish := True\<rparr>\<rparr>)"
      using piece_last [of b p u] Cons.prems(1,4) b(1) by auto
    from read_step [OF b(3,4) this, of rs] True show ?thesis by simp
  next
    case False
    then obtain c cs where "bs = c # cs" "c \<noteq> []" using b(2) by (cases bs) auto
    then have less: "length b < length (concat (b # bs))" "length (concat (b # bs)) - length b = length (concat bs)" by simp_all
    obtain p' where p': "request_execute \<lparr>rqParser = p, rqData = u\<rparr> b = Inr (length b, \<lparr>rqParser = p', rqData = add_body b u\<rparr>)"
        "body_waits (length (concat bs)) p'"
      using piece_more [OF Cons.prems(1) b(1) less(1) Cons.prems(4), of u] less(2) by auto
    from Cons.IH [OF p'(2) False b(2), of "add_body b u"] Cons.prems(4-7) read_step [OF b(3,4) p'(1), of "map Received bs @ rs"]
    show ?thesis by (auto simp: setBody_twice)
  qed
qed simp

lemma read_parsed:
  assumes "arrives r ps"
  shows "\<exists>p. read_request newHttpRequestParser (map Received ps @ rs) =
    Inr (Parsed \<lparr>rqParser = p, rqData = \<lparr>reqData = meaning r, reqFinish = True\<rparr>\<rparr>, rs)"
proof -
  obtain b bs where ps: "ps = (request_head r @ b) # bs" "spBody r = b @ concat bs" "[] \<notin> set bs"
    using arrives_pieces [OF assms] .
  let ?h = "request_head r @ b"
  have r: "well_formed r" "length (spBody r) < 2 ^ 60" "length ?h < BUF_SIZE" "list_all (\<lambda>p. length p < BUF_SIZE) bs"
      "NUL \<notin> set (request_text r)"
    using assms request_not_nul by (auto simp: arrives_def ps(1))
  then have nul: "NUL \<notin> set ?h" "NUL \<notin> set (concat bs)" by (auto simp: request_text_def ps(2))
  have small: "length ?h \<le> 81920" using r(3) by (simp add: BUF_SIZE_def)
  show ?thesis
  proof (cases "bs = []")
    case True
    then have whole: "?h = request_text r" by (simp add: request_text_def ps(2))
    obtain p where "request_execute newHttpRequestParser ?h =
        Inr (length ?h, \<lparr>rqParser = p, rqData = \<lparr>reqData = meaning r, reqFinish = True\<rparr>\<rparr>)"
      using request_parse_ok [OF r(1)] small unfolding whole by blast
    from read_step [OF r(3) nul(1) this, of rs] True show ?thesis by (simp add: ps(1))
  next
    case False
    then have ne: "concat bs \<noteq> []" using ps(3) by (cases bs) auto
    obtain p where p: "request_execute newHttpRequestParser ?h = Inr (length ?h, \<lparr>rqParser = p, rqData = add_body b (head_data r)\<rparr>)"
        "body_waits (length (concat bs)) p"
      using head_piece [OF r(1) ps(2) ne small r(2)] by blast
    have "length (concat bs) < 2 ^ 60" using r(2) by (simp add: ps(2))
    from read_pieces [OF p(2) False ps(3) this nul(2) r(4), of "add_body b (head_data r)" rs]
      read_step [OF r(3) nul(1) p(1), of "map Received bs @ rs"]
    show ?thesis by (auto simp: ps(1,2) head_data_def setBody_twice req_setBody_def meaning_def)
  qed
qed

section \<open>A session\<close>

text \<open>What the servlets make of a request, and whether the connection outlives it.\<close>

definition response :: "servlet_dispatch \<Rightarrow> request_spec \<Rightarrow> string" where
  "response d r = (case answer d (meaning r) of Inl e \<Rightarrow> '''' | Inr (req, text) \<Rightarrow> text)"

definition persists :: "servlet_dispatch \<Rightarrow> request_spec \<Rightarrow> bool" where
  "persists d r = (case answer d (meaning r) of Inl e \<Rightarrow> False | Inr (req, text) \<Rightarrow> reqKeepAlive req)"

lemma meaning_ok: "request_ok (meaning r)"
proof -
  have "map_sorted CaseInsensitiveLess (foldl (\<lambda>m (n, v). map_assign CaseInsensitiveLess n v m) m hs)"
    if "map_sorted CaseInsensitiveLess m" for m :: MSS and hs
    using that by (induction hs arbitrary: m) (auto simp: ci.assign_sorted)
  then show ?thesis by (simp add: request_ok_def meaning_def)
qed

lemma answer_response:
  assumes "serves d"
  shows "\<exists>req. answer d (meaning r) = Inr (req, response d r) \<and> (reqKeepAlive req \<longleftrightarrow> persists d r) \<and>
    response d r \<noteq> [] \<and> length (response d r) < 2 ^ 64"
proof -
  obtain req t where a: "answer d (meaning r) = Inr (req, t)" "length t < 2 ^ 64"
    using assms meaning_ok unfolding serves_def by blast
  then have "t \<noteq> []" by (auto simp: answer_def bind_run_Inr_iff res_toString_def)
  with a show ?thesis by (simp add: response_def persists_def)
qed

lemma send_full:
  assumes "sends c = int (length resp) # ns" and "resp \<noteq> []" and "length resp < 2 ^ 64"
  shows "send_response resp c = Inr (True, c\<lparr>sends := ns, wire := wire c @ resp\<rparr>)"
proof -
  have "add_size 0 (send_result (int (length resp)) resp) = length resp"
    using add_size_result [of "int (length resp)" 0 resp] assms(3) by simp
  then have "send_loop resp 0 (int (length resp) # ns) (wire c) = Inr (True, ns, wire c @ resp)"
    using assms(2) by (cases ns) simp_all
  then show ?thesis by (simp add: send_response_def assms(1))
qed

lemma one_request:
  assumes "serves d" and "arrives r ps" and "recvs c = map Received ps @ rs"
    and "sends c = int (length (response d r)) # ns" and "isConnected c"
  shows "handleClient d c =
    (let c' = c\<lparr>recvs := rs, sends := ns, wire := wire c @ response d r\<rparr>
     in if persists d r then handleClient d c' else Inr (Returned, sock_close c'))"
proof -
  obtain p where read: "read_request newHttpRequestParser (recvs c) =
      Inr (Parsed \<lparr>rqParser = p, rqData = \<lparr>reqData = meaning r, reqFinish = True\<rparr>\<rparr>, rs)"
    using read_parsed [OF assms(2)] assms(3) by auto
  obtain req where ans: "answer d (meaning r) = Inr (req, response d r)" "reqKeepAlive req \<longleftrightarrow> persists d r"
      "response d r \<noteq> []" "length (response d r) < 2 ^ 64"
    using answer_response [OF assms(1)] by blast
  have "send_response (response d r) (c\<lparr>recvs := rs\<rparr>) =
      Inr (True, c\<lparr>recvs := rs, sends := ns, wire := wire c @ response d r\<rparr>)"
    using send_full [of "c\<lparr>recvs := rs\<rparr>", OF _ ans(3,4)] assms(4) by simp
  then show ?thesis
    using read ans(1,2) assms(5) by (subst handleClient.simps) (simp add: Let_def)
qed

text \<open>
  C6. A session.  A client that sends well-formed requests one by one, each in any number of
  reads of which the first holds its head, gets the answers of the servlets to exactly these
  requests, in order and nothing else; the connection stays open until the first request that
  does not ask to keep it alive has been answered, is then closed once, and what the client sends
  after that is not read.
\<close>

theorem session_served:
  assumes "serves d" and "\<forall>(r, ps)\<in>set (rs @ [l]). arrives r ps" and "\<forall>r\<in>set rs. persists d (fst r)" and "\<not> persists d (fst l)"
  shows "\<exists>c. handleClient d (accepted (map Received (concat (map snd (rs @ [l]))) @ later)
      (map (int \<circ> length \<circ> response d \<circ> fst) (rs @ [l]))) = Inr (Returned, c) \<and>
    wire c = concat (map (response d \<circ> fst) (rs @ [l])) \<and> closes c = 1 \<and> \<not> isConnected c \<and> recvs c = later"
proof -
  have "\<exists>c'. handleClient d c = Inr (Returned, c') \<and> wire c' = wire c @ concat (map (response d \<circ> fst) (rs @ [l])) \<and>
      closes c' = closes c + 1 \<and> \<not> isConnected c' \<and> recvs c' = later"
    if "recvs c = map Received (concat (map snd (rs @ [l]))) @ later" "isConnected c"
      "sends c = map (int \<circ> length \<circ> response d \<circ> fst) (rs @ [l])" for c
    using that assms(2,3)
  proof (induction rs arbitrary: c)
    case Nil
    then show ?case
      using one_request [OF assms(1), of "fst l" "snd l" c later "[]"] assms(4) by (auto simp: sock_close_def Let_def)
  next
    case (Cons r rs)
    let ?c = "c\<lparr>recvs := map Received (concat (map snd (rs @ [l]))) @ later,
      sends := map (int \<circ> length \<circ> response d \<circ> fst) (rs @ [l]), wire := wire c @ response d (fst r)\<rparr>"
    have "handleClient d c = handleClient d ?c"
      using one_request [OF assms(1), of "fst r" "snd r" c] Cons.prems by (auto simp: Let_def comp_def)
    with Cons.IH [of ?c] Cons.prems show ?case by (simp add: comp_def)
  qed
  from this [of "accepted (map Received (concat (map snd (rs @ [l]))) @ later) (map (int \<circ> length \<circ> response d \<circ> fst) (rs @ [l]))"]
  show ?thesis by (simp add: accepted_def)
qed

definition example_get :: request_spec where
  "example_get = \<lparr>spMethod = HTTP_GET, spUrl = ''/'', spMajor = CHR ''1'', spMinor = CHR ''1'', spHeaders = [], spBody = []\<rparr>"

text \<open>
  The first request arrives in two reads.  The second is HTTP/1.1 without a \<open>Connection\<close> header:
  the connection is closed after it, although it is persistent by default.
\<close>

theorem session_served_witness:
  "\<exists>c. handleClient newServletDispatch (accepted [Received (request_head example_post @ ''v=''), Received ''2'',
      Received (''GET / HTTP/1.1'' @ CRLF @ CRLF)]
      (map (int \<circ> length \<circ> response newServletDispatch) [example_post, example_get])) = Inr (Returned, c) \<and>
    wire c = concat (map (response newServletDispatch) [example_post, example_get]) \<and> closes c = 1"
proof -
  have get: "request_text example_get = ''GET / HTTP/1.1'' @ CRLF @ CRLF" by code_simp
  have "arrives example_post [request_head example_post @ ''v='', ''2'']" "arrives example_get [request_text example_get]" by code_simp+
  moreover have "persists newServletDispatch example_post" "\<not> persists newServletDispatch example_get" by code_simp+
  ultimately show ?thesis
    using session_served [OF answer_ok, of "[(example_post, [request_head example_post @ ''v='', ''2''])]"
        "(example_get, [request_text example_get])" "[]"] by (auto simp: get)
qed

end
