(* ===== verification/Parse_Chunked.thy ===== *)
theory Parse_Chunked
  imports Parse_Request
begin

text \<open>
  How \<open>http_parser_execute\<close> (\<open>src/http/http_parser.cpp\<close> 1997-2117) and the callbacks of
  \<open>HttpRequestParser\<close> (\<open>src/http/http11_parser.cpp\<close>) read a request with a chunked body.
\<close>

section \<open>The header \<open>Transfer-Encoding: chunked\<close>\<close>

text \<open>
  A request that has announced chunks; \<open>b\<close>: the value was complete, \<open>t\<close>: the last chunk was read.
\<close>

definition chunky :: "nat \<Rightarrow> nat \<times> nat \<Rightarrow> bool \<Rightarrow> bool \<Rightarrow> http_parser \<Rightarrow> bool" where
  "chunky m v b t p \<longleftrightarrow> ptype p = HTTP_REQUEST \<and> meth p = m \<and> (http_major p, http_minor p) = v \<and> http_errno p = HPE_OK \<and>
     uses_transfer_encoding p \<and> \<not> has_flag p F_CONTENTLENGTH \<and> (has_flag p F_CHUNKED \<longleftrightarrow> b) \<and> \<not> has_flag p F_UPGRADE \<and>
     \<not> has_flag p F_SKIPBODY \<and> (has_flag p F_TRAILING \<longleftrightarrow> t)"

lemma chunky_updates [simp]:
  "chunky m v b t (p\<lparr>index := i\<rparr>) = chunky m v b t p"
  "chunky m v b t (p\<lparr>header_state := h\<rparr>) = chunky m v b t p"
  "chunky m v b t (p\<lparr>pstate := s\<rparr>) = chunky m v b t p"
  "chunky m v b t (p\<lparr>nread := r\<rparr>) = chunky m v b t p"
  "chunky m v b t (p\<lparr>content_length := l\<rparr>) = chunky m v b t p"
  "chunky m v b t (p\<lparr>upgrade := w\<rparr>) = chunky m v b t p"
  "chunky m v b t (inc_index p) = chunky m v b t p"
  by (simp_all add: chunky_def has_flag_def)

lemma chunky_sel: "chunky m v b t p \<Longrightarrow> http_errno p = HPE_OK"
  by (simp add: chunky_def)

lemma chunky_flags:
  "chunky m v False False p \<Longrightarrow> chunky m v True False (set_flag F_CHUNKED p)"
  "chunky m v True False p \<Longrightarrow> chunky m v True True (set_flag F_TRAILING p)"
  by (simp_all add: chunky_def has_flag_def set_flag_def flag_defs bit.conj_disj_distrib2)

lemma name_chars_TE: "map TOKEN ''ransfer-Encoding'' = ''ransfer-encoding''"
  by code_simp

lemma chunked_name_run:
  assumes "quiet m v ULLONG_MAX q"
  shows "chunky m v False False (foldl name_char (name_start (CHR ''T'') q) ''ransfer-Encoding'') \<and>
    header_state (foldl name_char (name_start (CHR ''T'') q) ''ransfer-Encoding'') = h_transfer_encoding"
proof -
  have "TOKEN (CHR ''T'') = CHR ''t''" by code_simp
  then have "foldl name_char (name_start (CHR ''T'') q) ''ransfer-Encoding'' =
      q\<lparr>index := 16, header_state := h_transfer_encoding, uses_transfer_encoding := True\<rparr>"
    using name_chars_TE
    by (simp add: name_start_def first_header_state_def name_char_def field_char_def match_field_def match_step_def
        TRANSFER_ENCODING_def Let_def)
  then show ?thesis using assms by (simp add: quiet_def chunky_def has_flag_def)
qed

definition chunked_value :: "nat \<Rightarrow> nat \<times> nat \<Rightarrow> header_states \<Rightarrow> http_parser \<Rightarrow> string \<Rightarrow> bool" where
  "chunked_value m v h p cs \<longleftrightarrow> chunky m v False False p \<and>
     (if cs = [] then h = h_transfer_encoding_chunked
      else h = h_matching_transfer_encoding_chunked \<and> index p < 6 \<and> cs = drop (index p + 1) CHUNKED)"

lemma LOWER_chunked: "map LOWER ''chunked'' = ''chunked''"
  by code_simp

lemma chunked_value_step:
  assumes "chunked_value m v h p (c # cs)"
  shows "\<exists>h' p'. value_char c h p = Inr (h', p') \<and> chunked_value m v h' p' cs"
proof -
  have p: "chunky m v False False p" "h = h_matching_transfer_encoding_chunked" "c # cs = drop (index p + 1) CHUNKED"
    and "index p = 0 \<or> index p = 1 \<or> index p = 2 \<or> index p = 3 \<or> index p = 4 \<or> index p = 5"
    using assms by (auto simp: chunked_value_def)
  from this(4) show ?thesis
    by (elim disjE) (use p LOWER_chunked in \<open>simp_all add: value_char_def match_value_def match_step_def CHUNKED_def
      chunked_value_def Let_def\<close>)
qed

lemma chunked_line:
  assumes "ready (\<lambda>p. quiet m v ULLONG_MAX p \<and> between_headers s p) (header_line_text ''Transfer-Encoding'' ''chunked'' @ rest)
      u s unmarked env x"
    and "on_header_field (settings env) = Some f" and "\<forall>p b u. f p b u = (0, p, g b u)"
    and "on_header_value (settings env) = Some f'" and "\<forall>p b u. f' p b u = (0, p, g' b u)"
  shows "reaches env x (ready (\<lambda>p. chunky m v False False p \<and> header_state p = h_transfer_encoding_chunked) rest
    (g' ''chunked'' (g ''Transfer-Encoding'' u)) s_header_value_lws unmarked env)"
proof -
  let ?N = "\<lambda>p. chunky m v False False p \<and> header_state p = h_transfer_encoding"
  have name: "token_name ''Transfer-Encoding''" "proper_value ''chunked''" by code_simp+
  have start: "\<exists>q. value_start (CHR ''c'') (p\<lparr>index := 0\<rparr>) = Inr q \<and> chunked_value m v (header_state q) q ''hunked''"
    if "?N p" for p
    using that LOWER_chunked by (simp add: value_start_def Let_def chunked_value_def CHUNKED_def)
  have "reaches env x (ready (\<lambda>p. chunked_value m v (header_state p) p [] \<and> pstate p = s_header_almost_done) rest
      (g' ''chunked'' (g ''Transfer-Encoding'' u)) s_header_value_lws unmarked env)"
    by (rule header_phase [where N = ?N and J = "chunked_value m v", OF assms(1) name(1) refl _ _ _ assms(2,3) name(2) refl
          start assms(4,5)])
      (use chunked_name_run chunked_value_step in \<open>auto simp: chunked_value_def chunky_sel split: if_splits\<close>)
  then show ?thesis by (rule reaches_mono) (simp add: ready_def chunked_value_def)
qed

section \<open>The bytes of the chunks\<close>

text \<open>
  Between two bytes of the chunked body: \<open>nread\<close> counts the bytes of the line, and is 0 where a
  size starts.
\<close>

definition chunking ::
  "(http_parser \<Rightarrow> bool) \<Rightarrow> string \<Rightarrow> 'u \<Rightarrow> parser_state \<Rightarrow> marks \<Rightarrow> 'u env \<Rightarrow> 'u xstate \<Rightarrow> bool" where
  "chunking Q rest u s mk env x \<longleftrightarrow>
     drop (xpos x) (data env) = rest \<and> xpos x \<le> length (data env) \<and> unat (xnread x) \<le> xpos x \<and>
     length (data env) \<le> unat (max_header_size env) \<and> xst x = s \<and> xusr x = u \<and> Q (xp x) \<and> marks x = mk \<and>
     (s = s_chunk_size_start \<longrightarrow> xnread x = 0)"

text \<open>The same with the next byte fetched.\<close>

definition chunk_byte ::
  "(http_parser \<Rightarrow> bool) \<Rightarrow> char \<Rightarrow> string \<Rightarrow> 'u \<Rightarrow> parser_state \<Rightarrow> marks \<Rightarrow> 'u env \<Rightarrow> 'u xstate \<Rightarrow> bool" where
  "chunk_byte Q c rest u s mk env y \<longleftrightarrow>
     drop (xpos y) (data env) = c # rest \<and> xpos y < length (data env) \<and> xch y = c \<and> xst y = s \<and> xusr y = u \<and>
     Q (xp y) \<and> marks y = mk \<and> (s = s_chunk_size_start \<longrightarrow> xnread y = 1)"

lemma chunking_fetch:
  assumes "chunking Q (c # rest) u s mk env x"
  obtains y where "execute_byte env x = reexecute reexec_limit env y" "chunk_byte Q c rest u s mk env y"
    "xpos y = xpos x" "unat (xnread y) \<le> xpos x + 1"
proof -
  have pos: "xpos x < length (data env)" "data env ! xpos x = c"
    using drop_Cons_pos assms unfolding chunking_def by metis+
  have le: "unat (xnread x) + 1 \<le> unat (max_header_size env)" using assms pos(1) by (simp add: chunking_def)
  note count = count_bytes [of "xnread x" 1, OF le, simplified]
  have fits: "\<not> max_header_size env < xnread x + 1" using count(1) by (simp add: not_less)
  let ?y = "x\<lparr>xch := c, xnread := (if PARSING_HEADER s then xnread x + 1 else xnread x)\<rparr>"
  have "execute_byte env x = reexecute reexec_limit env ?y"
    using assms pos fits by (simp add: execute_byte_def COUNT_HEADER_SIZE_def Let_def chunking_def)
  moreover have "PARSING_HEADER s_chunk_size_start" by (simp add: header_states_before_body)
  then have "chunk_byte Q c rest u s mk env ?y" using assms pos by (auto simp: chunking_def chunk_byte_def marks_def)
  ultimately show thesis using assms count(2) that [of ?y] by (simp add: chunking_def)
qed

lemma chunk_jump:
  assumes "chunking Q (c # mid @ rest) u s mk env x"
    and "\<And>y. chunk_byte Q c (mid @ rest) u s mk env y \<Longrightarrow> turn env reexec_limit y (\<lambda>y'.
      xpos y' = xpos y + length mid \<and> (xnread y' = xnread y \<and> s' \<noteq> s_chunk_size_start \<or> xnread y' = 0) \<and>
      R (xp y') \<and> xusr y' = u' \<and> xst y' = s' \<and> marks y' = mk')"
  shows "reaches env x (chunking R rest u' s' mk' env)"
proof -
  obtain y where y: "execute_byte env x = reexecute reexec_limit env y" "chunk_byte Q c (mid @ rest) u s mk env y"
      "xpos y = xpos x" "unat (xnread y) \<le> xpos x + 1"
    using chunking_fetch [OF assms(1)] .
  from assms(2) [OF y(2)] obtain y' where y': "execute_byte env x = Break y'" "xpos y' = xpos x + length mid"
      "xnread y' = xnread y \<and> s' \<noteq> s_chunk_size_start \<or> xnread y' = 0" "R (xp y')" "xusr y' = u'" "xst y' = s'" "marks y' = mk'"
    using y(1,3) by (auto simp: turn_def)
  have pos: "xpos x < length (data env)" "xpos x + 1 + length mid + length rest = length (data env)"
    using drop_Cons_pos [of "xpos x" "data env" c "mid @ rest"] assms(1) by (simp_all add: chunking_def)
  have "drop (Suc (length mid)) (drop (xpos x) (data env)) = rest"
    using assms(1) by (simp add: chunking_def del: drop_drop)
  then have "drop (Suc (xpos x + length mid)) (data env) = rest" by (simp add: add.commute)
  then have "chunking R rest u' s' mk' env (y'\<lparr>xpos := xpos y' + 1\<rparr>)"
    using y'(2-7) y(4) pos(2) assms(1) by (auto simp: chunking_def marks_def)
  moreover have "runs env 1 x (y'\<lparr>xpos := xpos y' + 1\<rparr>)" using y'(1) pos(1) by (rule runs_byte)
  ultimately show ?thesis
    unfolding reaches_def using y'(2) by (intro exI [of _ 1] exI [of _ "y'\<lparr>xpos := xpos y' + 1\<rparr>"]) simp
qed

lemma chunk_step:
  assumes "chunking Q (c # rest) u s mk env x"
    and "\<And>y. chunk_byte Q c rest u s mk env y \<Longrightarrow> \<exists>y'. execute_case env y = Break y' \<and>
      xpos y' = xpos y \<and> (xnread y' = xnread y \<and> s' \<noteq> s_chunk_size_start \<or> xnread y' = 0) \<and>
      R (xp y') \<and> xusr y' = u' \<and> xst y' = s' \<and> marks y' = mk'"
  shows "reaches env x (chunking R rest u' s' mk' env)"
proof -
  have "chunking Q (c # [] @ rest) u s mk env x" using assms(1) by simp
  then show ?thesis
  proof (rule chunk_jump)
    fix y assume "chunk_byte Q c ([] @ rest) u s mk env y"
    then have "chunk_byte Q c rest u s mk env y" by simp
    from assms(2) [OF this] show "turn env reexec_limit y (\<lambda>y'. xpos y' = xpos y + length ([] :: string) \<and>
        (xnread y' = xnread y \<and> s' \<noteq> s_chunk_size_start \<or> xnread y' = 0) \<and> R (xp y') \<and> xusr y' = u' \<and> xst y' = s' \<and> marks y' = mk')"
      by (auto intro: turn_break)
  qed
qed

section \<open>One chunk\<close>

fun hex_value :: "nat \<Rightarrow> string \<Rightarrow> nat" where
  "hex_value k [] = k"
| "hex_value k (c # cs) = hex_value (16 * k + nat (unhex_of c)) cs"

lemma hex_value_ge: "k \<le> hex_value k cs"
proof (induction cs arbitrary: k)
  case (Cons c cs)
  from Cons.IH [of "16 * k + nat (unhex_of c)"] show ?case by simp
qed simp

lemma hex_digit: "IS_HEX c \<Longrightarrow> 0 \<le> unhex_of c \<and> c \<noteq> CR \<and> c \<noteq> LF"
  by (auto simp: unhex_iff IS_HEX_def IS_NUM_def CR_def LF_def LOWER_def byte_def)

text \<open>A request in its chunks, and with the number in \<open>content_length\<close>.\<close>

definition in_chunks :: "nat \<Rightarrow> nat \<times> nat \<Rightarrow> bool \<Rightarrow> http_parser \<Rightarrow> bool" where
  "in_chunks m v t p \<longleftrightarrow> chunky m v True t p \<and> \<not> upgrade p"

lemma in_chunks_updates [simp]:
  "in_chunks m v t (p\<lparr>header_state := h\<rparr>) = in_chunks m v t p"
  "in_chunks m v t (p\<lparr>index := i\<rparr>) = in_chunks m v t p"
  "in_chunks m v t (p\<lparr>pstate := s\<rparr>) = in_chunks m v t p"
  "in_chunks m v t (p\<lparr>nread := r\<rparr>) = in_chunks m v t p"
  "in_chunks m v t (p\<lparr>content_length := l\<rparr>) = in_chunks m v t p"
  by (simp_all add: in_chunks_def)

lemma in_chunks_flag: "in_chunks m v t p \<Longrightarrow> has_flag p F_CHUNKED"
  and in_chunks_ok: "in_chunks m v t p \<Longrightarrow> http_errno p = HPE_OK"
  by (simp_all add: in_chunks_def chunky_def)

lemma in_chunks_trailing: "in_chunks m v False p \<Longrightarrow> in_chunks m v True (set_flag F_TRAILING p)"
  using chunky_flags(2) [of m v p] by (simp add: in_chunks_def set_flag_def)

abbreviation sized :: "nat \<Rightarrow> nat \<times> nat \<Rightarrow> nat \<Rightarrow> http_parser \<Rightarrow> bool" where
  "sized m v k p \<equiv> in_chunks m v False p \<and> content_length p = of_nat k"

lemma size_digit:
  assumes "chunk_byte (sized m v k) c rest u s_chunk_size mk env y" and "IS_HEX c" and "16 * k + nat (unhex_of c) < 2 ^ 60"
  shows "execute_case env y = Break (on_parser (\<lambda>p. p\<lparr>content_length := of_nat (16 * k + nat (unhex_of c))\<rparr>) y)"
proof -
  have cl: "content_length (xp y) = of_nat k" "has_flag (xp y) F_CHUNKED" "xst y = s_chunk_size" "xch y = c"
    using assms(1) by (auto simp: chunk_byte_def in_chunks_flag)
  have "unat ((ULLONG_MAX - 16) div 16) = 1152921504606846974" by (simp add: ULLONG_MAX_def unat_div)
  then have small: "\<not> (ULLONG_MAX - 16) div 16 < (of_nat k :: u64)"
    using assms(3) unat_small [of k] by (simp add: word_less_nat_alt)
  have "of_nat k * 16 + of_int (unhex_of c) = (of_nat (16 * k + nat (unhex_of c)) :: u64)"
    using hex_digit [OF assms(2)] by (simp add: mult.commute)
  then show ?thesis
    using cl hex_digit [OF assms(2)] small by (simp add: execute_case_def case_chunk_size_def ASSERT_def Let_def)
qed

lemma size_loop:
  assumes "chunking (sized m v k) (cs @ rest) u s_chunk_size mk env x" and "\<forall>c\<in>set cs. IS_HEX c" and "hex_value k cs < 2 ^ 60"
  shows "reaches env x (chunking (sized m v (hex_value k cs)) rest u s_chunk_size mk env)"
  using assms
proof (induction cs arbitrary: k x)
  case Nil
  then show ?case by (auto intro: reaches_refl)
next
  case (Cons c cs)
  let ?k = "16 * k + nat (unhex_of c)"
  have small: "?k < 2 ^ 60" using hex_value_ge [of ?k cs] Cons.prems(3) by simp
  have "reaches env x (chunking (sized m v ?k) (cs @ rest) u s_chunk_size mk env)"
  proof (rule chunk_step [OF Cons.prems(1) [unfolded append_Cons]], goal_cases)
    case (1 y)
    with size_digit [OF 1 _ small] Cons.prems(2) show ?case by (auto simp: chunk_byte_def marks_def)
  qed
  then show ?case by (rule reaches_trans) (use Cons.IH [of ?k] Cons.prems in simp)
qed

text \<open>The size line: digits, and parameters that are skipped.\<close>

definition parameters :: "string \<Rightarrow> bool" where
  "parameters e \<longleftrightarrow> (e = [] \<or> hd e = CHR '';'' \<or> hd e = CHR '' '') \<and> CR \<notin> set e"

lemma parameters_loop:
  assumes "chunking (sized m v k) (cs @ CR # rest) u s_chunk_parameters mk env x" and "CR \<notin> set cs"
  shows "reaches env x (chunking (sized m v k) rest u s_chunk_size_almost_done mk env)"
  using assms
proof (induction cs arbitrary: x)
  case Nil
  show ?case
    by (rule chunk_step [OF Nil.prems(1) [unfolded append_Nil]])
      (auto simp: chunk_byte_def execute_case_def case_chunk_parameters_def ASSERT_def in_chunks_flag marks_def)
next
  case (Cons c cs)
  have "reaches env x (chunking (sized m v k) (cs @ CR # rest) u s_chunk_parameters mk env)"
    by (rule chunk_step [OF Cons.prems(1) [unfolded append_Cons]])
      (use Cons.prems(2) in \<open>auto simp: chunk_byte_def execute_case_def case_chunk_parameters_def ASSERT_def in_chunks_flag marks_def\<close>)
  then show ?case by (rule reaches_trans) (use Cons.IH Cons.prems(2) in simp)
qed

lemma size_phase:
  assumes "chunking (in_chunks m v False) (hs @ e @ CR # rest) u s_chunk_size_start mk env x"
    and "hs \<noteq> []" and "\<forall>c\<in>set hs. IS_HEX c" and "hex_value 0 hs < 2 ^ 60" and "parameters e"
  shows "reaches env x (chunking (sized m v (hex_value 0 hs)) rest u s_chunk_size_almost_done mk env)"
proof -
  obtain c cs where hs: "hs = c # cs" using assms(2) by (cases hs) auto
  let ?k = "nat (unhex_of c)" and ?N = "hex_value 0 hs"
  have c: "IS_HEX c" "0 \<le> unhex_of c" using assms(3) hex_digit by (auto simp: hs)
  have "reaches env x (chunking (sized m v ?k) (cs @ e @ CR # rest) u s_chunk_size mk env)"
    by (rule chunk_step [OF assms(1) [unfolded hs append_Cons]])
      (use c in \<open>auto simp: chunk_byte_def execute_case_def case_chunk_size_start_def ASSERT_def Let_def in_chunks_flag marks_def\<close>)
  then have size: "reaches env x (chunking (sized m v ?N) (e @ CR # rest) u s_chunk_size mk env)"
    by (rule reaches_trans) (use size_loop [of m v ?k cs] assms(3,4) hs in simp)
  show ?thesis
  proof (rule reaches_trans [OF size])
    fix y assume y: "chunking (sized m v ?N) (e @ CR # rest) u s_chunk_size mk env y"
    show "reaches env y (chunking (sized m v ?N) rest u s_chunk_size_almost_done mk env)"
    proof (cases e)
      case Nil
      show ?thesis
        by (rule chunk_step [OF y [unfolded Nil append_Nil]])
          (auto simp: chunk_byte_def execute_case_def case_chunk_size_def ASSERT_def in_chunks_flag marks_def)
    next
      case (Cons d ds)
      have d: "d = CHR '';'' \<or> d = CHR '' ''" "CR \<notin> set ds" using assms(5) by (auto simp: Cons parameters_def)
      have "unhex_of (CHR '';'') = -1" "unhex_of (CHR '' '') = -1" by code_simp+
      then have "reaches env y (chunking (sized m v ?N) (ds @ CR # rest) u s_chunk_parameters mk env)"
        by (intro chunk_step [OF y [unfolded Cons append_Cons]])
          (use d(1) in \<open>auto simp: chunk_byte_def execute_case_def case_chunk_size_def ASSERT_def Let_def in_chunks_flag
            marks_def CR_def\<close>)
      then show ?thesis by (rule reaches_trans) (erule parameters_loop [OF _ d(2)])
    qed
  qed
qed

text \<open>The data of a chunk: the body callback gets exactly these bytes.\<close>

lemma chunk_pos:
  assumes "chunking Q r u s mk env x" and "chunk_byte Q' c cs u' s' mk' env y" and "length r = Suc (length cs)"
  shows "xpos y = xpos x"
proof -
  have "xpos x + length r = length (data env)" using assms(1) by (auto simp: chunking_def)
  moreover have "xpos y + length (c # cs) = length (data env)"
    using assms(2) drop_Cons_pos [of "xpos y" "data env" c cs] by (simp add: chunk_byte_def)
  ultimately show ?thesis using assms(3) by simp
qed

lemma data_bytes:
  assumes "chunking (sized m v (length d)) (d @ rest) u s_chunk_data unmarked env x" and "d \<noteq> []" and "length d < 2 ^ 60"
  shows "reaches env x (chunking (sized m v 0) rest u s_chunk_data_almost_done (None, None, None, Some (xpos x), None) env)"
proof -
  obtain c mid where d: "d = c # mid" using assms(2) by (cases d) auto
  have n: "(of_nat (length d) :: u64) \<noteq> 0" "(of_nat (length d) :: u64) \<noteq> ULLONG_MAX" "unat (of_nat (length d) :: u64) = length d"
    using of_nat_not_max [OF assms(3)] unat_small [OF assms(3)] assms(2) by auto
  show ?thesis
  proof (rule chunk_jump [OF assms(1) [unfolded d append_Cons]], goal_cases)
    case (1 y)
    let ?y = "y\<lparr>body_mark := Some (xpos y), xp := (xp y)\<lparr>content_length := 0\<rparr>, xpos := xpos y + length mid,
      xst := s_chunk_data_almost_done\<rparr>"
    have pos: "xpos y = xpos x" by (rule chunk_pos [OF assms(1) 1]) (simp add: d)
    have "xpos y + length d + length rest = length (data env)"
      using 1 drop_Cons_pos [of "xpos y" "data env" c "mid @ rest"] by (simp add: chunk_byte_def d)
    then have "length d \<le> length (data env) - xpos y" by linarith
    then have "to_read env y = length d" using 1 n(3) by (simp add: to_read_def chunk_byte_def d)
    moreover have "has_flag (xp y) F_CHUNKED" using 1 by (auto simp: chunk_byte_def dest: in_chunks_flag)
    ultimately have "execute_case env y = Break ?y"
      using 1 n(1,2) by (simp add: chunk_byte_def execute_case_def case_chunk_data_def ASSERT_def Let_def take_body_def
          marks_def unmarked_def MARK_def d)
    then show ?case using 1 pos by (intro turn_break) (auto simp: chunk_byte_def marks_def unmarked_def)
  qed
qed

lemma chunk_phase:
  assumes "chunking (sized m v (length d)) (LF # d @ CR # LF # rest) u s_chunk_size_almost_done unmarked env x"
    and "d \<noteq> []" and "length d < 2 ^ 60"
    and "on_chunk_header (settings env) = None" and "on_chunk_complete (settings env) = None"
    and "on_body (settings env) = Some f" and "\<forall>p b u. f p b u = (0, p, g b u)"
  shows "reaches env x (chunking (in_chunks m v False) rest (g d u) s_chunk_size_start unmarked env)"
proof -
  have n: "(of_nat (length d) :: u64) \<noteq> 0" using unat_small [OF assms(3)] assms(2) by auto
  have header: "reaches env x (chunking (sized m v (length d)) (d @ CR # LF # rest) u s_chunk_data unmarked env)"
    by (rule chunk_step [OF assms(1)])
      (use n assms(4) in \<open>auto simp: chunk_byte_def execute_case_def case_chunk_size_almost_done_def ASSERT_def STRICT_CHECK_def
        Let_def in_chunks_flag in_chunks_ok CALLBACK_NOTIFY0_def marks_def\<close>)
  show ?thesis
  proof (rule reaches_trans [OF header])
    fix y assume y: "chunking (sized m v (length d)) (d @ CR # LF # rest) u s_chunk_data unmarked env y"
    let ?mk = "(None, None, None, Some (xpos y), None)"
    have text_d: "drop (xpos y) (data env) = d @ CR # LF # rest" using y by (simp add: chunking_def)
    have cr: "reaches env z (chunking (sized m v 0) (LF # rest) (g d u) s_chunk_data_done unmarked env)"
      if z: "chunking (sized m v 0) (CR # LF # rest) u s_chunk_data_almost_done ?mk env z" for z
    proof (rule chunk_step [OF z], goal_cases)
      case (1 w)
      have at: "xpos w = xpos y + length d" "take (xpos w - xpos y) (drop (xpos y) (data env)) = d"
        using marked_text [OF text_d, of "xpos w"] 1 by (auto simp: chunk_byte_def)
      have flags: "has_flag (xp w) F_CHUNKED" "http_errno (xp w) = HPE_OK"
        using 1 by (auto simp: chunk_byte_def dest: in_chunks_flag in_chunks_ok)
      let ?w = "w\<lparr>xst := s_chunk_data_done, xp := (xp w)\<lparr>pstate := s_chunk_data_done\<rparr>, xusr := g d (xusr w), body_mark := None\<rparr>"
      have "execute_case env w = Break ?w"
        using 1 at assms(6) flags
        by (simp add: chunk_byte_def execute_case_def case_chunk_data_almost_done_def ASSERT_def STRICT_CHECK_def Let_def
            data_body_def marks_def data_callback [OF assms(7)])
      then show ?case using 1 by (auto simp: chunk_byte_def marks_def unmarked_def)
    qed
    have lf: "reaches env z (chunking (in_chunks m v False) rest (g d u) s_chunk_size_start unmarked env)"
      if z: "chunking (sized m v 0) (LF # rest) (g d u) s_chunk_data_done unmarked env z" for z
      by (rule chunk_step [OF z])
        (use assms(5) in \<open>auto simp: chunk_byte_def execute_case_def case_chunk_data_done_def ASSERT_def STRICT_CHECK_def
          Let_def in_chunks_flag in_chunks_ok CALLBACK_NOTIFY0_def marks_def\<close>)
    show "reaches env y (chunking (in_chunks m v False) rest (g d u) s_chunk_size_start unmarked env)"
      by (rule reaches_trans [OF data_bytes [OF y assms(2,3)]], rule reaches_trans [OF cr lf])
  qed
qed

section \<open>All chunks, and the end\<close>

text \<open>A chunk: the digits of its size, parameters, data.\<close>

type_synonym chunk = "string \<times> string \<times> string"

definition chunk_ok :: "chunk \<Rightarrow> bool" where
  "chunk_ok k = (case k of (hs, e, d) \<Rightarrow> hs \<noteq> [] \<and> list_all IS_HEX hs \<and> parameters e \<and> d \<noteq> [] \<and> hex_value 0 hs = length d)"

definition chunk_text :: "chunk \<Rightarrow> string" where
  "chunk_text k = (case k of (hs, e, d) \<Rightarrow> hs @ e @ [CR, LF] @ d @ [CR, LF])"

definition last_chunk_text :: string where "last_chunk_text = [CHR ''0'', CR, LF, CR, LF]"

definition chunk_data :: "chunk \<Rightarrow> string" where "chunk_data k = snd (snd k)"

lemma chunks_phase:
  assumes "chunking (in_chunks m v False) (concat (map chunk_text ks) @ rest) u s_chunk_size_start unmarked env x"
    and "list_all chunk_ok ks"
    and "on_chunk_header (settings env) = None" and "on_chunk_complete (settings env) = None"
    and "on_body (settings env) = Some f" and "\<forall>p b u. f p b u = (0, p, g b u)"
    and "unat (max_header_size env) < 2 ^ 60"
  shows "reaches env x (chunking (in_chunks m v False) rest (foldl (\<lambda>u k. g (chunk_data k) u) u ks) s_chunk_size_start unmarked env)"
  using assms(1,2)
proof (induction ks arbitrary: u x)
  case Nil
  then show ?case by (auto intro: reaches_refl)
next
  case (Cons k ks)
  obtain hs e d where k: "k = (hs, e, d)" by (cases k) auto
  let ?rest = "concat (map chunk_text ks) @ rest"
  have ok: "hs \<noteq> []" "\<forall>c\<in>set hs. IS_HEX c" "parameters e" "d \<noteq> []" "hex_value 0 hs = length d"
    using Cons.prems(2) by (auto simp: chunk_ok_def k list_all_iff)
  have x: "chunking (in_chunks m v False) (hs @ e @ CR # LF # d @ CR # LF # ?rest) u s_chunk_size_start unmarked env x"
    using Cons.prems(1) by (simp add: chunk_text_def [of "(hs, e, d)"] k)
  then have "length (hs @ e @ CR # LF # d @ CR # LF # ?rest) \<le> unat (max_header_size env)"
    unfolding chunking_def by (metis diff_le_self le_trans length_drop)
  then have small: "length d < 2 ^ 60" using assms(7) by simp
  have "reaches env x (chunking (sized m v (length d)) (LF # d @ CR # LF # ?rest) u s_chunk_size_almost_done unmarked env)"
    using size_phase [OF x ok(1,2) _ ok(3)] small ok(5) by simp
  then have "reaches env x (chunking (in_chunks m v False) ?rest (g d u) s_chunk_size_start unmarked env)"
    by (rule reaches_trans) (erule chunk_phase [OF _ ok(4) small assms(3-6)])
  then show ?case
    by (rule reaches_trans) (use Cons.IH [where u = "g d u"] Cons.prems(2) in \<open>simp add: k chunk_data_def\<close>)
qed

text \<open>The last chunk ends the headers a second time, and the message.\<close>

lemma chunks_end:
  assumes "chunking (in_chunks m v False) last_chunk_text u s_chunk_size_start unmarked env x"
    and "on_chunk_header (settings env) = None" and "on_chunk_complete (settings env) = None"
    and "on_message_complete (settings env) = Some f" and "\<And>p. f p u = (0, p, u')"
  shows "reaches env x (finished u' env)"
proof -
  have zero: "IS_HEX (CHR ''0'')" "unhex_of (CHR ''0'') = 0" by code_simp+
  have "reaches env x (chunking (sized m v (hex_value 0 ''0'')) [LF, CR, LF] u s_chunk_size_almost_done unmarked env)"
    by (rule size_phase [where e = "[]"]) (use assms(1) zero in \<open>simp_all add: last_chunk_text_def parameters_def\<close>)
  then have "reaches env x (chunking (sized m v 0) [LF, CR, LF] u s_chunk_size_almost_done unmarked env)"
    by (simp add: zero)
  then have "reaches env x (chunking (in_chunks m v True) [CR, LF] u s_header_field_start unmarked env)"
    by (rule reaches_trans)
      (erule chunk_step, use assms(2) in \<open>auto simp: chunk_byte_def execute_case_def case_chunk_size_almost_done_def ASSERT_def
        STRICT_CHECK_def Let_def in_chunks_flag in_chunks_ok in_chunks_trailing CALLBACK_NOTIFY0_def marks_def\<close>)
  then have "reaches env x (chunking (in_chunks m v True) [LF] u s_headers_almost_done unmarked env)"
    by (rule reaches_trans)
      (erule chunk_step, auto simp: chunk_byte_def execute_case_def case_header_field_start_def marks_def)
  then show ?thesis
  proof (rule reaches_trans)
    fix y assume y: "chunking (in_chunks m v True) [LF] u s_headers_almost_done unmarked env y"
    obtain z where z: "execute_byte env y = reexecute reexec_limit env z"
        "chunk_byte (in_chunks m v True) LF [] u s_headers_almost_done unmarked env z" "xpos z = xpos y"
      using chunking_fetch [OF y] by metis
    have last: "xpos y + 1 = length (data env)" using y drop_Cons_pos [of "xpos y" "data env" LF "[]"] by (simp add: chunking_def)
    have flags: "has_flag (xp z) F_TRAILING" "http_errno (xp z) = HPE_OK" "\<not> upgrade (xp z)"
      using z(2) by (auto simp: chunk_byte_def in_chunks_def chunky_def)
    let ?d = "z\<lparr>xst := s_message_done\<rparr>"
    let ?w = "?d\<lparr>xp := (xp ?d)\<lparr>pstate := NEW_MESSAGE (xp ?d)\<rparr>, xusr := u', xst := NEW_MESSAGE (xp ?d)\<rparr>"
    have "execute_case env z = Reexec ?d"
      using z(2) flags assms(3)
      by (simp add: chunk_byte_def execute_case_def case_headers_almost_done_def STRICT_CHECK_def no_callback)
    moreover have "execute_case env ?d = Break ?w"
      using z(2) flags finish_message_break [of ?d env f u u'] assms(4,5)
      by (simp add: chunk_byte_def execute_case_def case_message_done_def)
    ultimately have "execute_byte env y = Break ?w" using z(1) by (simp add: reexec_limit_def eval_nat_numeral)
    then have "runs env 1 y (?w\<lparr>xpos := xpos ?w + 1\<rparr>)" using last by (intro runs_byte) simp_all
    moreover have "finished u' env (?w\<lparr>xpos := xpos ?w + 1\<rparr>)"
      using z(2,3) flags last by (simp add: finished_def chunk_byte_def marks_def)
    ultimately show "reaches env y (finished u' env)"
      unfolding reaches_def using z(3) by (intro exI [of _ 1] exI [of _ "?w\<lparr>xpos := xpos ?w + 1\<rparr>"]) simp
  qed
qed

section \<open>The end of the headers\<close>

lemma chunked_headers_end:
  assumes "ready (\<lambda>p. chunky m v False False p \<and> header_state p = h_transfer_encoding_chunked) (CR # LF # rest)
      u s_header_value_lws unmarked env x"
    and "m \<noteq> HTTP_CONNECT"
    and "on_headers_complete (settings env) = Some f" and "\<And>p. chunky m v True False p \<Longrightarrow> f p u = (0, p, u')"
  shows "reaches env x (chunking (in_chunks m v False) rest u' s_chunk_size_start unmarked env)"
proof -
  have "reaches env x (ready (chunky m v True False) (LF # rest) u s_headers_almost_done unmarked env)"
  proof (rule ready_turn [OF assms(1) PARSING_header(5)])
    fix y assume y: "fetched (\<lambda>p. chunky m v False False p \<and> header_state p = h_transfer_encoding_chunked) CR (LF # rest)
      u s_header_value_lws unmarked env y"
    let ?y = "y\<lparr>xst := s_header_field_start, xp := set_flag F_CHUNKED (xp y)\<rparr>"
    have "execute_case env y = Reexec ?y"
      using y by (simp add: fetched_def execute_case_def case_header_value_lws_def finish_flag_def CR_def HT_def)
    moreover have "execute_case env ?y = Break (?y\<lparr>xst := s_headers_almost_done\<rparr>)"
      using y by (simp add: fetched_def execute_case_def case_header_field_start_def)
    ultimately show "turn env reexec_limit y (\<lambda>y'. xpos y' = xpos y \<and> xnread y' = xnread y \<and> chunky m v True False (xp y') \<and>
        xusr y' = u \<and> xst y' = s_headers_almost_done \<and> marks y' = unmarked)"
      by (intro turn_again [OF _ turn_break]) (use y chunky_flags(1) [of m v "xp y"] in \<open>auto simp: fetched_def marks_def\<close>)
  qed
  then show ?thesis
  proof (rule reaches_trans)
    fix x assume x: "ready (chunky m v True False) (LF # rest) u s_headers_almost_done unmarked env x"
    then have "chunking (chunky m v True False) (LF # [] @ rest) u s_headers_almost_done unmarked env x"
      by (simp add: ready_def chunking_def)
    then show "reaches env x (chunking (in_chunks m v False) rest u' s_chunk_size_start unmarked env)"
    proof (rule chunk_jump)
      fix y assume y: "chunk_byte (chunky m v True False) LF ([] @ rest) u s_headers_almost_done unmarked env y"
      let ?y = "y\<lparr>xst := s_headers_done, xp := (xp y)\<lparr>upgrade := False\<rparr>, xusr := u'\<rparr>"
      let ?z = "?y\<lparr>xnread := 0, xp := (xp ?y)\<lparr>nread := 0\<rparr>, xst := s_chunk_size_start\<rparr>"
      have q: "chunky m v True False (xp y)" using y by (simp add: chunk_byte_def)
      then have "execute_case env y = Reexec ?y"
        using y assms(2,3) assms(4) [of "(xp y)\<lparr>upgrade := False\<rparr>"]
        by (simp add: chunk_byte_def execute_case_def case_headers_almost_done_def STRICT_CHECK_def length_conflict_def
            headers_complete_def upgrade_of_def chunky_def has_flag_def)
      moreover have "execute_case env ?y = Break ?z"
        using y q by (simp add: chunk_byte_def execute_case_def case_headers_done_def STRICT_CHECK_def Let_def chunky_def has_flag_def)
      ultimately show "turn env reexec_limit y (\<lambda>y'. xpos y' = xpos y + length ([] :: string) \<and>
          (xnread y' = xnread y \<and> s_chunk_size_start \<noteq> s_chunk_size_start \<or> xnread y' = 0) \<and> in_chunks m v False (xp y') \<and> xusr y' = u' \<and> xst y' = s_chunk_size_start \<and> marks y' = unmarked)"
        by (intro turn_again [OF _ turn_break]) (use y q in \<open>auto simp: chunk_byte_def marks_def in_chunks_def\<close>)
    qed
  qed
qed

section \<open>A chunked request in one piece\<close>

definition with_chunks :: "request_spec \<Rightarrow> request_spec" where
  "with_chunks r = r\<lparr>spHeaders := spHeaders r @ [(''Transfer-Encoding'', ''chunked'')], spBody := ''''\<rparr>"

definition chunked_text :: "request_spec \<Rightarrow> chunk list \<Rightarrow> string" where
  "chunked_text r ks = request_text (with_chunks r) @ concat (map chunk_text ks) @ last_chunk_text"

text \<open>\<open>setBody\<close> appends, so the pieces of the body come together.\<close>

definition chunked_meaning :: "request_spec \<Rightarrow> chunk list \<Rightarrow> http_request" where
  "chunked_meaning r ks = (meaning (with_chunks r))\<lparr>reqBody := concat (map chunk_data ks)\<rparr>"

lemma set_bodies:
  "foldl (\<lambda>u k. on_req (req_setBody (chunk_data k)) u) u ks =
     u\<lparr>reqData := (reqData u)\<lparr>reqBody := reqBody (reqData u) @ concat (map chunk_data ks)\<rparr>\<rparr>"
  by (induction ks arbitrary: u) (simp_all add: req_setBody_def)

text \<open>The headers, up to the first size.\<close>

lemma chunked_heads:
  assumes "well_formed r" and "settings env = request_settings"
    and "ready (\<lambda>p. p = http_parser_init HTTP_REQUEST) (request_text (with_chunks r) @ body) u s_start_req unmarked env x"
  shows "reaches env x (chunking (in_chunks (spMethod r) (digit (spMajor r), digit (spMinor r)) False) body
    (on_req (\<lambda>d. req_setVersion [spMajor r, CHR ''.'', spMinor r] (req_setMethod (spMethod r) d))
      (foldl take_header (on_req (req_setPath (spUrl r)) u) (all_headers (with_chunks r)))) s_chunk_size_start unmarked env)"
proof -
  let ?m = "spMethod r" and ?v = "(digit (spMajor r), digit (spMinor r))"
  let ?u1 = "on_req (req_setPath (spUrl r)) u"
  let ?u3 = "foldl take_header ?u1 (all_headers (with_chunks r))"
  let ?te = "header_line_text ''Transfer-Encoding'' ''chunked''"
  let ?s = "if spHeaders r = [] then s_header_field_start else s_header_value_lws"
  have wf: "?m \<noteq> HTTP_CONNECT" "IS_NUM (spMajor r)" "IS_NUM (spMinor r)"
      "list_all (\<lambda>(n, v). plain_name n \<and> proper_value v) (spHeaders r)"
    using assms(1) by (simp_all add: well_formed_def)
  have heads: "all_headers (with_chunks r) = spHeaders r @ [(''Transfer-Encoding'', ''chunked'')]"
    by (simp add: all_headers_def with_chunks_def)
  have "request_text (with_chunks r) @ body = method_strings ! spMethod r @ '' '' @ spUrl r @ '' '' @
      version_line (spMajor r) (spMinor r) @ concat (map (case_prod header_line_text) (spHeaders r)) @ ?te @ CR # LF # body"
    by (simp add: request_text_def request_head_def heads) (simp add: with_chunks_def)
  then have line: "reaches env x (ready (\<lambda>p. quiet ?m ?v ULLONG_MAX p \<and> between_headers s_header_field_start p)
      (concat (map (case_prod header_line_text) (spHeaders r)) @ ?te @ CR # LF # body) ?u1 s_header_field_start unmarked env)"
    using assms(3) by (intro line_phase [OF assms(1,2)]) simp
  have plain: "reaches env x (ready (\<lambda>p. quiet ?m ?v ULLONG_MAX p \<and> between_headers ?s p) (?te @ CR # LF # body)
      (foldl take_header ?u1 (spHeaders r)) ?s unmarked env)"
    by (rule reaches_trans [OF line]) (erule headers_phase [OF _ wf(4) assms(2)])
  have te: "reaches env y (ready (\<lambda>p. chunky ?m ?v False False p \<and> header_state p = h_transfer_encoding_chunked)
      (CR # LF # body) ?u3 s_header_value_lws unmarked env)"
    if "ready (\<lambda>p. quiet ?m ?v ULLONG_MAX p \<and> between_headers ?s p) (?te @ CR # LF # body)
      (foldl take_header ?u1 (spHeaders r)) ?s unmarked env y" for y
    using chunked_line [OF that _ header_field_callback _ header_value_callback] assms(2) request_callbacks
    by (simp add: heads take_header_def)
  have complete: "request_header_complete p ?u3 =
      (0, p, on_req (\<lambda>d. req_setVersion [spMajor r, CHR ''.'', spMinor r] (req_setMethod ?m d)) ?u3)"
    if "chunky ?m ?v True False p" for p
    using version_text_digits [OF _ wf(2,3), of p] that by (simp add: request_header_complete_def chunky_def Let_def)
  show ?thesis
    by (rule reaches_trans [OF reaches_trans [OF plain te]], assumption, erule chunked_headers_end [where f = request_header_complete, OF _ wf(1)])
      (use assms(2) request_callbacks complete in simp_all)
qed

lemma chunked_run:
  assumes "well_formed r" and "list_all chunk_ok ks" and "length (chunked_text r ks) \<le> unat HTTP_MAX_HEADER_SIZE"
    and "env = make_env request_settings HTTP_MAX_HEADER_SIZE (http_parser_init HTTP_REQUEST) (chunked_text r ks)"
    and "u = \<lparr>reqData = newHttpRequest ''1.1'' False, reqFinish = False\<rparr>"
  shows "reaches env (initial_xstate (http_parser_init HTTP_REQUEST) u)
    (finished \<lparr>reqData = chunked_meaning r ks, reqFinish = True\<rparr> env)"
proof -
  let ?x = "initial_xstate (http_parser_init HTTP_REQUEST) u" and ?m = "spMethod r"
  let ?v = "(digit (spMajor r), digit (spMinor r))"
  let ?u4 = "on_req (\<lambda>d. req_setVersion [spMajor r, CHR ''.'', spMinor r] (req_setMethod ?m d))
    (foldl take_header (on_req (req_setPath (spUrl r)) u) (all_headers (with_chunks r)))"
  let ?u5 = "foldl (\<lambda>u k. on_req (req_setBody (chunk_data k)) u) ?u4 ks"
  have env: "settings env = request_settings" "data env = chunked_text r ks" "max_header_size env = HTTP_MAX_HEADER_SIZE"
    by (simp_all add: assms(4) make_env_def)
  have none: "on_chunk_header (settings env) = None" "on_chunk_complete (settings env) = None"
    by (simp_all add: env request_settings_def http_parser_settings_init_def)
  have small: "unat (max_header_size env) < 2 ^ 60" by (simp add: env HTTP_MAX_HEADER_SIZE_def)
  have body: "on_body (settings env) = Some request_body_callback"
      "\<forall>p b u. request_body_callback p b u = (0, p, on_req (req_setBody b) u)"
    by (simp_all add: env request_callbacks request_body_callback_def)
  have result: "reqData ?u5 = chunked_meaning r ks" "reqFinish ?u5 = False"
    by (simp_all add: set_bodies take_headers assms(5) chunked_meaning_def meaning_def with_chunks_def newHttpRequest_def
        req_setPath_def req_setVersion_def req_setMethod_def keep_alive_after_def)
  have start: "ready (\<lambda>p. p = http_parser_init HTTP_REQUEST) (request_text (with_chunks r) @ concat (map chunk_text ks) @ last_chunk_text)
      u s_start_req unmarked env ?x"
    using assms(3) env
    by (simp add: ready_def initial_xstate_def http_parser_init_def marks_def unmarked_def url_states_def chunked_text_def)
  have chunks: "reaches env y (chunking (in_chunks ?m ?v False) last_chunk_text ?u5 s_chunk_size_start unmarked env)"
    if "chunking (in_chunks ?m ?v False) (concat (map chunk_text ks) @ last_chunk_text) ?u4 s_chunk_size_start unmarked env y" for y
    by (rule chunks_phase [OF that assms(2) none body small])
  have the_end: "reaches env y (finished \<lparr>reqData = chunked_meaning r ks, reqFinish = True\<rparr> env)"
    if "chunking (in_chunks ?m ?v False) last_chunk_text ?u5 s_chunk_size_start unmarked env y" for y
  proof (rule chunks_end [OF that none])
    show "on_message_complete (settings env) = Some request_body_complete" by (simp add: env request_callbacks)
    show "request_body_complete p ?u5 = (0, p, \<lparr>reqData = chunked_meaning r ks, reqFinish = True\<rparr>)" for p
      using result by (simp add: request_body_complete_def)
  qed
  show ?thesis
    by (rule reaches_trans [OF reaches_trans [OF chunked_heads [OF assms(1) env(1) start] chunks]], assumption, erule the_end)
qed

text \<open>
  C5. A request with a chunked body that arrives in one piece, whatever the sizes of the chunks,
  the spelling of the sizes and their parameters, is read to its end and parsed to the
  \<open>HttpRequest\<close> it means, with the data of the chunks, put together in order, as its body.
\<close>

theorem chunked_request_parsed:
  assumes "well_formed r" and "list_all chunk_ok ks" and "length (chunked_text r ks) \<le> 81920"
  shows "\<exists>p. request_execute newHttpRequestParser (chunked_text r ks) =
    Inr (length (chunked_text r ks), \<lparr>rqParser = p, rqData = \<lparr>reqData = chunked_meaning r ks, reqFinish = True\<rparr>\<rparr>)"
proof -
  have "length (chunked_text r ks) \<le> unat HTTP_MAX_HEADER_SIZE" using assms(3) by (simp add: HTTP_MAX_HEADER_SIZE_def)
  from chunked_run [OF assms(1,2) this refl refl] show ?thesis
    by (rule request_returns) (simp add: chunked_text_def last_chunk_text_def)
qed

definition example_chunks :: "chunk list" where
  "example_chunks = [(''5'', '''', ''hello''), (''07'', '';x=y'', '' chunks'')]"

theorem chunked_request_parsed_witness:
  "\<exists>p d. request_execute newHttpRequestParser
     (''POST /form?x=1 HTTP/1.1'' @ CRLF @ ''Host: a.b'' @ CRLF @ ''Connection: keep-alive'' @ CRLF @
      ''Transfer-Encoding: chunked'' @ CRLF @ CRLF @ ''5'' @ CRLF @ ''hello'' @ CRLF @ ''07;x=y'' @ CRLF @
      '' chunks'' @ CRLF @ ''0'' @ CRLF @ CRLF) = Inr (122, \<lparr>rqParser = p, rqData = d\<rparr>) \<and> reqFinish d \<and>
     reqBody (reqData d) = ''hello chunks''"
proof -
  have printed: "chunked_text example_post example_chunks =
      ''POST /form?x=1 HTTP/1.1'' @ CRLF @ ''Host: a.b'' @ CRLF @ ''Connection: keep-alive'' @ CRLF @
      ''Transfer-Encoding: chunked'' @ CRLF @ CRLF @ ''5'' @ CRLF @ ''hello'' @ CRLF @ ''07;x=y'' @ CRLF @
      '' chunks'' @ CRLF @ ''0'' @ CRLF @ CRLF"
    by code_simp
  have len: "length (chunked_text example_post example_chunks) = 122" by code_simp
  have ok: "well_formed example_post" "list_all chunk_ok example_chunks" by code_simp+
  have body: "reqBody (chunked_meaning example_post example_chunks) = ''hello chunks''" by code_simp
  from chunked_request_parsed [OF ok] obtain p where "request_execute newHttpRequestParser (chunked_text example_post example_chunks) =
      Inr (122, \<lparr>rqParser = p, rqData = \<lparr>reqData = chunked_meaning example_post example_chunks, reqFinish = True\<rparr>\<rparr>)"
    unfolding len by auto
  then show ?thesis unfolding printed using body
    by (intro exI [of _ p] exI [of _ "\<lparr>reqData = chunked_meaning example_post example_chunks, reqFinish = True\<rparr>"]) simp
qed

end
