(* ===== verification/Parse_Response.thy ===== *)
theory Parse_Response
  imports Parse_Request
begin

text \<open>
  What \<open>HttpResponseParser::execute\<close> (\<open>src/http/http11_parser.cpp\<close>) makes of the head of a response:
  the status line (\<open>src/http/http_parser.cpp\<close> 747-903), header lines and an empty line.
\<close>

section \<open>Responses and their texts\<close>




section \<open>The status line\<close>











section \<open>The headers\<close>





section \<open>The end of the headers\<close>




section \<open>What is stored\<close>









end
