(* ===== verification/Tcp_Server.thy ===== *)
theory Tcp_Server
  imports Net_Address
begin

text \<open>
  \<open>Socket\<close> (\<open>src/socket/socket.cpp\<close>, \<open>src/socket/socket.h\<close>) and the life of a \<open>TcpServer\<close>
  (\<open>src/tcp_server/tcp_server.cpp\<close>, \<open>src/tcp_server/tcp_server.h\<close>): binding, starting, the
  accept loop and stopping.

  What the system calls return is an argument.  Starting and stopping may come from other threads
  than the one that accepts, so the life of a server is a sequence of events; an event is one
  call, one test of \<open>mIsStop\<close>, or one return of \<open>accept\<close>.
\<close>

section \<open>Sockets\<close>

datatype socket_type = TCP | UDP
datatype socket_family = IPv4 | IPv6 | UNIX

record socket =
  mSockfd :: int
  sockConnected :: bool
  mAddr :: "address option"

text \<open>\<open>sys_socket\<close> is \<open>::socket\<close>; the other constructors take a descriptor or nothing.\<close>

definition newSocket :: "(socket_family \<Rightarrow> socket_type \<Rightarrow> int) \<Rightarrow> socket_family \<Rightarrow> socket_type \<Rightarrow> socket" where
  "newSocket sys_socket family t = \<lparr>mSockfd = sys_socket family t, sockConnected = False, mAddr = None\<rparr>"

definition socketOf :: "int \<Rightarrow> socket" where
  "socketOf fd = \<lparr>mSockfd = fd, sockConnected = True, mAddr = None\<rparr>"

definition emptySocket :: socket where
  "emptySocket = \<lparr>mSockfd = -1, sockConnected = False, mAddr = None\<rparr>"

definition createTcp :: "(socket_family \<Rightarrow> socket_type \<Rightarrow> int) \<Rightarrow> socket" where
  "createTcp sys_socket = newSocket sys_socket IPv4 TCP"

definition createUdp :: "(socket_family \<Rightarrow> socket_type \<Rightarrow> int) \<Rightarrow> socket" where
  "createUdp sys_socket = newSocket sys_socket IPv4 UDP"

text \<open>The destructor forgets the descriptor without closing it.\<close>

definition socket_destroy :: "socket \<Rightarrow> socket" where
  "socket_destroy s = s\<lparr>mSockfd := -1, sockConnected := False\<rparr>"

text \<open>The methods, with what the system call returns.\<close>

definition socket_accept :: "int \<Rightarrow> socket option" where
  "socket_accept sock = (if sock = -1 then None else Some (socketOf sock))"

definition socket_connect :: "int \<Rightarrow> socket \<Rightarrow> int \<times> socket" where
  "socket_connect ret s = (ret, s\<lparr>sockConnected := True\<rparr>)"

definition socket_bind :: "address \<Rightarrow> int \<Rightarrow> socket \<Rightarrow> int \<times> socket" where
  "socket_bind addr ret s = (ret, s\<lparr>mAddr := Some addr\<rparr>)"

definition socket_close :: "int \<Rightarrow> socket \<Rightarrow> int \<times> socket" where
  "socket_close ret s = (ret, s\<lparr>sockConnected := False\<rparr>)"

section \<open>The server\<close>

text \<open>
  Of the IO managers the server sees the tasks it adds: \<open>acceptTasks\<close> calls of \<open>handleAccept\<close>
  wait in the acceptor, \<open>clientTasks\<close> are the sockets of the calls of \<open>handleClient\<close> that were
  given to the worker.  \<open>testing\<close> and \<open>accepting\<close> count the running calls of \<open>handleAccept\<close>:
  those before the test of \<open>mIsStop\<close> and those in \<open>accept\<close>.  \<open>lisCloses\<close> counts the closings of
  the listening descriptor.
\<close>

record tcp_server =
  mLisSock :: socket
  mIsStop :: bool
  acceptTasks :: nat
  testing :: nat
  accepting :: nat
  lisCloses :: nat
  clientTasks :: "socket list"

definition newTcpServer :: "(socket_family \<Rightarrow> socket_type \<Rightarrow> int) \<Rightarrow> tcp_server" where
  "newTcpServer sys_socket =
     \<lparr>mLisSock = createTcp sys_socket, mIsStop = True, acceptTasks = 0, testing = 0, accepting = 0,
      lisCloses = 0, clientTasks = []\<rparr>"

text \<open>
  \<open>bind\<close> tries until it succeeds, with a \<open>sleep\<close> in between; \<open>rets k\<close> is what the \<open>k\<close>-th call of
  \<open>::bind\<close> returns.  \<open>None\<close>: it never returns.
\<close>

partial_function (option) bind_loop :: "(nat \<Rightarrow> int) \<Rightarrow> address \<Rightarrow> nat \<Rightarrow> socket \<Rightarrow> (nat \<times> socket) option" where
  "bind_loop rets addr k s =
     (case socket_bind addr (rets k) s of (ret, s') \<Rightarrow>
        if ret \<noteq> 0 then bind_loop rets addr (k + 1) s' else Some (k, s'))"

text \<open>The result, with the number of sleeps.\<close>

definition tcp_bind :: "(nat \<Rightarrow> int) \<Rightarrow> int \<Rightarrow> address \<Rightarrow> tcp_server \<Rightarrow> (nat \<times> bool \<times> tcp_server) option" where
  "tcp_bind rets listen_ret addr s =
     (case bind_loop rets addr 0 (mLisSock s) of
        None \<Rightarrow> None
      | Some (k, sock) \<Rightarrow> Some (k, listen_ret = 0, s\<lparr>mLisSock := sock\<rparr>))"

definition tcp_start :: "tcp_server \<Rightarrow> tcp_server" where
  "tcp_start s = (if \<not> mIsStop s then s else s\<lparr>mIsStop := False, acceptTasks := acceptTasks s + 1\<rparr>)"

definition tcp_stop :: "tcp_server \<Rightarrow> tcp_server" where
  "tcp_stop s = s\<lparr>mIsStop := True\<rparr>"

text \<open>
  \<open>handleAccept\<close> in its parts: the acceptor takes the task; the test of the \<open>while\<close>, which enters
  \<open>accept\<close> or closes and returns; the return of \<open>accept\<close> and the rest of the body.
\<close>

definition accept_begin :: "tcp_server \<Rightarrow> tcp_server option" where
  "accept_begin s = (if acceptTasks s = 0 then None
     else Some (s\<lparr>acceptTasks := acceptTasks s - 1, testing := testing s + 1\<rparr>))"

definition accept_test :: "tcp_server \<Rightarrow> tcp_server option" where
  "accept_test s =
     (if testing s = 0 then None
      else if \<not> mIsStop s then Some (s\<lparr>testing := testing s - 1, accepting := accepting s + 1\<rparr>)
      else Some (s\<lparr>testing := testing s - 1, mLisSock := snd (socket_close 0 (mLisSock s)), lisCloses := lisCloses s + 1\<rparr>))"

definition accept_return :: "int \<Rightarrow> tcp_server \<Rightarrow> tcp_server option" where
  "accept_return ret s =
     (if accepting s = 0 then None
      else let s = s\<lparr>accepting := accepting s - 1, testing := testing s + 1\<rparr>
           in case socket_accept ret of
                None \<Rightarrow> Some s
              | Some newClient \<Rightarrow> Some (s\<lparr>clientTasks := clientTasks s @ [newClient]\<rparr>))"

datatype server_event = Start | Stop | Begin | Test | Accept int

fun server_step :: "server_event \<Rightarrow> tcp_server \<Rightarrow> tcp_server option" where
  "server_step Start s = Some (tcp_start s)"
| "server_step Stop s = Some (tcp_stop s)"
| "server_step Begin s = accept_begin s"
| "server_step Test s = accept_test s"
| "server_step (Accept ret) s = accept_return ret s"

fun server_run :: "server_event list \<Rightarrow> tcp_server \<Rightarrow> tcp_server option" where
  "server_run [] s = Some s"
| "server_run (e # es) s = (case server_step e s of None \<Rightarrow> None | Some s' \<Rightarrow> server_run es s')"

lemma server_run_ConsE:
  assumes "server_run (e # es) s = Some s''"
  obtains s' where "server_step e s = Some s'" "server_run es s' = Some s''"
  using assms by (auto split: option.splits)

lemmas server_step_defs = tcp_start_def tcp_stop_def accept_begin_def accept_test_def accept_return_def
  socket_accept_def socket_close_def

section \<open>Binding\<close>

lemma bind_loop_returns:
  "(\<forall>i<n. rets (k + i) \<noteq> 0) \<Longrightarrow> rets (k + n) = 0 \<Longrightarrow> bind_loop rets addr k s = Some (k + n, s\<lparr>mAddr := Some addr\<rparr>)"
proof (induction n arbitrary: k s)
  case 0
  then show ?case by (subst bind_loop.simps) (simp add: socket_bind_def)
next
  case (Suc n)
  have "rets k \<noteq> 0" using Suc.prems(1) by (metis add.right_neutral zero_less_Suc)
  moreover have "\<forall>i<n. rets (k + 1 + i) \<noteq> 0"
    using Suc.prems(1) by (metis add.assoc add.commute Suc_eq_plus1 Suc_less_eq)
  moreover have "bind_loop rets addr (k + 1) (s\<lparr>mAddr := Some addr\<rparr>) = Some (k + 1 + n, s\<lparr>mAddr := Some addr\<rparr>)"
    using Suc.IH [of "k + 1" "s\<lparr>mAddr := Some addr\<rparr>"] Suc.prems(2) calculation(2) by simp
  ultimately show ?case by (subst bind_loop.simps) (simp add: socket_bind_def)
qed

lemma bind_loop_success: "bind_loop rets addr k s = Some r \<Longrightarrow> rets (fst r) = 0"
proof -
  assume ret: "bind_loop rets addr k s = Some r"
  show "rets (fst r) = 0"
  proof (rule bind_loop.raw_induct [where P = "\<lambda>rets addr k s r. rets (fst r) = 0", OF _ ret])
    fix loop and rets :: "nat \<Rightarrow> int" and addr k s r
    assume "\<And>rets addr k s r. loop rets addr k s = Some r \<Longrightarrow> rets (fst r) = 0"
      and "(case socket_bind addr (rets k) s of (ret, s') \<Rightarrow> if ret \<noteq> 0 then loop rets addr (k + 1) s' else Some (k, s')) = Some r"
    then show "rets (fst r) = 0" by (auto simp: socket_bind_def split: if_splits)
  qed
qed

text \<open>
  C40. \<open>bind\<close> returns exactly when the system lets it bind at some attempt: it makes the attempts
  up to the first success, with a sleep after each failure, and reports whether \<open>listen\<close> worked.
\<close>

theorem bind_returns:
  "tcp_bind rets listen_ret addr s =
     (if \<exists>k. rets k = 0
      then Some (LEAST k. rets k = 0, listen_ret = 0, s\<lparr>mLisSock := (mLisSock s)\<lparr>mAddr := Some addr\<rparr>\<rparr>)
      else None)"
proof (cases "\<exists>k. rets k = 0")
  case True
  then have "rets (0 + (LEAST k. rets k = 0)) = 0" "\<forall>i<LEAST k. rets k = 0. rets (0 + i) \<noteq> 0"
    by (auto intro: LeastI_ex dest: not_less_Least)
  from bind_loop_returns [OF this(2,1), of addr "mLisSock s"] True show ?thesis by (simp add: tcp_bind_def)
next
  case False
  then have "bind_loop rets addr 0 (mLisSock s) = None"
    using bind_loop_success [of rets addr 0 "mLisSock s"] by (metis not_Some_eq)
  with False show ?thesis by (simp add: tcp_bind_def)
qed

section \<open>Accepting\<close>

text \<open>The connections among the events.\<close>

definition connections :: "server_event list \<Rightarrow> socket list" where
  "connections es = concat (map (\<lambda>e. case e of Accept ret \<Rightarrow> if ret = -1 then [] else [socketOf ret] | _ \<Rightarrow> []) es)"

text \<open>The calls of \<open>handleAccept\<close> that are queued or running.\<close>

definition live :: "tcp_server \<Rightarrow> nat" where
  "live s = acceptTasks s + testing s + accepting s"

lemma step_tasks:
  assumes "server_step e s = Some s'"
  shows "clientTasks s' = clientTasks s @ connections [e]"
    and "live s' + lisCloses s' = live s + lisCloses s + (if e = Start \<and> mIsStop s then 1 else 0)"
    and "mSockfd (mLisSock s') = mSockfd (mLisSock s)"
  using assms
  by (cases e; auto simp: server_step_defs connections_def live_def Let_def split: if_splits)+

text \<open>
  C14. Whatever the order in which calls of \<open>start\<close> and \<open>stop\<close>, the tests of the flag and the
  returns of \<open>accept\<close> come, every connection that \<open>accept\<close> returns is handed to the worker
  exactly once and in order, nothing else is, and the listening descriptor is closed at most as
  often as \<open>start\<close> was called.
\<close>

theorem connections_handed_over:
  assumes "server_run es (newTcpServer sys_socket) = Some s"
  shows "clientTasks s = connections es \<and> lisCloses s + live s \<le> length (filter (\<lambda>e. e = Start) es) \<and>
    mSockfd (mLisSock s) = sys_socket IPv4 TCP"
proof -
  have "server_run es s0 = Some s \<Longrightarrow> clientTasks s = clientTasks s0 @ connections es \<and>
      lisCloses s + live s \<le> lisCloses s0 + live s0 + length (filter (\<lambda>e. e = Start) es) \<and>
      mSockfd (mLisSock s) = mSockfd (mLisSock s0)" for s0
  proof (induction es arbitrary: s0)
    case (Cons e es)
    obtain s1 where s1: "server_step e s0 = Some s1" "server_run es s1 = Some s"
      using Cons.prems by (rule server_run_ConsE)
    show ?case using Cons.IH [OF s1(2)] step_tasks [OF s1(1)] by (auto simp: connections_def split: if_splits)
  qed (simp add: connections_def)
  from this [OF assms] show ?thesis by (simp add: newTcpServer_def createTcp_def newSocket_def live_def)
qed

theorem connections_handed_over_witness:
  "\<exists>s. server_run [Start, Begin, Test, Accept 7, Stop, Test] (newTcpServer (\<lambda>_ _. 3)) = Some s \<and> clientTasks s = [socketOf 7]"
proof -
  have "\<exists>s. server_run [Start, Begin, Test, Accept 7, Stop, Test] (newTcpServer (\<lambda>_ _. 3)) = Some s"
    by (simp add: server_step_defs newTcpServer_def)
  then obtain s where s: "server_run [Start, Begin, Test, Accept 7, Stop, Test] (newTcpServer (\<lambda>_ _. 3)) = Some s" ..
  from connections_handed_over [OF this] s show ?thesis by (simp add: connections_def)
qed

section \<open>Stopping\<close>

text \<open>What a stopped server still has to do.\<close>

definition work_left :: "tcp_server \<Rightarrow> nat" where
  "work_left s = 2 * acceptTasks s + testing s + 2 * accepting s"

lemma stopped_step:
  assumes "server_step e s = Some s'" and "mIsStop s" and "e \<noteq> Start"
  shows "mIsStop s'" and "e \<noteq> Stop \<Longrightarrow> work_left s' < work_left s" and "e = Stop \<Longrightarrow> s' = s"
    and "accepting s' + (if \<exists>ret. e = Accept ret then 1 else 0) = accepting s"
  using assms by (cases e; auto simp: server_step_defs work_left_def Let_def split: if_splits)+

text \<open>
  C15. After \<open>stop\<close>, unless it is started again, the server winds down: the calls of
  \<open>handleAccept\<close> make at most \<open>work_left\<close> more steps, at most one more connection is accepted for
  each call that was in \<open>accept\<close>, and when nothing can happen any more every call has closed the
  listening descriptor.
\<close>

theorem stopped_server_winds_down:
  assumes "server_run es s = Some s'" and "mIsStop s" and "Start \<notin> set es"
  shows "length (filter (\<lambda>e. e \<noteq> Stop) es) \<le> work_left s \<and> length (connections es) \<le> accepting s \<and>
    ((\<forall>e. e \<notin> {Start, Stop} \<longrightarrow> server_step e s' = None) \<longrightarrow> live s' = 0 \<and> lisCloses s' = lisCloses s + live s)"
proof -
  have "length (filter (\<lambda>e. e \<noteq> Stop) es) + work_left s' \<le> work_left s \<and> length (connections es) + accepting s' \<le> accepting s \<and>
      live s' + lisCloses s' = live s + lisCloses s"
    using assms
  proof (induction es arbitrary: s)
    case (Cons e es)
    obtain s1 where s1: "server_step e s = Some s1" "server_run es s1 = Some s'"
      using Cons.prems(1) by (rule server_run_ConsE)
    have e: "e \<noteq> Start" "Start \<notin> set es" using Cons.prems(3) by auto
    note one = stopped_step [OF s1(1) Cons.prems(2) e(1)]
    have "length (connections (e # es)) \<le> (if \<exists>ret. e = Accept ret then 1 else 0) + length (connections es)"
      by (cases e) (simp_all add: connections_def)
    then show ?case
      using Cons.IH [OF s1(2) one(1) e(2)] one(2-4) step_tasks(2) [OF s1(1)] e(1) by (cases "e = Stop") auto
  qed (simp add: connections_def)
  moreover have "live s' = 0" if "\<forall>e. e \<notin> {Start, Stop} \<longrightarrow> server_step e s' = None"
    using that [rule_format, of Begin] that [rule_format, of Test] that [rule_format, of "Accept (-1)"]
    by (auto simp: server_step_defs live_def Let_def split: if_splits)
  ultimately show ?thesis by auto
qed

theorem stopped_server_winds_down_witness:
  "\<exists>s s'. server_run [Start, Begin, Test, Stop] (newTcpServer (\<lambda>_ _. 3)) = Some s \<and>
     server_run [Accept 8, Test] s = Some s' \<and> live s' = 0 \<and> lisCloses s' = 1"
proof -
  have "\<exists>s s'. server_run [Start, Begin, Test, Stop] (newTcpServer (\<lambda>_ _. 3)) = Some s \<and> mIsStop s \<and>
      lisCloses s = 0 \<and> live s = 1 \<and> server_run [Accept 8, Test] s = Some s' \<and> acceptTasks s' = 0 \<and> testing s' = 0 \<and> accepting s' = 0"
    by (simp add: server_step_defs newTcpServer_def live_def)
  then obtain s s' where s: "server_run [Start, Begin, Test, Stop] (newTcpServer (\<lambda>_ _. 3)) = Some s" "mIsStop s"
      "lisCloses s = 0" "live s = 1" "server_run [Accept 8, Test] s = Some s'" "acceptTasks s' = 0" "testing s' = 0" "accepting s' = 0"
    by blast
  have "server_step e s' = None" if "e \<notin> {Start, Stop}" for e
    using that s(6-8) by (cases e) (auto simp: server_step_defs)
  with stopped_server_winds_down [OF s(5,2)] s show ?thesis by auto
qed

text \<open>
  A restart before the first call of \<open>handleAccept\<close> has seen the flag leaves two of them, and the
  descriptor is closed twice; a restart after it has returned accepts on a closed descriptor.
\<close>

lemma restart_closes_twice:
  "\<exists>s. server_run [Start, Begin, Test, Stop, Start, Begin, Test, Stop, Accept 7, Test, Accept 8, Test] (newTcpServer (\<lambda>_ _. 3)) = Some s \<and>
     lisCloses s = 2"
  by (simp add: server_step_defs newTcpServer_def)

lemma restart_accepts_closed:
  "\<exists>s. server_run [Start, Begin, Test, Stop, Accept 7, Test, Start, Begin, Test] (newTcpServer (\<lambda>_ _. 3)) = Some s \<and>
     lisCloses s = 1 \<and> accepting s = 1"
  by (simp add: server_step_defs newTcpServer_def)

end
