(* ===== verification/Lock_Guard.thy ===== *)
theory Lock_Guard
  imports Prelude
begin

text \<open>
  \<open>Mutex\<close>, \<open>LockGuard\<close> and \<open>ConditionVariable\<close> of \<open>src/lock/lock.cpp\<close> and \<open>src/lock/lock.h\<close>, over
  what POSIX says of \<open>pthread_mutex_t\<close> and \<open>pthread_cond_t\<close>: a thread that locks a mutex somebody
  holds waits, unlocking a mutex of somebody else is undefined, and a wait gives the mutex up and
  takes it again.  The steps of the other theories are the sections these locks guard.
\<close>

section \<open>The operations\<close>

text \<open>Threads are numbers.  \<open>waiters\<close> are the threads in a wait on a condition variable.\<close>

record mutex =
  holder :: "nat option"

record condition_variable =
  mLock :: mutex
  waiters :: "nat set"

datatype lock_fault = Not_Holder

definition newMutex :: mutex where
  "newMutex = \<lparr>holder = None\<rparr>"

text \<open>\<open>None\<close>: the caller blocks.  The mutex is a default one, so a second lock of the holder blocks too.\<close>

definition Mutex_lock :: "nat \<Rightarrow> mutex \<Rightarrow> mutex option" where
  "Mutex_lock t m = (if holder m = None then Some (m\<lparr>holder := Some t\<rparr>) else None)"

definition Mutex_unlock :: "nat \<Rightarrow> mutex \<Rightarrow> lock_fault + mutex" where
  "Mutex_unlock t m = (if holder m = Some t then Inr (m\<lparr>holder := None\<rparr>) else Inl Not_Holder)"

definition newLockGuard :: "nat \<Rightarrow> mutex \<Rightarrow> mutex option" where
  "newLockGuard t m = Mutex_lock t m"

definition LockGuard_destroy :: "nat \<Rightarrow> mutex \<Rightarrow> lock_fault + mutex" where
  "LockGuard_destroy t m = Mutex_unlock t m"

definition newConditionVariable :: "mutex \<Rightarrow> condition_variable" where
  "newConditionVariable mutex = \<lparr>mLock = mutex, waiters = {}\<rparr>"

text \<open>\<open>wait\<close> up to the point where the thread sleeps, and its return once it was woken.\<close>

definition cond_wait :: "nat \<Rightarrow> condition_variable \<Rightarrow> lock_fault + condition_variable" where
  "cond_wait t c = (case Mutex_unlock t (mLock c) of
     Inl e \<Rightarrow> Inl e | Inr m \<Rightarrow> Inr (c\<lparr>mLock := m, waiters := insert t (waiters c)\<rparr>))"

definition cond_return :: "nat \<Rightarrow> condition_variable \<Rightarrow> condition_variable option" where
  "cond_return t c = map_option (\<lambda>m. c\<lparr>mLock := m\<rparr>) (Mutex_lock t (mLock c))"

text \<open>\<open>woken\<close> is the choice of \<open>pthread_cond_signal\<close>: at least one of the waiters, if there is one.\<close>

definition nodify :: "nat set \<Rightarrow> condition_variable \<Rightarrow> condition_variable" where
  "nodify woken c = c\<lparr>waiters := waiters c - woken\<rparr>"

definition nodifyAll :: "condition_variable \<Rightarrow> condition_variable" where
  "nodifyAll c = c\<lparr>waiters := {}\<rparr>"

section \<open>Threads that use them\<close>

text \<open>A thread is outside of the guard's scope, in it, or in a wait inside of it.\<close>

datatype phase = Outside | Inside | In_Wait

record monitor =
  cond :: condition_variable
  phases :: "nat \<Rightarrow> phase"

definition new_monitor :: monitor where
  "new_monitor = \<lparr>cond = newConditionVariable newMutex, phases = \<lambda>_. Outside\<rparr>"

inductive monitor_step :: "monitor \<Rightarrow> monitor \<Rightarrow> bool" where
  enter: "phases s t = Outside \<Longrightarrow> newLockGuard t (mLock (cond s)) = Some m \<Longrightarrow>
    monitor_step s (s\<lparr>cond := (cond s)\<lparr>mLock := m\<rparr>, phases := (phases s)(t := Inside)\<rparr>)"
| leave: "phases s t = Inside \<Longrightarrow> LockGuard_destroy t (mLock (cond s)) = Inr m \<Longrightarrow>
    monitor_step s (s\<lparr>cond := (cond s)\<lparr>mLock := m\<rparr>, phases := (phases s)(t := Outside)\<rparr>)"
| sleep: "phases s t = Inside \<Longrightarrow> cond_wait t (cond s) = Inr c \<Longrightarrow>
    monitor_step s (s\<lparr>cond := c, phases := (phases s)(t := In_Wait)\<rparr>)"
| wake: "phases s t = In_Wait \<Longrightarrow> t \<notin> waiters (cond s) \<Longrightarrow> cond_return t (cond s) = Some c \<Longrightarrow>
    monitor_step s (s\<lparr>cond := c, phases := (phases s)(t := Inside)\<rparr>)"
| signal: "woken \<inter> waiters (cond s) \<noteq> {} \<or> waiters (cond s) = {} \<Longrightarrow> monitor_step s (s\<lparr>cond := nodify woken (cond s)\<rparr>)"
| broadcast: "monitor_step s (s\<lparr>cond := nodifyAll (cond s)\<rparr>)"

inductive_cases monitor_stepE: "monitor_step s s'"

definition monitor_ok :: "monitor \<Rightarrow> bool" where
  "monitor_ok s \<longleftrightarrow> (\<forall>t. phases s t = Inside \<longleftrightarrow> holder (mLock (cond s)) = Some t) \<and>
     (\<forall>t\<in>waiters (cond s). phases s t = In_Wait)"

lemmas lock_defs = Mutex_lock_def Mutex_unlock_def newLockGuard_def LockGuard_destroy_def cond_wait_def cond_return_def
  nodify_def nodifyAll_def

lemma monitor_step_ok: "monitor_step s s' \<Longrightarrow> monitor_ok s \<Longrightarrow> monitor_ok s'"
  by (erule monitor_stepE; auto simp: monitor_ok_def lock_defs split: if_splits; metis phase.distinct)

lemma monitor_reachable: "monitor_step\<^sup>*\<^sup>* new_monitor s \<Longrightarrow> monitor_ok s"
proof (induction rule: rtranclp_induct)
  case base
  show ?case by (simp add: new_monitor_def monitor_ok_def newConditionVariable_def newMutex_def)
qed (blast intro: monitor_step_ok)

text \<open>
  Whatever threads enter and leave scopes of guards, wait and are notified: at most one is
  inside, the end of a scope and a wait are always defined, and when nobody is inside each thread
  that is outside or was notified can go in.
\<close>

theorem guarded_scopes_exclusive:
  assumes "monitor_step\<^sup>*\<^sup>* new_monitor s"
  shows "(phases s t = Inside \<and> phases s t' = Inside \<longrightarrow> t = t') \<and>
    (phases s t = Inside \<longrightarrow> (\<exists>m c. LockGuard_destroy t (mLock (cond s)) = Inr m \<and> cond_wait t (cond s) = Inr c)) \<and>
    ((\<forall>t. phases s t \<noteq> Inside) \<longrightarrow> (\<exists>m c. newLockGuard t (mLock (cond s)) = Some m \<and> cond_return t (cond s) = Some c))"
  using monitor_reachable [OF assms] by (auto simp: monitor_ok_def lock_defs)

theorem guarded_scopes_exclusive_witness: "\<exists>s. monitor_step\<^sup>*\<^sup>* new_monitor s \<and> phases s 1 = Inside \<and> phases s 2 \<noteq> Inside"
proof -
  have "monitor_step new_monitor (new_monitor\<lparr>cond := (cond new_monitor)\<lparr>mLock := \<lparr>holder = Some 1\<rparr>\<rparr>,
      phases := (phases new_monitor)(1 := Inside)\<rparr>)" (is "monitor_step _ ?s")
    by (rule enter) (simp_all add: new_monitor_def newConditionVariable_def newMutex_def lock_defs)
  then have r: "monitor_step\<^sup>*\<^sup>* new_monitor ?s" by (rule r_into_rtranclp)
  have "phases ?s 1 = Inside" by simp
  with guarded_scopes_exclusive [OF r, of 1 2] r show ?thesis by (intro exI [of _ ?s]) auto
qed

end
